(* ===== verification/Prelude.thy ===== *)
theory Prelude
  imports Main "HOL-Library.Word" "HOL-Library.Char_ord" "HOL-Library.List_Lexorder"
    "HOL-Library.Monad_Syntax"
begin

text \<open>
  What the components share: names for the C++ scalar types, the option monad as the
  model of code that can fault (an out-of-range access or a failed \<open>assert\<close> is
  \<open>None\<close>), the parts of the C and C++ standard library the sources use on characters
  and numbers (\<open>isdigit\<close>, \<open>tolower\<close>, \<open>std::to_string\<close>), and the generic lemmas on lists,
  bits and decimal digits that the component proofs rest on.
\<close>

unbundle bit_operations_syntax

section \<open>Scalar types\<close>

type_synonym byte = "8 word"
type_synonym u64 = "64 word"

abbreviation UINT16_MAX :: nat where "UINT16_MAX \<equiv> 65535"
abbreviation UINT32_MAX :: nat where "UINT32_MAX \<equiv> 4294967295"
abbreviation UINT64_MAX :: nat where "UINT64_MAX \<equiv> 18446744073709551615"
abbreviation INT64_MAX :: nat where "INT64_MAX \<equiv> 9223372036854775807"

definition int64_range :: "int \<Rightarrow> bool" where
  "int64_range v \<longleftrightarrow> - 9223372036854775808 \<le> v \<and> v \<le> 9223372036854775807"

text \<open>Conversion to a signed 64-bit (32-bit) integer keeps the low bits, two's complement.\<close>

definition to_int64 :: "int \<Rightarrow> int" where
  "to_int64 v = (v + 9223372036854775808) mod 18446744073709551616 - 9223372036854775808"

definition to_int32 :: "int \<Rightarrow> int" where
  "to_int32 v = (v + 2147483648) mod 4294967296 - 2147483648"

section \<open>Characters and bytes\<close>

definition byte_of_char :: "char \<Rightarrow> byte" where
  "byte_of_char c = of_char c"

definition char_of_byte :: "byte \<Rightarrow> char" where
  "char_of_byte b = char_of (unat b)"

definition bytes_of_string :: "string \<Rightarrow> byte list" where
  "bytes_of_string s = map byte_of_char s"

definition string_of_bytes :: "byte list \<Rightarrow> string" where
  "string_of_bytes bs = map char_of_byte bs"

definition isdigit :: "char \<Rightarrow> bool" where
  "isdigit c \<longleftrightarrow> 48 \<le> (of_char c :: nat) \<and> (of_char c :: nat) \<le> 57"

definition digit_val :: "char \<Rightarrow> nat" where
  "digit_val c = of_char c - 48"

definition digit_char :: "nat \<Rightarrow> char" where
  "digit_char d = char_of (48 + d)"

definition tolower :: "char \<Rightarrow> char" where
  "tolower c = (if 65 \<le> (of_char c :: nat) \<and> (of_char c :: nat) \<le> 90
     then char_of (of_char c + 32 :: nat) else c)"

abbreviation CR :: char where "CR \<equiv> CHR 0x0D"
abbreviation LF :: char where "LF \<equiv> CHR 0x0A"
abbreviation CRLF :: string where "CRLF \<equiv> [CR, LF]"

section \<open>Decimal printing\<close>

text \<open>\<open>std::to_string\<close> on unsigned and on signed integers.\<close>

fun nat_to_string :: "nat \<Rightarrow> string" where
  "nat_to_string n =
     (if n < 10 then [digit_char n] else nat_to_string (n div 10) @ [digit_char (n mod 10)])"

declare nat_to_string.simps [simp del]

definition int_to_string :: "int \<Rightarrow> string" where
  "int_to_string i =
     (if i < 0 then CHR ''-'' # nat_to_string (nat (- i)) else nat_to_string (nat i))"

text \<open>The value of a digit string, read left to right onto an accumulator.\<close>

fun digits_value :: "nat \<Rightarrow> string \<Rightarrow> nat" where
  "digits_value acc [] = acc"
| "digits_value acc (c # cs) = digits_value (acc * 10 + digit_val c) cs"

section \<open>Checked reads\<close>

text \<open>A read through a pointer: the buffer and the offset of the byte in it.\<close>

definition rd :: "'a list \<Rightarrow> nat \<Rightarrow> 'a option" where
  "rd xs i = (if i < length xs then Some (xs ! i) else None)"

definition assert_that :: "bool \<Rightarrow> unit option" where
  "assert_that b = (if b then Some () else None)"

section \<open>Collections of facts\<close>

named_theorems char_simps \<open>characters, digits and bytes\<close>
named_theorems resp_simps \<open>equations of the RESP encoders\<close>
named_theorems fault_simps \<open>evaluation of code in the fault monad\<close>

section \<open>Lemmas on the fault monad\<close>

lemma rd_Some_iff [fault_simps]: "rd xs i = Some x \<longleftrightarrow> i < length xs \<and> xs ! i = x"
  by (auto simp: rd_def)

lemma rd_append1 [simp]: "i < length xs \<Longrightarrow> rd (xs @ ys) i = rd xs i"
  by (simp add: rd_def nth_append)

lemma rd_append2: "length xs \<le> i \<Longrightarrow> rd (xs @ ys) i = rd ys (i - length xs)"
  by (auto simp: rd_def nth_append)

lemma rd_append_len [simp]: "rd (xs @ ys) (length xs + i) = rd ys i"
  by (simp add: rd_append2)

lemma rd_append_len0 [simp]: "rd (xs @ ys) (length xs) = rd ys 0"
  by (simp add: rd_append2)

lemma rd_append_Suc [simp]: "rd (xs @ ys) (Suc (length xs)) = rd ys (Suc 0)"
  using rd_append_len [of xs ys "Suc 0"] by simp

lemma rd_append_Suc_Suc [simp]: "rd (xs @ ys) (Suc (Suc (length xs))) = rd ys (Suc (Suc 0))"
  using rd_append_len [of xs ys "Suc (Suc 0)"] by simp

lemma rd_Cons_0 [simp]: "rd (x # xs) 0 = Some x"
  by (simp add: rd_def)

lemma rd_Cons_Suc [simp]: "rd (x # xs) (Suc i) = rd xs i"
  by (simp add: rd_def)

lemma rd_Cons_numeral [simp]: "rd (x # xs) (numeral k) = rd xs (pred_numeral k)"
  by (simp add: numeral_eq_Suc)

lemma rd_Nil [simp]: "rd [] i = None"
  by (simp add: rd_def)

lemma assert_that_True [simp]: "assert_that True = Some ()"
  by (simp add: assert_that_def)

lemma assert_that_False [simp]: "assert_that False = None"
  by (simp add: assert_that_def)

lemma assert_that_Some [simp]: "assert_that b = Some u \<longleftrightarrow> b"
  by (simp add: assert_that_def)

section \<open>Lemmas on characters and bytes\<close>

lemma of_char_nat_less [simp]: "(of_char c :: nat) < 256"
proof -
  have "(of_char c :: nat) = of_char (char_of (of_char c :: nat))" by simp
  also have "\<dots> = of_char c mod 256" by (rule of_char_of)
  finally show ?thesis by (metis mod_less_divisor zero_less_numeral)
qed

lemma char_of_byte_of_char [simp, char_simps]: "char_of_byte (byte_of_char c) = c"
proof -
  have "unat (of_nat (of_char c) :: byte) = of_char c"
    by (simp only: unat_of_nat) simp
  then show ?thesis
    by (simp add: char_of_byte_def byte_of_char_def of_nat_of_char)
qed

lemma byte_of_char_of_byte [simp, char_simps]: "byte_of_char (char_of_byte b) = b"
proof -
  have "unat b < 2 ^ LENGTH(8)" by (rule unsigned_less)
  then have "unat b < 256" by simp
  then have "(of_nat (of_char (char_of (unat b) :: char)) :: byte) = b"
    by (simp only: of_char_of) simp
  then show ?thesis
    by (simp only: char_of_byte_def byte_of_char_def of_nat_of_char)
qed

lemma string_of_bytes_of_string [simp]: "string_of_bytes (bytes_of_string s) = s"
  by (induction s) (simp_all add: string_of_bytes_def bytes_of_string_def)

lemma bytes_of_string_of_bytes [simp]: "bytes_of_string (string_of_bytes bs) = bs"
  by (induction bs) (simp_all add: string_of_bytes_def bytes_of_string_def)

lemma length_bytes_of_string [simp]: "length (bytes_of_string s) = length s"
  by (simp add: bytes_of_string_def)

lemma length_string_of_bytes [simp]: "length (string_of_bytes s) = length s"
  by (simp add: string_of_bytes_def)

lemma string_of_bytes_append [simp]:
  "string_of_bytes (xs @ ys) = string_of_bytes xs @ string_of_bytes ys"
  by (simp add: string_of_bytes_def)

lemma string_of_bytes_take [simp]: "string_of_bytes (take n bs) = take n (string_of_bytes bs)"
  by (simp add: string_of_bytes_def take_map)

lemma bytes_of_string_take: "bytes_of_string (take n s) = take n (bytes_of_string s)"
  by (simp add: bytes_of_string_def take_map)

lemma of_char_digit_char [char_simps]: "d < 10 \<Longrightarrow> (of_char (digit_char d) :: nat) = 48 + d"
  by (simp add: digit_char_def)

lemma digit_char_0 [simp]: "digit_char 0 = CHR ''0''"
  by code_simp

lemma isdigit_digit_char [simp, char_simps]: "d < 10 \<Longrightarrow> isdigit (digit_char d)"
  by (simp add: isdigit_def of_char_digit_char)

lemma digit_val_digit_char [simp, char_simps]: "d < 10 \<Longrightarrow> digit_val (digit_char d) = d"
  by (simp add: digit_val_def of_char_digit_char)

lemma digit_char_digit_val [simp, char_simps]: "isdigit c \<Longrightarrow> digit_char (digit_val c) = c"
  by (simp add: digit_char_def digit_val_def isdigit_def)

lemma digit_val_less [simp, char_simps]: "isdigit c \<Longrightarrow> digit_val c < 10"
  by (auto simp: digit_val_def isdigit_def)

lemma not_isdigit_minus [simp]: "\<not> isdigit (CHR ''-'')"
  by (simp add: isdigit_def)

lemma not_isdigit_CR [simp]: "\<not> isdigit CR"
  by (simp add: isdigit_def)

lemma tolower_idem [simp]: "tolower (tolower c) = tolower c"
  by (auto simp: tolower_def)

section \<open>Lemmas on decimal strings\<close>

lemma nat_to_string_not_Nil [simp]: "nat_to_string n \<noteq> []"
  by (subst nat_to_string.simps) simp

lemma nat_to_string_small: "n < 10 \<Longrightarrow> nat_to_string n = [digit_char n]"
  by (subst nat_to_string.simps) simp

lemma nat_to_string_digits [simp]: "list_all isdigit (nat_to_string n)"
proof (induction n rule: nat_to_string.induct)
  case (1 n)
  then show ?case
    by (subst nat_to_string.simps) simp
qed

lemma nat_to_string_no_minus [simp]: "CHR ''-'' \<notin> set (nat_to_string n)"
  using nat_to_string_digits [of n] by (auto simp: list_all_iff)

lemma nat_to_string_no_CR [simp]: "CR \<notin> set (nat_to_string n)"
  using nat_to_string_digits [of n] by (auto simp: list_all_iff)

lemma digits_value_append:
  "digits_value acc (xs @ ys) = digits_value (digits_value acc xs) ys"
  by (induction xs arbitrary: acc) simp_all

lemma digits_value_nat_to_string [simp]: "digits_value 0 (nat_to_string n) = n"
proof (induction n rule: nat_to_string.induct)
  case (1 n)
  then show ?case
    by (subst nat_to_string.simps) (simp add: digits_value_append)
qed

lemma digits_value_ge: "acc \<le> digits_value acc cs"
proof (induction cs arbitrary: acc)
  case (Cons c cs)
  have "acc \<le> acc * 10 + digit_val c" by simp
  also have "\<dots> \<le> digits_value (acc * 10 + digit_val c) cs" by (rule Cons.IH)
  finally show ?case by simp
qed simp

text \<open>A digit string with no leading zero is the printed form of its value.\<close>

lemma nat_to_string_snoc:
  "0 < n \<Longrightarrow> isdigit c \<Longrightarrow> nat_to_string (n * 10 + digit_val c) = nat_to_string n @ [c]"
  by (subst nat_to_string.simps) simp

lemma nat_to_string_digits_value:
  "0 < acc \<Longrightarrow> list_all isdigit cs \<Longrightarrow> nat_to_string (digits_value acc cs) = nat_to_string acc @ cs"
  by (induction cs arbitrary: acc) (simp_all add: nat_to_string_snoc)

lemma nat_to_string_inject [simp]: "nat_to_string m = nat_to_string n \<longleftrightarrow> m = n"
  by (metis digits_value_nat_to_string)

lemma nat_to_string_hd_nonzero:
  "0 < n \<Longrightarrow> hd (nat_to_string n) \<noteq> CHR ''0'' \<and> isdigit (hd (nat_to_string n))"
proof (induction n rule: nat_to_string.induct)
  case (1 n)
  show ?case
  proof (cases "n < 10")
    case True
    with 1 have "(of_char (hd (nat_to_string n)) :: nat) = 48 + n" "0 < n"
      by (simp_all add: nat_to_string_small of_char_digit_char)
    with True show ?thesis by (auto simp: isdigit_def)
  next
    case False
    with 1 have "hd (nat_to_string (n div 10)) \<noteq> CHR ''0'' \<and> isdigit (hd (nat_to_string (n div 10)))"
      by simp
    with False show ?thesis by (subst (1 2) nat_to_string.simps) simp
  qed
qed

lemma int_to_string_nonneg: "0 \<le> i \<Longrightarrow> int_to_string i = nat_to_string (nat i)"
  by (simp add: int_to_string_def)

lemma int_to_string_of_nat [simp]: "int_to_string (int n) = nat_to_string n"
  by (simp add: int_to_string_def)

lemma int_to_string_not_Nil [simp]: "int_to_string i \<noteq> []"
  by (simp add: int_to_string_def)

section \<open>Lemmas on bits\<close>

text \<open>Reassembling a number from its low part and the part above it.\<close>

lemma take_bit_split:
  fixes v :: int
  shows "take_bit n v OR push_bit n (take_bit m (drop_bit n v)) = take_bit (n + m) v"
  by (rule bit_eqI) (auto simp: bit_simps)

lemma take_bit_split_nat:
  fixes v :: nat
  shows "take_bit n v OR push_bit n (take_bit m (drop_bit n v)) = take_bit (n + m) v"
  by (rule bit_eqI) (auto simp: bit_simps)

lemma uint_word_of_int_byte [simp]: "uint (word_of_int v :: byte) = take_bit 8 v"
  by (simp add: uint_word_of_int take_bit_eq_mod)

lemma unat_of_nat_byte: "unat (of_nat v :: byte) = take_bit 8 v"
  by (simp add: unat_of_nat take_bit_eq_mod)

end
