(* ===== verification/Utils.thy ===== *)
theory Utils
  imports Prelude
begin

text \<open>
  \<open>src/src/utils/utils.h\<close>: the two decimal readers, the case-insensitive comparison and
  the RESP encoders. An encoder appends to the buffer it is given, as the C++ functions do
  through their \<open>std::string *buffer\<close>; \<open>SHA256\<close> (OpenSSL) is a parameter of
  \<open>hash_sha256\<close>. The theorems: the readers accept exactly what they should and return its
  value (with the silent wrap-around of the unchecked one), and both invert
  \<open>std::to_string\<close>.
\<close>

section \<open>Definitions\<close>

text \<open>
  \<open>convert_positive_string_to_number\<close> fills its output also when it fails, and some
  callers use it regardless, so the model returns the flag and the number. The
  accumulator is an \<open>unsigned long long\<close>: it wraps around.
\<close>

fun cpsn_loop :: "string \<Rightarrow> u64 \<Rightarrow> bool \<times> u64" where
  "cpsn_loop [] number = (True, number)"
| "cpsn_loop (x # xs) number =
     (if isdigit x then cpsn_loop xs (number * 10 + of_nat (digit_val x)) else (False, number))"

definition convert_positive_string_to_number :: "string \<Rightarrow> bool \<times> u64" where
  "convert_positive_string_to_number s = cpsn_loop s 0"

text \<open>The digit loop of \<open>convert_string_to_number\<close>: \<open>None\<close> when it returns \<open>false\<close>.\<close>

fun csn_loop :: "string \<Rightarrow> nat \<Rightarrow> nat option" where
  "csn_loop [] number = Some number"
| "csn_loop (c # cs) number =
     (if \<not> isdigit c then None
      else if UINT64_MAX div 10 < number then None
      else if UINT64_MAX - digit_val c < number * 10 then None
      else csn_loop cs (number * 10 + digit_val c))"

definition convert_string_to_number :: "string \<Rightarrow> int option" where
  "convert_string_to_number s =
     (if s = ''0'' then Some 0
      else
        let isNegative = (1 < length s \<and> hd s = CHR ''-'');
            rest = (if isNegative then tl s else s)
        in case rest of
             [] \<Rightarrow> None
           | c # cs \<Rightarrow>
               if \<not> isdigit c then None
               else (case csn_loop cs (digit_val c) of
                   None \<Rightarrow> None
                 | Some number \<Rightarrow>
                     if isNegative
                     then (if INT64_MAX + 1 < number then None else Some (- int number))
                     else (if INT64_MAX < number then None else Some (int number))))"

definition is_equal :: "string \<Rightarrow> string \<Rightarrow> bool" where
  "is_equal s1 s2 \<longleftrightarrow>
     length s1 = length s2 \<and> list_all2 (\<lambda>x y. tolower x = tolower y) s1 s2"

definition encode_simple_string :: "string \<Rightarrow> string \<Rightarrow> string" where
  "encode_simple_string buffer str = buffer @ ''+'' @ str @ CRLF"

definition encode_bulk_string :: "string \<Rightarrow> string \<Rightarrow> string" where
  "encode_bulk_string buffer str =
     buffer @ ''$'' @ nat_to_string (length str) @ CRLF @ str @ CRLF"

definition encode_null_bulk_string :: "string \<Rightarrow> string" where
  "encode_null_bulk_string buffer = buffer @ ''$-1'' @ CRLF"

definition encode_empty_array :: "string \<Rightarrow> string" where
  "encode_empty_array buffer = buffer @ ''*0'' @ CRLF"

definition encode_null_array :: "string \<Rightarrow> string" where
  "encode_null_array buffer = buffer @ ''*-1'' @ CRLF"

definition encode_integer :: "string \<Rightarrow> int \<Rightarrow> string" where
  "encode_integer buffer value = buffer @ '':'' @ int_to_string value @ CRLF"

definition encode_error :: "string \<Rightarrow> string \<Rightarrow> string \<Rightarrow> string" where
  "encode_error buffer message errorType =
     buffer @ ''-'' @ errorType @ '' '' @ message @ CRLF"

definition encode_array_header :: "string \<Rightarrow> nat \<Rightarrow> string" where
  "encode_array_header buffer count = buffer @ ''*'' @ nat_to_string count @ CRLF"

definition encode_bulk_string_array :: "string \<Rightarrow> string list \<Rightarrow> string" where
  "encode_bulk_string_array buffer items =
     foldl encode_bulk_string (encode_array_header buffer (length items)) items"

definition hex_digit :: "nat \<Rightarrow> char" where
  "hex_digit d = (if d < 10 then char_of (48 + d) else char_of (87 + d))"

text \<open>\<open>snprintf ("%02x")\<close> of each byte of the digest.\<close>

definition hash_sha256 :: "(string \<Rightarrow> byte list) \<Rightarrow> string \<Rightarrow> string" where
  "hash_sha256 SHA256 input =
     concat (map (\<lambda>b. [hex_digit (unat b div 16), hex_digit (unat b mod 16)]) (SHA256 input))"

section \<open>Appending encoders\<close>

text \<open>Every encoder appends a fixed text: what it writes does not depend on the buffer.\<close>

definition bulk :: "string \<Rightarrow> string" where
  "bulk s = ''$'' @ nat_to_string (length s) @ CRLF @ s @ CRLF"

definition bulks :: "string list \<Rightarrow> string" where
  "bulks ss = concat (map bulk ss)"

lemma encode_bulk_string_bulk [resp_simps]: "encode_bulk_string b s = b @ bulk s"
  by (simp add: encode_bulk_string_def bulk_def)

lemma foldl_encode_bulk_string [resp_simps]: "foldl encode_bulk_string b ss = b @ bulks ss"
  by (induction ss arbitrary: b) (simp_all add: encode_bulk_string_bulk bulks_def)

lemma encode_bulk_string_array_bulks [resp_simps]:
  "encode_bulk_string_array b ss = b @ ''*'' @ nat_to_string (length ss) @ CRLF @ bulks ss"
  by (simp add: encode_bulk_string_array_def foldl_encode_bulk_string encode_array_header_def)

lemma bulks_Nil [simp]: "bulks [] = []"
  by (simp add: bulks_def)

lemma bulks_Cons [simp]: "bulks (s # ss) = bulk s @ bulks ss"
  by (simp add: bulks_def)

lemma bulks_append [simp]: "bulks (ss @ ts) = bulks ss @ bulks ts"
  by (simp add: bulks_def)

lemmas encoder_defs [resp_simps] = encode_simple_string_def encode_null_bulk_string_def
  encode_empty_array_def encode_null_array_def encode_integer_def encode_error_def
  encode_array_header_def

section \<open>The decimal readers\<close>

lemma cpsn_loop_digits:
  "list_all isdigit cs \<Longrightarrow> cpsn_loop cs (of_nat acc) = (True, of_nat (digits_value acc cs))"
proof (induction cs arbitrary: acc)
  case (Cons c cs)
  have "(of_nat acc * 10 + of_nat (digit_val c) :: u64) = of_nat (acc * 10 + digit_val c)"
    by simp
  with Cons show ?case by (simp del: of_nat_add of_nat_mult)
qed simp

lemma cpsn_loop_True_iff: "fst (cpsn_loop cs n) \<longleftrightarrow> list_all isdigit cs"
  by (induction cs arbitrary: n) simp_all

lemma convert_positive_True_iff:
  "fst (convert_positive_string_to_number s) \<longleftrightarrow> list_all isdigit s"
  by (simp add: convert_positive_string_to_number_def cpsn_loop_True_iff)

lemma convert_positive_digits:
  "list_all isdigit s \<Longrightarrow>
     convert_positive_string_to_number s = (True, of_nat (digits_value 0 s))"
  using cpsn_loop_digits [of s 0] by (simp add: convert_positive_string_to_number_def)

lemma convert_positive_nat_to_string [simp]:
  "convert_positive_string_to_number (nat_to_string n) = (True, of_nat n)"
  by (simp add: convert_positive_digits)

lemma csn_loop_Some_iff:
  "number \<le> UINT64_MAX \<Longrightarrow>
     csn_loop cs number = Some r \<longleftrightarrow>
       list_all isdigit cs \<and> r = digits_value number cs \<and> r \<le> UINT64_MAX"
proof (induction cs arbitrary: number)
  case (Cons c cs)
  let ?n = "number * 10 + digit_val c"
  show ?case
  proof (cases "isdigit c")
    case True
    then have d: "digit_val c < 10" by simp
    show ?thesis
    proof (cases "?n \<le> UINT64_MAX")
      case fits: True
      with d have "\<not> UINT64_MAX div 10 < number" "\<not> UINT64_MAX - digit_val c < number * 10"
        by simp_all
      with True fits Cons.IH [of ?n] show ?thesis by simp
    next
      case False
      with d have "UINT64_MAX - digit_val c < number * 10" by arith
      moreover have "?n \<le> digits_value ?n cs" by (rule digits_value_ge)
      ultimately show ?thesis using False True by auto
    qed
  qed simp
qed auto

definition int_digits :: "string \<Rightarrow> bool" where
  "int_digits s \<longleftrightarrow> s \<noteq> [] \<and> list_all isdigit s"

lemma convert_string_to_number_pos:
  assumes "int_digits s" and "digits_value 0 s \<le> INT64_MAX"
  shows "convert_string_to_number s = Some (int (digits_value 0 s))"
proof (cases "s = ''0''")
  case True
  then show ?thesis by (simp add: convert_string_to_number_def digit_val_def)
next
  case False
  from assms obtain c cs where s: "s = c # cs" and c: "isdigit c" and cs: "list_all isdigit cs"
    by (cases s) (auto simp: int_digits_def)
  from c have "c \<noteq> CHR ''-''" by auto
  moreover have "csn_loop cs (digit_val c) = Some (digits_value 0 s)"
    using c cs s assms(2) by (subst csn_loop_Some_iff) (auto dest: digit_val_less)
  ultimately show ?thesis
    using False s c assms(2) by (auto simp: convert_string_to_number_def Let_def)
qed

lemma convert_string_to_number_neg:
  assumes "int_digits s" and "digits_value 0 s \<le> INT64_MAX + 1"
  shows "convert_string_to_number (CHR ''-'' # s) = Some (- int (digits_value 0 s))"
proof -
  from assms obtain c cs where s: "s = c # cs" and c: "isdigit c" and cs: "list_all isdigit cs"
    by (cases s) (auto simp: int_digits_def)
  have "csn_loop cs (digit_val c) = Some (digits_value 0 s)"
    using c cs s assms(2) by (subst csn_loop_Some_iff) (auto dest: digit_val_less)
  then show ?thesis
    using s c assms(2) by (auto simp: convert_string_to_number_def Let_def)
qed

lemma convert_string_to_number_SomeD:
  assumes "convert_string_to_number s = Some v"
  shows "int64_range v \<and>
    (int_digits s \<and> v = int (digits_value 0 s) \<or>
     (\<exists>t. s = CHR ''-'' # t \<and> int_digits t \<and> v = - int (digits_value 0 t)))"
proof (cases "s = ''0''")
  case True
  with assms show ?thesis
    by (simp add: convert_string_to_number_def int64_range_def int_digits_def isdigit_def
        digit_val_def)
next
  case False
  define neg where "neg = (1 < length s \<and> hd s = CHR ''-'')"
  define rest where "rest = (if neg then tl s else s)"
  have "(case rest of [] \<Rightarrow> None
    | c # cs \<Rightarrow> if \<not> isdigit c then None
        else (case csn_loop cs (digit_val c) of None \<Rightarrow> None
          | Some number \<Rightarrow> if neg then (if INT64_MAX + 1 < number then None else Some (- int number))
              else (if INT64_MAX < number then None else Some (int number)))) = Some v"
    using assms False unfolding convert_string_to_number_def rest_def neg_def Let_def
    by (simp only: if_False)
  then obtain c cs n where rest: "rest = c # cs" and c: "isdigit c"
    and n: "csn_loop cs (digit_val c) = Some n"
    and v: "if neg then n \<le> INT64_MAX + 1 \<and> v = - int n else n \<le> INT64_MAX \<and> v = int n"
    by (cases neg) (auto split: list.splits if_splits option.splits)
  from c have "digit_val c \<le> UINT64_MAX" by (auto dest: digit_val_less)
  with n have cs: "list_all isdigit cs" and nv: "n = digits_value 0 rest"
    by (auto simp: csn_loop_Some_iff rest)
  have "int_digits rest" using c cs by (simp add: int_digits_def rest)
  moreover have "neg \<Longrightarrow> s = CHR ''-'' # rest"
    by (cases s) (auto simp: neg_def rest_def)
  moreover have "\<not> neg \<Longrightarrow> s = rest" by (simp add: rest_def)
  ultimately show ?thesis using v nv by (cases neg) (auto simp: int64_range_def)
qed

lemma convert_string_to_number_int_to_string:
  assumes "int64_range v"
  shows "convert_string_to_number (int_to_string v) = Some v"
proof (cases "v < 0")
  case True
  with assms show ?thesis
    by (simp add: int_to_string_def int64_range_def convert_string_to_number_neg int_digits_def)
next
  case False
  with assms show ?thesis
    by (simp add: int_to_string_def int64_range_def convert_string_to_number_pos int_digits_def)
qed

section \<open>Case-insensitive comparison\<close>

lemma is_equal_map_tolower: "is_equal s t \<longleftrightarrow> map tolower s = map tolower t"
  by (auto simp: is_equal_def list_all2_conv_all_nth list_eq_iff_nth_eq)

lemma is_equal_refl [simp]: "is_equal s s"
  by (simp add: is_equal_map_tolower)

end
