(* ===== verification/Listpack.thy ===== *)
theory Listpack
  imports Utils
begin

text \<open>
  \<open>src/src/listpack.h\<close> and \<open>src/src/listpack.cpp\<close>: the byte-level list encoding behind the
  list commands. A listpack is one heap buffer; the model is the list of its bytes, a
  pointer into it is an offset, \<open>nullptr\<close> is \<open>None\<close>. Every function runs in the fault
  monad: a read or write outside the buffer, or a failed \<open>assert\<close>, gives \<open>None\<close> for the
  whole call, so a proof that a call returns \<open>Some\<close> is a proof of memory safety too.
  \<open>operator new[]\<close> is the parameter \<open>new\<close> of type \<open>allocator\<close>: \<open>None\<close> is the null
  pointer of the \<open>std::nothrow\<close> form, \<open>Some bs\<close> a block with indeterminate contents.
  This theory holds the definitions; the entry codec, the navigation and the editing
  operations are verified in \<open>Listpack_Codec\<close>, \<open>Listpack_Nav\<close> and \<open>Listpack_Edit\<close>.
\<close>

section \<open>Buffers\<close>

type_synonym allocator = "nat \<Rightarrow> byte list option"

definition wr :: "byte list \<Rightarrow> nat \<Rightarrow> byte \<Rightarrow> byte list option" where
  "wr m i b = (if i < length m then Some (m[i := b]) else None)"

definition slice :: "byte list \<Rightarrow> nat \<Rightarrow> nat \<Rightarrow> byte list option" where
  "slice m off n = (if off + n \<le> length m then Some (take n (drop off m)) else None)"

definition copy_into :: "byte list \<Rightarrow> nat \<Rightarrow> byte list \<Rightarrow> byte list option" where
  "copy_into m off src =
     (if off + length src \<le> length m
      then Some (take off m @ src @ drop (off + length src) m) else None)"

definition memmove :: "byte list \<Rightarrow> nat \<Rightarrow> nat \<Rightarrow> nat \<Rightarrow> byte list option" where
  "memmove m dst src n = do { bs \<leftarrow> slice m src n; copy_into m dst bs }"

text \<open>Subtraction of 64-bit unsigned lengths.\<close>

definition sub64 :: "nat \<Rightarrow> nat \<Rightarrow> nat" where
  "sub64 a b = (a + 18446744073709551616 - b) mod 18446744073709551616"

section \<open>Constants and encoding tests (listpack.h)\<close>

abbreviation LP_HEADER_SIZE :: nat where "LP_HEADER_SIZE \<equiv> 6"
abbreviation LP_HDR_NUMELE_UNKNOWN :: nat where "LP_HDR_NUMELE_UNKNOWN \<equiv> 65535"
abbreviation LP_EOF :: byte where "LP_EOF \<equiv> 0xFF"
abbreviation LISTPACK_MAX_SAFETY_SIZE :: nat where "LISTPACK_MAX_SAFETY_SIZE \<equiv> 1073741824"
abbreviation MAX_LONG_INT_STR_LEN :: nat where "MAX_LONG_INT_STR_LEN \<equiv> 21"

definition LP_ENCODING_IS_7_BIT_UINT :: "byte \<Rightarrow> bool" where
  "LP_ENCODING_IS_7_BIT_UINT b \<longleftrightarrow> 0x80 AND b = 0"

definition LP_ENCODING_IS_13_BIT_INT :: "byte \<Rightarrow> bool" where
  "LP_ENCODING_IS_13_BIT_INT b \<longleftrightarrow> 0xE0 AND b = 0xC0"

definition LP_ENCODING_IS_16_BIT_INT :: "byte \<Rightarrow> bool" where
  "LP_ENCODING_IS_16_BIT_INT b \<longleftrightarrow> 0xFF AND b = 0xF1"

definition LP_ENCODING_IS_24_BIT_INT :: "byte \<Rightarrow> bool" where
  "LP_ENCODING_IS_24_BIT_INT b \<longleftrightarrow> 0xFF AND b = 0xF2"

definition LP_ENCODING_IS_32_BIT_INT :: "byte \<Rightarrow> bool" where
  "LP_ENCODING_IS_32_BIT_INT b \<longleftrightarrow> 0xFF AND b = 0xF3"

definition LP_ENCODING_IS_64_BIT_INT :: "byte \<Rightarrow> bool" where
  "LP_ENCODING_IS_64_BIT_INT b \<longleftrightarrow> 0xFF AND b = 0xF4"

definition LP_ENCODING_IS_6_BIT_STR :: "byte \<Rightarrow> bool" where
  "LP_ENCODING_IS_6_BIT_STR b \<longleftrightarrow> 0xC0 AND b = 0x80"

definition LP_ENCODING_IS_12_BIT_STR :: "byte \<Rightarrow> bool" where
  "LP_ENCODING_IS_12_BIT_STR b \<longleftrightarrow> 0xF0 AND b = 0xE0"

definition LP_ENCODING_IS_32_BIT_STR :: "byte \<Rightarrow> bool" where
  "LP_ENCODING_IS_32_BIT_STR b \<longleftrightarrow> 0xFF AND b = 0xF0"

definition LP_ENCODING_6_BIT_STR_LEN :: "byte list \<Rightarrow> nat \<Rightarrow> nat option" where
  "LP_ENCODING_6_BIT_STR_LEN m p = do { b0 \<leftarrow> rd m p; Some (unat (b0 AND 0x3F)) }"

definition LP_ENCODING_12_BIT_STR_LEN :: "byte list \<Rightarrow> nat \<Rightarrow> nat option" where
  "LP_ENCODING_12_BIT_STR_LEN m p = do {
     b0 \<leftarrow> rd m p; b1 \<leftarrow> rd m (p + 1);
     Some (push_bit 8 (unat (b0 AND 0xF)) OR unat b1) }"

definition LP_ENCODING_32_BIT_STR_LEN :: "byte list \<Rightarrow> nat \<Rightarrow> nat option" where
  "LP_ENCODING_32_BIT_STR_LEN m p = do {
     b1 \<leftarrow> rd m (p + 1); b2 \<leftarrow> rd m (p + 2); b3 \<leftarrow> rd m (p + 3); b4 \<leftarrow> rd m (p + 4);
     Some (unat b1 OR push_bit 8 (unat b2) OR push_bit 16 (unat b3) OR push_bit 24 (unat b4)) }"

section \<open>The header (listpack.h)\<close>

definition lpSetTotalBytes :: "byte list \<Rightarrow> nat \<Rightarrow> byte list option" where
  "lpSetTotalBytes lp capacity = do {
     lp \<leftarrow> wr lp 0 (of_nat (capacity AND 0xff));
     lp \<leftarrow> wr lp 1 (of_nat (drop_bit 8 capacity AND 0xff));
     lp \<leftarrow> wr lp 2 (of_nat (drop_bit 16 capacity AND 0xff));
     wr lp 3 (of_nat (drop_bit 24 capacity AND 0xff)) }"

definition lpSetNumElements :: "byte list \<Rightarrow> nat \<Rightarrow> byte list option" where
  "lpSetNumElements lp nums = do {
     lp \<leftarrow> wr lp 4 (of_nat (nums AND 0xff));
     wr lp 5 (of_nat (drop_bit 8 nums AND 0xff)) }"

definition lpGetTotalBytes :: "byte list \<Rightarrow> nat option" where
  "lpGetTotalBytes lp = do {
     b0 \<leftarrow> rd lp 0; b1 \<leftarrow> rd lp 1; b2 \<leftarrow> rd lp 2; b3 \<leftarrow> rd lp 3;
     Some (unat (b0 AND 0xff) OR push_bit 8 (unat (b1 AND 0xff)) OR
           push_bit 16 (unat (b2 AND 0xff)) OR push_bit 24 (unat (b3 AND 0xff))) }"

definition lpGetTotalNumElements :: "byte list \<Rightarrow> nat option" where
  "lpGetTotalNumElements lp = do {
     b4 \<leftarrow> rd lp 4; b5 \<leftarrow> rd lp 5;
     Some (unat (b4 AND 0xff) OR push_bit 8 (unat (b5 AND 0xff))) }"

definition ASSERT_INTEGRITY :: "byte list \<Rightarrow> nat \<Rightarrow> unit option" where
  "ASSERT_INTEGRITY lp p = do {
     t \<leftarrow> lpGetTotalBytes lp; assert_that (LP_HEADER_SIZE \<le> p \<and> p < t) }"

definition ASSERT_INTEGRITY_LEN :: "byte list \<Rightarrow> nat \<Rightarrow> nat \<Rightarrow> unit option" where
  "ASSERT_INTEGRITY_LEN lp p len = do {
     t \<leftarrow> lpGetTotalBytes lp; assert_that (LP_HEADER_SIZE \<le> p \<and> p + len < t) }"

section \<open>Entry sizes and back lengths\<close>

definition lpEncodeBacklen :: "nat \<Rightarrow> byte list \<times> nat" where
  "lpEncodeBacklen l =
     (if l \<le> 127 then ([of_nat l], 1)
      else if l < 16383 then ([of_nat (drop_bit 7 l), of_nat ((l AND 127) OR 128)], 2)
      else if l < 2097151 then
        ([of_nat (drop_bit 14 l), of_nat ((drop_bit 7 l AND 127) OR 128),
          of_nat ((l AND 127) OR 128)], 3)
      else if l < 268435455 then
        ([of_nat (drop_bit 21 l), of_nat ((drop_bit 14 l AND 127) OR 128),
          of_nat ((drop_bit 7 l AND 127) OR 128), of_nat ((l AND 127) OR 128)], 4)
      else
        ([of_nat (drop_bit 28 l), of_nat ((drop_bit 21 l AND 127) OR 128),
          of_nat ((drop_bit 14 l AND 127) OR 128), of_nat ((drop_bit 7 l AND 127) OR 128),
          of_nat ((l AND 127) OR 128)], 5))"

definition lpEncodeBacklenBytes :: "nat \<Rightarrow> nat" where
  "lpEncodeBacklenBytes l =
     (if l \<le> 127 then 1 else if l < 16383 then 2 else if l < 2097151 then 3
      else if l < 268435455 then 4 else 5)"

text \<open>The loop of \<open>lpDecodeBacklen\<close>, walking to the left with the current shift.\<close>

function lpDecodeBacklen_loop :: "byte list \<Rightarrow> nat \<Rightarrow> nat \<Rightarrow> nat \<Rightarrow> nat option" where
  "lpDecodeBacklen_loop m p shift value =
     (case rd m p of
        None \<Rightarrow> None
      | Some b \<Rightarrow>
          let value' = push_bit shift (unat (b AND 127)) OR value
          in if b AND 128 = 0 then Some value'
             else if 28 < shift + 7 then Some UINT64_MAX
             else if p = 0 then None
             else lpDecodeBacklen_loop m (p - 1) (shift + 7) value')"
  by pat_completeness auto
termination
  by (relation "measure (\<lambda>(m, p, shift, value). 35 - shift)") auto

declare lpDecodeBacklen_loop.simps [simp del]

definition lpDecodeBacklen :: "byte list \<Rightarrow> nat \<Rightarrow> nat option" where
  "lpDecodeBacklen m p = lpDecodeBacklen_loop m p 0 0"

definition lpCurrentEncodedSizeUnsafe :: "byte list \<Rightarrow> nat \<Rightarrow> nat option" where
  "lpCurrentEncodedSizeUnsafe m p = do {
     b \<leftarrow> rd m p;
     if LP_ENCODING_IS_7_BIT_UINT b then Some 1
     else if LP_ENCODING_IS_13_BIT_INT b then Some 2
     else if LP_ENCODING_IS_16_BIT_INT b then Some 3
     else if LP_ENCODING_IS_24_BIT_INT b then Some 4
     else if LP_ENCODING_IS_32_BIT_INT b then Some 5
     else if LP_ENCODING_IS_64_BIT_INT b then Some 9
     else if LP_ENCODING_IS_6_BIT_STR b then do { n \<leftarrow> LP_ENCODING_6_BIT_STR_LEN m p; Some (1 + n) }
     else if LP_ENCODING_IS_12_BIT_STR b then do { n \<leftarrow> LP_ENCODING_12_BIT_STR_LEN m p; Some (2 + n) }
     else if LP_ENCODING_IS_32_BIT_STR b then
       do { n \<leftarrow> LP_ENCODING_32_BIT_STR_LEN m p; Some ((5 + n) mod 4294967296) }
     else if b = LP_EOF then Some 1
     else Some 0 }"

text \<open>
  The header size of an entry. There is no case for the 64-bit integer encoding, so the
  byte \<open>0xF4\<close> gives 0.
\<close>

definition lpCurrentEncodedSizeBytes :: "byte list \<Rightarrow> nat \<Rightarrow> nat option" where
  "lpCurrentEncodedSizeBytes m p = do {
     b \<leftarrow> rd m p;
     if LP_ENCODING_IS_7_BIT_UINT b then Some 1
     else if LP_ENCODING_IS_13_BIT_INT b then Some 1
     else if LP_ENCODING_IS_16_BIT_INT b then Some 1
     else if LP_ENCODING_IS_24_BIT_INT b then Some 1
     else if LP_ENCODING_IS_32_BIT_INT b then Some 1
     else if LP_ENCODING_IS_6_BIT_STR b then Some 1
     else if LP_ENCODING_IS_12_BIT_STR b then Some 2
     else if LP_ENCODING_IS_32_BIT_STR b then Some 5
     else if b = LP_EOF then Some 1
     else Some 0 }"

definition lpSkip :: "byte list \<Rightarrow> nat \<Rightarrow> nat option" where
  "lpSkip m p = do {
     entrylen \<leftarrow> lpCurrentEncodedSizeUnsafe m p;
     Some (p + (entrylen + lpEncodeBacklenBytes entrylen)) }"

section \<open>Validation\<close>

definition IS_OUT_OF_RANGE :: "nat \<Rightarrow> nat \<Rightarrow> bool" where
  "IS_OUT_OF_RANGE lpbytes p \<longleftrightarrow> p < LP_HEADER_SIZE \<or> lpbytes < p + 1"

text \<open>The result and the pointer \<open>p\<close>, which is passed by reference.\<close>

definition lpValidateNext :: "byte list \<Rightarrow> nat \<Rightarrow> nat option \<Rightarrow> (bool \<times> nat option) option" where
  "lpValidateNext lp lpbytes p =
     (case p of
        None \<Rightarrow> Some (False, p)
      | Some copyp \<Rightarrow>
          if IS_OUT_OF_RANGE lpbytes copyp then Some (False, p)
          else do {
            b \<leftarrow> rd lp copyp;
            if b = LP_EOF then Some (True, None)
            else do {
              lenbytes \<leftarrow> lpCurrentEncodedSizeBytes lp copyp;
              if lenbytes = 0 then Some (False, p)
              else if IS_OUT_OF_RANGE lpbytes (copyp + lenbytes) then Some (False, p)
              else do {
                size \<leftarrow> lpCurrentEncodedSizeUnsafe lp copyp;
                let encodedBacklen = lpEncodeBacklenBytes size;
                let entrylen = size + encodedBacklen;
                if IS_OUT_OF_RANGE lpbytes (copyp + entrylen) then Some (False, p)
                else do {
                  prevbacklen \<leftarrow> lpDecodeBacklen lp (copyp + entrylen - 1);
                  if (prevbacklen + encodedBacklen) mod 18446744073709551616 \<noteq> entrylen
                  then Some (False, p)
                  else Some (True, Some (copyp + entrylen)) } } } })"

definition lpAssertValidEntry :: "byte list \<Rightarrow> nat \<Rightarrow> nat \<Rightarrow> unit option" where
  "lpAssertValidEntry lp lpbytes p = do {
     (ok, _) \<leftarrow> lpValidateNext lp lpbytes (Some p); assert_that ok }"

section \<open>Navigation\<close>

definition lpNext :: "byte list \<Rightarrow> nat option \<Rightarrow> nat option option" where
  "lpNext lp p =
     (case p of
        None \<Rightarrow> Some None
      | Some p0 \<Rightarrow> do {
          q \<leftarrow> lpSkip lp p0;
          total_bytes \<leftarrow> lpGetTotalBytes lp;
          if IS_OUT_OF_RANGE total_bytes q then Some None
          else do {
            b \<leftarrow> rd lp q;
            if b = LP_EOF then Some None
            else do { lpAssertValidEntry lp total_bytes q; Some (Some q) } } })"

definition lpNextWithBytes :: "byte list \<Rightarrow> nat option \<Rightarrow> nat \<Rightarrow> nat option option" where
  "lpNextWithBytes lp p lpbytes = do {
     assert_that (p \<noteq> None);
     q \<leftarrow> lpSkip lp (the p);
     if IS_OUT_OF_RANGE lpbytes q then Some None
     else do {
       b \<leftarrow> rd lp q;
       if b = LP_EOF then Some None
       else do {
         total_bytes \<leftarrow> lpGetTotalBytes lp;
         lpAssertValidEntry lp total_bytes q;
         Some (Some q) } } }"

definition lpPrev :: "byte list \<Rightarrow> nat option \<Rightarrow> nat option option" where
  "lpPrev lp p =
     (case p of
        None \<Rightarrow> Some None
      | Some p0 \<Rightarrow>
          if p0 = LP_HEADER_SIZE then Some None
          else if p0 = 0 then None
          else do {
            prevlen \<leftarrow> lpDecodeBacklen lp (p0 - 1);
            let prevlen' = (prevlen + lpEncodeBacklenBytes prevlen) mod 18446744073709551616;
            if p0 < prevlen' then None
            else do {
              total_bytes \<leftarrow> lpGetTotalBytes lp;
              lpAssertValidEntry lp total_bytes (p0 - prevlen');
              Some (Some (p0 - prevlen')) } })"

definition lpFirst :: "byte list \<Rightarrow> nat option option" where
  "lpFirst lp = do {
     b \<leftarrow> rd lp LP_HEADER_SIZE;
     if b = LP_EOF then Some None
     else do {
       total_bytes \<leftarrow> lpGetTotalBytes lp;
       lpAssertValidEntry lp total_bytes LP_HEADER_SIZE;
       Some (Some LP_HEADER_SIZE) } }"

definition lpLast :: "byte list \<Rightarrow> nat option option" where
  "lpLast lp = do {
     total_bytes \<leftarrow> lpGetTotalBytes lp;
     if total_bytes = 0 then None else lpPrev lp (Some (total_bytes - 1)) }"

text \<open>The two loops of \<open>lpSeek\<close>: \<open>index\<close> steps to the right, or to the left.\<close>

fun lpSeek_forward :: "byte list \<Rightarrow> nat \<Rightarrow> nat option \<Rightarrow> nat option option" where
  "lpSeek_forward lp 0 ele = Some ele"
| "lpSeek_forward lp (Suc index) ele =
     (if ele = None then Some ele
      else do { ele' \<leftarrow> lpNext lp ele; lpSeek_forward lp index ele' })"

fun lpSeek_backward :: "byte list \<Rightarrow> nat \<Rightarrow> nat option \<Rightarrow> nat option option" where
  "lpSeek_backward lp 0 ele = Some ele"
| "lpSeek_backward lp (Suc n) ele =
     (if ele = None then Some ele
      else do { ele' \<leftarrow> lpPrev lp ele; lpSeek_backward lp n ele' })"

definition lpSeek :: "byte list \<Rightarrow> int \<Rightarrow> nat option option" where
  "lpSeek lp index = do {
     numele \<leftarrow> lpGetTotalNumElements lp;
     if numele \<noteq> LP_HDR_NUMELE_UNKNOWN then
       let index1 = (if index < 0 then int numele + index else index)
       in if index1 < 0 then Some None
          else if int numele \<le> index1 then Some None
          else if int numele div 2 < index1 then do {
            ele \<leftarrow> lpLast lp;
            lpSeek_backward lp (nat (- 1 - (index1 - int numele))) ele }
          else do { ele \<leftarrow> lpFirst lp; lpSeek_forward lp (nat index1) ele }
     else if index < 0 then do { ele \<leftarrow> lpLast lp; lpSeek_backward lp (nat (- 1 - index)) ele }
     else do { ele \<leftarrow> lpFirst lp; lpSeek_forward lp (nat index) ele } }"

section \<open>Reading an entry\<close>

text \<open>
  \<open>lpGetWithSize\<close> returns the pointer to the string (or null for an integer), \<open>*count\<close>
  and \<open>*entry_size\<close>, which the branch for an invalid first byte leaves unset.
\<close>

definition lp_signed :: "int \<Rightarrow> int \<Rightarrow> int \<Rightarrow> int" where
  "lp_signed uval negstart negmax = (if negstart \<le> uval then - (negmax - uval) - 1 else uval)"

definition lpGetWithSize :: "byte list \<Rightarrow> nat \<Rightarrow> (nat option \<times> int \<times> nat option) option" where
  "lpGetWithSize m p = do {
     b \<leftarrow> rd m p;
     if LP_ENCODING_IS_7_BIT_UINT b then
       Some (None, lp_signed (uint (b AND 0x7f)) (int UINT64_MAX) 0, Some 2)
     else if LP_ENCODING_IS_6_BIT_STR b then do {
       n \<leftarrow> LP_ENCODING_6_BIT_STR_LEN m p;
       Some (Some (p + 1), int n, Some (1 + n + lpEncodeBacklenBytes (n + 1))) }
     else if LP_ENCODING_IS_13_BIT_INT b then do {
       b1 \<leftarrow> rd m (p + 1);
       Some (None, lp_signed (push_bit 8 (uint (b AND 0x1f)) OR uint b1) (2 ^ 12) 8191, Some 3) }
     else if LP_ENCODING_IS_16_BIT_INT b then do {
       b1 \<leftarrow> rd m (p + 1); b2 \<leftarrow> rd m (p + 2);
       Some (None, lp_signed (uint b1 OR push_bit 8 (uint b2)) (2 ^ 15) 65535, Some 4) }
     else if LP_ENCODING_IS_24_BIT_INT b then do {
       b1 \<leftarrow> rd m (p + 1); b2 \<leftarrow> rd m (p + 2); b3 \<leftarrow> rd m (p + 3);
       Some (None, lp_signed (uint b1 OR push_bit 8 (uint b2) OR push_bit 16 (uint b3))
               (2 ^ 23) 16777215, Some 5) }
     else if LP_ENCODING_IS_32_BIT_INT b then do {
       b1 \<leftarrow> rd m (p + 1); b2 \<leftarrow> rd m (p + 2); b3 \<leftarrow> rd m (p + 3); b4 \<leftarrow> rd m (p + 4);
       Some (None, lp_signed (uint b1 OR push_bit 8 (uint b2) OR push_bit 16 (uint b3) OR
               push_bit 24 (uint b4)) (2 ^ 31) 4294967295, Some 6) }
     else if LP_ENCODING_IS_64_BIT_INT b then do {
       b1 \<leftarrow> rd m (p + 1); b2 \<leftarrow> rd m (p + 2); b3 \<leftarrow> rd m (p + 3); b4 \<leftarrow> rd m (p + 4);
       b5 \<leftarrow> rd m (p + 5); b6 \<leftarrow> rd m (p + 6); b7 \<leftarrow> rd m (p + 7); b8 \<leftarrow> rd m (p + 8);
       Some (None, lp_signed (uint b1 OR push_bit 8 (uint b2) OR push_bit 16 (uint b3) OR
               push_bit 24 (uint b4) OR push_bit 32 (uint b5) OR push_bit 40 (uint b6) OR
               push_bit 48 (uint b7) OR push_bit 56 (uint b8)) (2 ^ 63) (int UINT64_MAX), Some 10) }
     else if LP_ENCODING_IS_12_BIT_STR b then do {
       n \<leftarrow> LP_ENCODING_12_BIT_STR_LEN m p;
       Some (Some (p + 2), int n, Some (2 + n + lpEncodeBacklenBytes (n + 2))) }
     else if LP_ENCODING_IS_32_BIT_STR b then do {
       n \<leftarrow> LP_ENCODING_32_BIT_STR_LEN m p;
       Some (Some (p + 5), int n, Some (5 + n + lpEncodeBacklenBytes (n + 5))) }
     else Some (None, lp_signed (12345678900000000 + uint b) (int UINT64_MAX) 0, None) }"

section \<open>Encoding an element\<close>

text \<open>The digit loop of \<open>lpStringToInt64\<close>, on the characters from \<open>p\<close> to \<open>s + slen\<close>.\<close>

fun lpStringToInt64_loop :: "string \<Rightarrow> nat \<Rightarrow> nat option" where
  "lpStringToInt64_loop [] v = Some v"
| "lpStringToInt64_loop (c # cs) v =
     (if \<not> isdigit c then None
      else if UINT64_MAX div 10 < v then None
      else if UINT64_MAX - digit_val c < v * 10 then None
      else lpStringToInt64_loop cs (v * 10 + digit_val c))"

definition lpStringToInt64 :: "string \<Rightarrow> int option" where
  "lpStringToInt64 s =
     (if s = [] \<or> MAX_LONG_INT_STR_LEN \<le> length s then None
      else if s = ''0'' then Some 0
      else
        let isNegative = (hd s = CHR ''-'');
            p = (if isNegative then tl s else s)
        in case p of
             [] \<Rightarrow> None
           | c # cs \<Rightarrow>
               if \<not> (isdigit c \<and> c \<noteq> CHR ''0'') then None
               else (case lpStringToInt64_loop cs (digit_val c) of
                   None \<Rightarrow> None
                 | Some v \<Rightarrow>
                     if isNegative
                     then (if INT64_MAX + 1 < v then None else Some (- int v))
                     else (if INT64_MAX < v then None else Some (int v))))"

text \<open>The bytes written to \<open>intenc\<close> and the value of \<open>*enclen\<close>.\<close>

definition lpEncodeIntegerGetType :: "int \<Rightarrow> byte list \<times> nat" where
  "lpEncodeIntegerGetType v =
     (if 0 \<le> v \<and> v \<le> 127 then ([word_of_int v], 1)
      else if - 4096 \<le> v \<and> v \<le> 4095 then
        let v = (if v < 0 then 2 ^ 13 + v else v)
        in ([word_of_int (drop_bit 8 v OR 0xC0), word_of_int (v AND 0xff)], 2)
      else if - 32768 \<le> v \<and> v \<le> 32767 then
        let v = (if v < 0 then 2 ^ 16 + v else v)
        in ([0xF1, word_of_int (v AND 0xff), word_of_int (drop_bit 8 v)], 3)
      else if - 8388608 \<le> v \<and> v \<le> 8388607 then
        let v = (if v < 0 then 2 ^ 24 + v else v)
        in ([0xF2, word_of_int (v AND 0xff), word_of_int (drop_bit 8 v AND 0xff),
             word_of_int (drop_bit 16 v)], 4)
      else if - 2147483648 \<le> v \<and> v \<le> 2147483647 then
        let v = (if v < 0 then 2 ^ 32 + v else v)
        in ([0xF3, word_of_int (v AND 0xff), word_of_int (drop_bit 8 v AND 0xff),
             word_of_int (drop_bit 16 v AND 0xff), word_of_int (drop_bit 24 v)], 5)
      else
        let uv = take_bit 64 v
        in ([0xF4, word_of_int (uv AND 0xff), word_of_int (drop_bit 8 uv AND 0xff),
             word_of_int (drop_bit 16 uv AND 0xff), word_of_int (drop_bit 24 uv AND 0xff),
             word_of_int (drop_bit 32 uv AND 0xff), word_of_int (drop_bit 40 uv AND 0xff),
             word_of_int (drop_bit 48 uv AND 0xff), word_of_int (drop_bit 56 uv)], 9))"

datatype lp_enctype = LP_ENCODING_INT | LP_ENCODING_STRING | LP_ENCODING_UNSET

definition lpEncodeGetType :: "byte list \<Rightarrow> nat \<Rightarrow> lp_enctype \<times> byte list \<times> nat" where
  "lpEncodeGetType ele size' =
     (case lpStringToInt64 (string_of_bytes (take size' ele)) of
        Some v \<Rightarrow> (let (intenc, enclen) = lpEncodeIntegerGetType v in (LP_ENCODING_INT, intenc, enclen))
      | None \<Rightarrow>
          (LP_ENCODING_STRING, [],
           if size' < 64 then 1 + size' else if size' < 4096 then 2 + size' else 5 + size'))"

definition lpEncodeString :: "byte list \<Rightarrow> nat \<Rightarrow> byte list \<Rightarrow> nat \<Rightarrow> byte list option" where
  "lpEncodeString m buf s len =
     (if len < 64 then do {
        m \<leftarrow> wr m buf (of_nat (len OR 0x80));
        bs \<leftarrow> slice s 0 len;
        copy_into m (buf + 1) bs }
      else if len < 4096 then do {
        m \<leftarrow> wr m buf (of_nat (drop_bit 8 len OR 0xE0));
        m \<leftarrow> wr m (buf + 1) (of_nat (len AND 0xff));
        bs \<leftarrow> slice s 0 len;
        copy_into m (buf + 2) bs }
      else do {
        m \<leftarrow> wr m buf 0xF0;
        m \<leftarrow> wr m (buf + 1) (of_nat (len AND 0xff));
        m \<leftarrow> wr m (buf + 2) (of_nat (drop_bit 8 len AND 0xff));
        m \<leftarrow> wr m (buf + 3) (of_nat (drop_bit 16 len AND 0xff));
        m \<leftarrow> wr m (buf + 4) (of_nat (drop_bit 24 len AND 0xff));
        bs \<leftarrow> slice s 0 len;
        copy_into m (buf + 5) bs })"

section \<open>Creation and editing\<close>

definition lpNew :: "allocator \<Rightarrow> nat \<Rightarrow> byte list option option" where
  "lpNew new capacity =
     (let capacity = (if LP_HEADER_SIZE + 1 < capacity then capacity else LP_HEADER_SIZE + 1)
      in case new capacity of
           None \<Rightarrow> Some None
         | Some array \<Rightarrow> do {
             array \<leftarrow> lpSetTotalBytes array (LP_HEADER_SIZE + 1);
             array \<leftarrow> lpSetNumElements array 0;
             array \<leftarrow> wr array LP_HEADER_SIZE LP_EOF;
             Some (Some array) })"

definition lpSafeToAdd :: "byte list option \<Rightarrow> nat \<Rightarrow> bool option" where
  "lpSafeToAdd lp add = do {
     size' \<leftarrow> (case lp of None \<Rightarrow> Some 0 | Some l \<Rightarrow> lpGetTotalBytes l);
     Some (\<not> LISTPACK_MAX_SAFETY_SIZE < (size' + add) mod 18446744073709551616) }"

datatype lp_where = LP_BEFORE | LP_AFTER | LP_REPLACE

text \<open>
  The reallocation steps of \<open>lpInsert\<close>: a block of the new size that starts with the
  first \<open>n\<close> bytes of the old one. The inner \<open>None\<close> is the null pointer of a failed
  allocation, on which \<open>lpInsert\<close> returns \<open>nullptr\<close>.
\<close>

definition lpRealloc :: "allocator \<Rightarrow> byte list \<Rightarrow> nat \<Rightarrow> nat \<Rightarrow> byte list option option" where
  "lpRealloc new lp new_bytes n =
     (case new new_bytes of
        None \<Rightarrow> Some None
      | Some new_lp \<Rightarrow> do {
          bs \<leftarrow> slice lp 0 n; new_lp \<leftarrow> copy_into new_lp 0 bs; Some (Some new_lp) })"

text \<open>Writing the element and its back length, and the two header fields.\<close>

definition lpInsert_write ::
  "byte list \<Rightarrow> nat \<Rightarrow> lp_enctype \<Rightarrow> byte list option \<Rightarrow> byte list option \<Rightarrow> nat \<Rightarrow> nat \<Rightarrow>
     byte list \<Rightarrow> nat \<Rightarrow> byte list option" where
  "lpInsert_write lp dst enctype elestr eleint size' enclen backlen backlen_size = do {
     lp \<leftarrow> (if enctype = LP_ENCODING_INT then
              (case eleint of None \<Rightarrow> None
               | Some e \<Rightarrow> do { bs \<leftarrow> slice e 0 enclen; copy_into lp dst bs })
            else (case elestr of Some s \<Rightarrow> lpEncodeString lp dst s size' | None \<Rightarrow> None));
     bs \<leftarrow> slice backlen 0 backlen_size;
     copy_into lp (dst + enclen) bs }"

definition lpInsert_header :: "byte list \<Rightarrow> bool \<Rightarrow> lp_where \<Rightarrow> nat \<Rightarrow> byte list option" where
  "lpInsert_header lp isDeleteOperation where' new_listpack_bytes = do {
     lp \<leftarrow> (if where' \<noteq> LP_REPLACE \<or> isDeleteOperation then do {
              num_elements \<leftarrow> lpGetTotalNumElements lp;
              if num_elements \<noteq> LP_HDR_NUMELE_UNKNOWN then
                (if \<not> isDeleteOperation then lpSetNumElements lp (num_elements + 1)
                 else lpSetNumElements lp ((num_elements + 4294967295) mod 4294967296))
              else Some lp }
            else Some lp);
     lpSetTotalBytes lp new_listpack_bytes }"

text \<open>
  \<open>lpInsert\<close>: the new listpack and \<open>*newp\<close>, or \<open>None\<close> inside \<open>Some\<close> where the code
  returns a null pointer.
\<close>

definition lpInsert ::
  "allocator \<Rightarrow> byte list \<Rightarrow> byte list option \<Rightarrow> byte list option \<Rightarrow> nat \<Rightarrow> nat \<Rightarrow> lp_where \<Rightarrow>
     (byte list \<times> nat option) option option" where
  "lpInsert new lp elestr eleint size' p where' = do {
     let isDeleteOperation = (elestr = None \<and> eleint = None);
     let where' = (if isDeleteOperation then LP_REPLACE else where');
     (p, where') \<leftarrow>
       (if where' = LP_AFTER then do {
          q \<leftarrow> lpSkip lp p; ASSERT_INTEGRITY lp q; Some (q, LP_BEFORE) }
        else Some (p, where'));
     let poff = p;
     let (enctype, eleint, enclen) =
       (case elestr of
          Some s \<Rightarrow> (let (t, intenc, n) = lpEncodeGetType s size'
                     in (t, (if t = LP_ENCODING_INT then Some intenc else eleint), n))
        | None \<Rightarrow> (case eleint of
            Some e \<Rightarrow> (LP_ENCODING_INT, Some e, size')
          | None \<Rightarrow> (LP_ENCODING_UNSET, None, 0)));
     let (backlen, backlen_size) = (if \<not> isDeleteOperation then lpEncodeBacklen enclen else ([], 0));
     old_listpack_bytes \<leftarrow> lpGetTotalBytes lp;
     replaced_len \<leftarrow>
       (if where' = LP_REPLACE then do {
          n \<leftarrow> lpCurrentEncodedSizeUnsafe lp p;
          let r = (n + lpEncodeBacklenBytes n) mod 4294967296;
          ASSERT_INTEGRITY_LEN lp p r;
          Some r }
        else Some 0);
     let new_listpack_bytes = sub64 (old_listpack_bytes + enclen + backlen_size) replaced_len;
     if UINT32_MAX < new_listpack_bytes then Some None
     else do {
       lp1 \<leftarrow> (if old_listpack_bytes < new_listpack_bytes
               then lpRealloc new lp new_listpack_bytes old_listpack_bytes else Some (Some lp));
       (case lp1 of
          None \<Rightarrow> Some None
        | Some lp1 \<Rightarrow> do {
            lp2 \<leftarrow> (if where' = LP_BEFORE
                    then memmove lp1 (poff + enclen + backlen_size) poff
                           (sub64 old_listpack_bytes poff)
                    else memmove lp1 (poff + enclen + backlen_size) (poff + replaced_len)
                           (sub64 (sub64 old_listpack_bytes poff) replaced_len));
            lp3 \<leftarrow> (if new_listpack_bytes < old_listpack_bytes
                    then lpRealloc new lp2 new_listpack_bytes new_listpack_bytes
                    else Some (Some lp2));
            (case lp3 of
               None \<Rightarrow> Some None
             | Some lp3 \<Rightarrow> do {
                 d \<leftarrow> rd lp3 poff;
                 let newp = (if isDeleteOperation \<and> d = LP_EOF then None else Some poff);
                 lp4 \<leftarrow> (if \<not> isDeleteOperation
                         then lpInsert_write lp3 poff enctype elestr eleint size' enclen
                                backlen backlen_size
                         else Some lp3);
                 lp5 \<leftarrow> lpInsert_header lp4 isDeleteOperation where' new_listpack_bytes;
                 Some (Some (lp5, newp)) }) }) } }"

definition lpInsertString ::
  "allocator \<Rightarrow> byte list \<Rightarrow> byte list \<Rightarrow> nat \<Rightarrow> nat \<Rightarrow> lp_where \<Rightarrow>
     (byte list \<times> nat option) option option" where
  "lpInsertString new lp s slen p where' = lpInsert new lp (Some s) None slen p where'"

definition lpInsertInteger ::
  "allocator \<Rightarrow> byte list \<Rightarrow> int \<Rightarrow> nat \<Rightarrow> lp_where \<Rightarrow> (byte list \<times> nat option) option option" where
  "lpInsertInteger new lp lval p where' =
     (let (intenc, enclen) = lpEncodeIntegerGetType lval
      in lpInsert new lp None (Some intenc) enclen p where')"

text \<open>Callers that pass \<open>NULL\<close> for \<open>newp\<close> keep the listpack only.\<close>

abbreviation lp_only :: "(byte list \<times> nat option) option option \<Rightarrow> byte list option option" where
  "lp_only r \<equiv> map_option (map_option fst) r"

definition lpAppend :: "allocator \<Rightarrow> byte list \<Rightarrow> byte list \<Rightarrow> nat \<Rightarrow> byte list option option" where
  "lpAppend new lp ele size' = do {
     listpack_bytes \<leftarrow> lpGetTotalBytes lp;
     if listpack_bytes = 0 then None
     else lp_only (lpInsert new lp (Some ele) None size' (listpack_bytes - 1) LP_BEFORE) }"

definition lpAppendInteger :: "allocator \<Rightarrow> byte list \<Rightarrow> int \<Rightarrow> byte list option option" where
  "lpAppendInteger new lp lval = do {
     listpack_bytes \<leftarrow> lpGetTotalBytes lp;
     if listpack_bytes = 0 then None
     else lp_only (lpInsertInteger new lp lval (listpack_bytes - 1) LP_BEFORE) }"

definition lpPrepend :: "allocator \<Rightarrow> byte list \<Rightarrow> byte list \<Rightarrow> nat \<Rightarrow> byte list option option" where
  "lpPrepend new lp s slen = do {
     p \<leftarrow> lpFirst lp;
     (case p of
        None \<Rightarrow> lpAppend new lp s slen
      | Some p \<Rightarrow> lp_only (lpInsert new lp (Some s) None slen p LP_BEFORE)) }"

definition lpDelete :: "allocator \<Rightarrow> byte list \<Rightarrow> nat \<Rightarrow> (byte list \<times> nat option) option option" where
  "lpDelete new lp p = lpInsert new lp None None 0 p LP_REPLACE"

section \<open>Loops over the whole listpack\<close>

lemma lpSkip_greater: "lpSkip m p = Some q \<Longrightarrow> p < q"
  by (auto simp: lpSkip_def lpEncodeBacklenBytes_def Option.bind_eq_Some_conv split: if_splits)

lemma lpNext_progress: "lpNext lp (Some p) = Some (Some q) \<Longrightarrow> p < q \<and> q < length lp"
  by (auto simp: lpNext_def rd_Some_iff Option.bind_eq_Some_conv dest: lpSkip_greater
      split: if_splits)

lemma lpValidateNext_progress:
  assumes "lpValidateNext lp n (Some p) = Some (ok, Some q)" and "ok"
  shows "p < q \<and> p < length lp"
proof -
  have "0 < lpEncodeBacklenBytes k" for k by (simp add: lpEncodeBacklenBytes_def)
  with assms show ?thesis
    by (auto simp: lpValidateNext_def rd_Some_iff Let_def Option.bind_eq_Some_conv
        split: if_splits)
qed

function lpLength_loop :: "byte list \<Rightarrow> nat option \<Rightarrow> nat \<Rightarrow> nat option" where
  "lpLength_loop lp p count =
     (case p of
        None \<Rightarrow> Some count
      | Some _ \<Rightarrow>
          (case lpNext lp p of
             None \<Rightarrow> None
           | Some p' \<Rightarrow> lpLength_loop lp p' (count + 1)))"
  by pat_completeness auto
termination
proof (relation "measure (\<lambda>(lp, p, count). case p of None \<Rightarrow> 0 | Some q \<Rightarrow> 1 + (length lp - q))")
  fix lp p count q p'
  assume "p = Some q" "lpNext lp p = Some p'"
  then show "((lp, p', count + 1), lp, p, count) \<in> measure
    (\<lambda>(lp, p, count). case p of None \<Rightarrow> 0 | Some q \<Rightarrow> 1 + (length lp - q))"
    by (cases p') (auto dest: lpNext_progress)
qed simp

declare lpLength_loop.simps [simp del]

text \<open>\<open>lpLength\<close> stores the count it had to compute back into the header.\<close>

definition lpLength :: "byte list \<Rightarrow> (nat \<times> byte list) option" where
  "lpLength lp = do {
     num_element \<leftarrow> lpGetTotalNumElements lp;
     if num_element \<noteq> LP_HDR_NUMELE_UNKNOWN then Some (num_element, lp)
     else do {
       p \<leftarrow> lpFirst lp;
       count \<leftarrow> lpLength_loop lp p 0;
       lp' \<leftarrow> (if count < LP_HDR_NUMELE_UNKNOWN then lpSetNumElements lp count else Some lp);
       Some (count, lp') } }"

text \<open>The loop of \<open>lpValidateIntegrity\<close>: \<open>None\<close> inside \<open>Some\<close> where it returns \<open>false\<close>.\<close>

function lpValidateIntegrity_loop ::
  "byte list \<Rightarrow> nat \<Rightarrow> nat option \<Rightarrow> nat \<Rightarrow> (nat option \<times> nat) option option" where
  "lpValidateIntegrity_loop lp totalbytes p count =
     (case p of
        None \<Rightarrow> Some (Some (p, count))
      | Some q \<Rightarrow>
          (case rd lp q of
             None \<Rightarrow> None
           | Some b \<Rightarrow>
               if b = LP_EOF then Some (Some (p, count))
               else (case lpValidateNext lp totalbytes p of
                   None \<Rightarrow> None
                 | Some (ok, p') \<Rightarrow>
                     if \<not> ok then Some None
                     else lpValidateIntegrity_loop lp totalbytes p' (count + 1))))"
  by pat_completeness auto
termination
proof (relation "measure (\<lambda>(lp, n, p, count). case p of None \<Rightarrow> 0 | Some q \<Rightarrow> 1 + (length lp - q))",
    goal_cases)
  case (2 lp totalbytes p count q b x ok p')
  then show ?case by (cases p') (auto dest: lpValidateNext_progress)
qed simp

declare lpValidateIntegrity_loop.simps [simp del]

definition lpValidateIntegrity :: "byte list option \<Rightarrow> nat \<Rightarrow> bool \<Rightarrow> bool option" where
  "lpValidateIntegrity lpp size' deep =
     (case lpp of
        None \<Rightarrow> Some False
      | Some lp \<Rightarrow>
          if size' < LP_HEADER_SIZE + 1 then Some False
          else do {
            totalbytes \<leftarrow> lpGetTotalBytes lp;
            if totalbytes \<noteq> size' then Some False
            else do {
              b \<leftarrow> rd lp (size' - 1);
              if b \<noteq> LP_EOF then Some False
              else if \<not> deep then Some True
              else do {
                numelement \<leftarrow> lpGetTotalNumElements lp;
                r \<leftarrow> lpValidateIntegrity_loop lp totalbytes (Some LP_HEADER_SIZE) 0;
                (case r of
                   None \<Rightarrow> Some False
                 | Some (p, count) \<Rightarrow>
                     if p \<noteq> Some (size' - 1) then Some False
                     else Some (numelement = LP_HDR_NUMELE_UNKNOWN \<or> numelement = count)) } } })"

end
