(* ===== verification/Listpack_Codec.thy ===== *)
theory Listpack_Codec
  imports Listpack
begin

text \<open>
  The entry codec of the listpack. An abstract entry is an integer or a byte string;
  \<open>entry_bytes\<close> is its encoding with its back length. The lemmas show that the decoders of
  \<open>listpack.cpp\<close>, run at the first byte of an encoded entry anywhere in a buffer, recover
  its size, its value and, from its last byte, its back length; and that a string stored
  as an integer prints back to the same string.
\<close>

section \<open>Entries and their bytes\<close>

datatype lp_entry = EInt int | EStr "byte list"

definition str_header :: "nat \<Rightarrow> byte list" where
  "str_header len =
     (if len < 64 then [of_nat (len OR 0x80)]
      else if len < 4096 then [of_nat (drop_bit 8 len OR 0xE0), of_nat (len AND 0xff)]
      else [0xF0, of_nat (len AND 0xff), of_nat (drop_bit 8 len AND 0xff),
            of_nat (drop_bit 16 len AND 0xff), of_nat (drop_bit 24 len AND 0xff)])"

fun payload :: "lp_entry \<Rightarrow> byte list" where
  "payload (EInt v) = fst (lpEncodeIntegerGetType v)"
| "payload (EStr s) = str_header (length s) @ s"

definition backlen_bytes :: "nat \<Rightarrow> byte list" where
  "backlen_bytes n = fst (lpEncodeBacklen n)"

definition entry_bytes :: "lp_entry \<Rightarrow> byte list" where
  "entry_bytes e = payload e @ backlen_bytes (length (payload e))"

fun valid_entry :: "lp_entry \<Rightarrow> bool" where
  "valid_entry (EInt v) = int64_range v"
| "valid_entry (EStr s) = (length s + 5 < 4294967296)"

text \<open>An entry whose first byte \<open>lpCurrentEncodedSizeBytes\<close> knows.\<close>

fun narrow_entry :: "lp_entry \<Rightarrow> bool" where
  "narrow_entry (EInt v) = (- 2147483648 \<le> v \<and> v \<le> 2147483647)"
| "narrow_entry (EStr s) = True"

text \<open>The entry a pushed string becomes, and the string an entry is read back as.\<close>

definition entry_of_string :: "string \<Rightarrow> lp_entry" where
  "entry_of_string s =
     (case lpStringToInt64 s of Some v \<Rightarrow> EInt v | None \<Rightarrow> EStr (bytes_of_string s))"

fun string_of_entry :: "lp_entry \<Rightarrow> string" where
  "string_of_entry (EInt v) = int_to_string v"
| "string_of_entry (EStr s) = string_of_bytes s"

section \<open>Bits of bytes\<close>

lemma and_0xff: "(v::int) AND 255 = take_bit 8 v" "(n::nat) AND 255 = take_bit 8 n"
  by (simp_all add: take_bit_eq_mask mask_eq_exp_minus_1)

lemma and_127_nat: "(v::nat) AND 127 = take_bit 7 v"
  by (simp add: take_bit_eq_mask mask_eq_exp_minus_1)

lemma byte_255: "(255::byte) = - 1"
  by simp

lemma and_0xff_byte: "0xFF AND (b::byte) = b" "(b::byte) AND 0xFF = b"
  unfolding byte_255 by simp_all

text \<open>Little-endian reassembly, one byte at a time and for the widths of the encodings.\<close>

lemma le_step:
  fixes v :: int
  shows "take_bit 8 v OR push_bit 8 (take_bit 8 (drop_bit 8 v)) = take_bit 16 v"
    and "take_bit 16 v OR push_bit 16 (take_bit 8 (drop_bit 16 v)) = take_bit 24 v"
    and "take_bit 24 v OR push_bit 24 (take_bit 8 (drop_bit 24 v)) = take_bit 32 v"
    and "take_bit 32 v OR push_bit 32 (take_bit 8 (drop_bit 32 v)) = take_bit 40 v"
    and "take_bit 40 v OR push_bit 40 (take_bit 8 (drop_bit 40 v)) = take_bit 48 v"
    and "take_bit 48 v OR push_bit 48 (take_bit 8 (drop_bit 48 v)) = take_bit 56 v"
    and "take_bit 56 v OR push_bit 56 (take_bit 8 (drop_bit 56 v)) = take_bit 64 v"
  using take_bit_split [of 8 v 8] take_bit_split [of 16 v 8] take_bit_split [of 24 v 8]
    take_bit_split [of 32 v 8] take_bit_split [of 40 v 8] take_bit_split [of 48 v 8]
    take_bit_split [of 56 v 8]
  by simp_all

lemma le_join24:
  fixes v :: int
  shows "take_bit 8 v OR push_bit 8 (take_bit 8 (drop_bit 8 v)) OR
    push_bit 16 (take_bit 8 (drop_bit 16 v)) = take_bit 24 v"
  by (simp only: or.assoc [symmetric] le_step)

lemma le_join32:
  fixes v :: int
  shows "take_bit 8 v OR push_bit 8 (take_bit 8 (drop_bit 8 v)) OR
    push_bit 16 (take_bit 8 (drop_bit 16 v)) OR push_bit 24 (take_bit 8 (drop_bit 24 v)) =
    take_bit 32 v"
  by (simp only: or.assoc [symmetric] le_step)

lemma le_join64:
  fixes v :: int
  shows "take_bit 8 v OR push_bit 8 (take_bit 8 (drop_bit 8 v)) OR
    push_bit 16 (take_bit 8 (drop_bit 16 v)) OR push_bit 24 (take_bit 8 (drop_bit 24 v)) OR
    push_bit 32 (take_bit 8 (drop_bit 32 v)) OR push_bit 40 (take_bit 8 (drop_bit 40 v)) OR
    push_bit 48 (take_bit 8 (drop_bit 48 v)) OR push_bit 56 (take_bit 8 (drop_bit 56 v)) =
    take_bit 64 v"
  by (simp only: or.assoc [symmetric] le_step)

lemma le_step_nat:
  fixes v :: nat
  shows "take_bit 8 v OR push_bit 8 (take_bit 8 (drop_bit 8 v)) = take_bit 16 v"
    and "take_bit 16 v OR push_bit 16 (take_bit 8 (drop_bit 16 v)) = take_bit 24 v"
    and "take_bit 24 v OR push_bit 24 (take_bit 8 (drop_bit 24 v)) = take_bit 32 v"
  using take_bit_split_nat [of 8 v 8] take_bit_split_nat [of 16 v 8] take_bit_split_nat [of 24 v 8]
  by simp_all

lemma le_join32_nat:
  fixes v :: nat
  shows "take_bit 8 v OR push_bit 8 (take_bit 8 (drop_bit 8 v)) OR
    push_bit 16 (take_bit 8 (drop_bit 16 v)) OR push_bit 24 (take_bit 8 (drop_bit 24 v)) =
    take_bit 32 v"
  by (simp only: or.assoc [symmetric] le_step_nat)

text \<open>The bytes of a back length: seven bits each, the top bit set on all but the first.\<close>

lemma backlen_cont:
  assumes "k < 128"
  shows "(of_nat (k OR 128) :: byte) AND 128 \<noteq> 0 \<and> unat ((of_nat (k OR 128) :: byte) AND 127) = k"
proof -
  have "\<forall>k \<in> set [0..<128]. (of_nat (k OR 128) :: byte) AND 128 \<noteq> 0 \<and>
      unat ((of_nat (k OR 128) :: byte) AND 127) = k"
    by code_simp
  with assms show ?thesis by auto
qed

lemma backlen_stop:
  assumes "k < 128"
  shows "(of_nat k :: byte) AND 128 = 0 \<and> unat ((of_nat k :: byte) AND 127) = k"
proof -
  have "\<forall>k \<in> set [0..<128]. (of_nat k :: byte) AND 128 = 0 \<and> unat ((of_nat k :: byte) AND 127) = k"
    by code_simp
  with assms show ?thesis by auto
qed

section \<open>First bytes\<close>

lemmas lp_encoding_tests = LP_ENCODING_IS_7_BIT_UINT_def LP_ENCODING_IS_13_BIT_INT_def
  LP_ENCODING_IS_16_BIT_INT_def LP_ENCODING_IS_24_BIT_INT_def LP_ENCODING_IS_32_BIT_INT_def
  LP_ENCODING_IS_64_BIT_INT_def LP_ENCODING_IS_6_BIT_STR_def LP_ENCODING_IS_12_BIT_STR_def
  LP_ENCODING_IS_32_BIT_STR_def

lemmas lp_str_lens = LP_ENCODING_6_BIT_STR_LEN_def LP_ENCODING_12_BIT_STR_LEN_def
  LP_ENCODING_32_BIT_STR_LEN_def

lemma first_byte_7bit:
  assumes "0 \<le> k" "k < 128"
  shows "0x80 AND (word_of_int k :: byte) = 0" "uint ((word_of_int k :: byte) AND 0x7f) = k"
    "(word_of_int k :: byte) \<noteq> LP_EOF"
proof -
  have "\<forall>k \<in> set [0..127]. 0x80 AND (word_of_int k :: byte) = 0 \<and>
      uint ((word_of_int k :: byte) AND 0x7f) = k \<and> (word_of_int k :: byte) \<noteq> LP_EOF"
    by code_simp
  with assms show "0x80 AND (word_of_int k :: byte) = 0"
    "uint ((word_of_int k :: byte) AND 0x7f) = k" "(word_of_int k :: byte) \<noteq> LP_EOF"
    by auto
qed

lemma first_byte_13bit:
  fixes k :: int
  assumes "0 \<le> k" "k < 32"
  shows "0xE0 AND (word_of_int (k OR 0xC0) :: byte) = 0xC0"
    "0x80 AND (word_of_int (k OR 0xC0) :: byte) \<noteq> 0"
    "0xC0 AND (word_of_int (k OR 0xC0) :: byte) \<noteq> 0x80"
    "uint ((word_of_int (k OR 0xC0) :: byte) AND 0x1f) = k"
    "(word_of_int (k OR 0xC0) :: byte) \<noteq> LP_EOF"
proof -
  have "\<forall>k \<in> set [0..31]. 0xE0 AND (word_of_int (k OR 0xC0) :: byte) = 0xC0 \<and>
      0x80 AND (word_of_int (k OR 0xC0) :: byte) \<noteq> 0 \<and>
      0xC0 AND (word_of_int (k OR 0xC0) :: byte) \<noteq> 0x80 \<and>
      uint ((word_of_int (k OR 0xC0) :: byte) AND 0x1f) = k \<and>
      (word_of_int (k OR 0xC0) :: byte) \<noteq> LP_EOF"
    by code_simp
  with assms show "0xE0 AND (word_of_int (k OR 0xC0) :: byte) = 0xC0"
    "0x80 AND (word_of_int (k OR 0xC0) :: byte) \<noteq> 0"
    "0xC0 AND (word_of_int (k OR 0xC0) :: byte) \<noteq> 0x80"
    "uint ((word_of_int (k OR 0xC0) :: byte) AND 0x1f) = k"
    "(word_of_int (k OR 0xC0) :: byte) \<noteq> LP_EOF"
    by auto
qed

lemma first_byte_6str:
  fixes k :: nat
  assumes "k < 64"
  shows "0xC0 AND (of_nat (k OR 0x80) :: byte) = 0x80"
    "0x80 AND (of_nat (k OR 0x80) :: byte) \<noteq> 0"
    "0xE0 AND (of_nat (k OR 0x80) :: byte) \<noteq> 0xC0"
    "(of_nat (k OR 0x80) :: byte) \<notin> {0xF0, 0xF1, 0xF2, 0xF3, 0xF4, LP_EOF}"
    "unat ((of_nat (k OR 0x80) :: byte) AND 0x3F) = k"
proof -
  have "\<forall>k \<in> set [0..<64]. 0xC0 AND (of_nat (k OR 0x80) :: byte) = 0x80 \<and>
      0x80 AND (of_nat (k OR 0x80) :: byte) \<noteq> 0 \<and>
      0xE0 AND (of_nat (k OR 0x80) :: byte) \<noteq> 0xC0 \<and>
      (of_nat (k OR 0x80) :: byte) \<notin> set [0xF0, 0xF1, 0xF2, 0xF3, 0xF4, LP_EOF] \<and>
      unat ((of_nat (k OR 0x80) :: byte) AND 0x3F) = k"
    by code_simp
  with assms show "0xC0 AND (of_nat (k OR 0x80) :: byte) = 0x80"
    "0x80 AND (of_nat (k OR 0x80) :: byte) \<noteq> 0"
    "0xE0 AND (of_nat (k OR 0x80) :: byte) \<noteq> 0xC0"
    "(of_nat (k OR 0x80) :: byte) \<notin> {0xF0, 0xF1, 0xF2, 0xF3, 0xF4, LP_EOF}"
    "unat ((of_nat (k OR 0x80) :: byte) AND 0x3F) = k"
    by auto
qed

lemma first_byte_12str:
  fixes k :: nat
  assumes "k < 16"
  shows "0xF0 AND (of_nat (k OR 0xE0) :: byte) = 0xE0"
    "0x80 AND (of_nat (k OR 0xE0) :: byte) \<noteq> 0"
    "0xE0 AND (of_nat (k OR 0xE0) :: byte) \<noteq> 0xC0"
    "0xC0 AND (of_nat (k OR 0xE0) :: byte) \<noteq> 0x80"
    "(of_nat (k OR 0xE0) :: byte) \<notin> {0xF0, 0xF1, 0xF2, 0xF3, 0xF4, LP_EOF}"
    "unat ((of_nat (k OR 0xE0) :: byte) AND 0xF) = k"
proof -
  have "\<forall>k \<in> set [0..<16]. 0xF0 AND (of_nat (k OR 0xE0) :: byte) = 0xE0 \<and>
      0x80 AND (of_nat (k OR 0xE0) :: byte) \<noteq> 0 \<and>
      0xE0 AND (of_nat (k OR 0xE0) :: byte) \<noteq> 0xC0 \<and>
      0xC0 AND (of_nat (k OR 0xE0) :: byte) \<noteq> 0x80 \<and>
      (of_nat (k OR 0xE0) :: byte) \<notin> set [0xF0, 0xF1, 0xF2, 0xF3, 0xF4, LP_EOF] \<and>
      unat ((of_nat (k OR 0xE0) :: byte) AND 0xF) = k"
    by code_simp
  with assms show "0xF0 AND (of_nat (k OR 0xE0) :: byte) = 0xE0"
    "0x80 AND (of_nat (k OR 0xE0) :: byte) \<noteq> 0"
    "0xE0 AND (of_nat (k OR 0xE0) :: byte) \<noteq> 0xC0"
    "0xC0 AND (of_nat (k OR 0xE0) :: byte) \<noteq> 0x80"
    "(of_nat (k OR 0xE0) :: byte) \<notin> {0xF0, 0xF1, 0xF2, 0xF3, 0xF4, LP_EOF}"
    "unat ((of_nat (k OR 0xE0) :: byte) AND 0xF) = k"
    by auto
qed

section \<open>The shapes of an encoded entry\<close>

lemma mod_two64:
  assumes "int64_range v"
  shows "take_bit 64 v = (if v < 0 then 18446744073709551616 + v else v)"
proof (cases "v < 0")
  case True
  have "take_bit 64 v = v mod 18446744073709551616" by (simp add: take_bit_eq_mod)
  also have "\<dots> = (18446744073709551616 + v) mod 18446744073709551616" by simp
  also have "\<dots> = 18446744073709551616 + v"
    using True assms by (intro mod_pos_pos_trivial) (auto simp: int64_range_def)
  finally show ?thesis using True by simp
next
  case False
  with assms show ?thesis by (simp add: take_bit_int_eq_self_iff int64_range_def)
qed

lemma int_payload_cases [consumes 1, case_names I7 I13 I16 I24 I32 I64]:
  assumes "int64_range v"
  obtains (I7) "0 \<le> v" "v < 128" "payload (EInt v) = [word_of_int v]" "narrow_entry (EInt v)"
  | (I13) w where "0 \<le> w" "w < 8192" "lp_signed w 4096 8191 = v" "narrow_entry (EInt v)"
      "payload (EInt v) = [word_of_int (drop_bit 8 w OR 0xC0), word_of_int (take_bit 8 w)]"
  | (I16) w where "take_bit 16 w = w" "lp_signed w 32768 65535 = v" "narrow_entry (EInt v)"
      "payload (EInt v) = [0xF1, word_of_int (take_bit 8 w), word_of_int (drop_bit 8 w)]"
  | (I24) w where "take_bit 24 w = w" "lp_signed w 8388608 16777215 = v" "narrow_entry (EInt v)"
      "payload (EInt v) = [0xF2, word_of_int (take_bit 8 w), word_of_int (take_bit 8 (drop_bit 8 w)),
         word_of_int (drop_bit 16 w)]"
  | (I32) w where "take_bit 32 w = w" "lp_signed w 2147483648 4294967295 = v" "narrow_entry (EInt v)"
      "payload (EInt v) = [0xF3, word_of_int (take_bit 8 w), word_of_int (take_bit 8 (drop_bit 8 w)),
         word_of_int (take_bit 8 (drop_bit 16 w)), word_of_int (drop_bit 24 w)]"
  | (I64) w where "take_bit 64 w = w" "lp_signed w 9223372036854775808 18446744073709551615 = v"
      "\<not> narrow_entry (EInt v)"
      "payload (EInt v) = [0xF4, word_of_int (take_bit 8 w), word_of_int (take_bit 8 (drop_bit 8 w)),
         word_of_int (take_bit 8 (drop_bit 16 w)), word_of_int (take_bit 8 (drop_bit 24 w)),
         word_of_int (take_bit 8 (drop_bit 32 w)), word_of_int (take_bit 8 (drop_bit 40 w)),
         word_of_int (take_bit 8 (drop_bit 48 w)), word_of_int (drop_bit 56 w)]"
proof -
  let ?w = "\<lambda>n. if v < 0 then 2 ^ n + v else v"
  consider (a) "0 \<le> v \<and> v \<le> 127"
    | (b) "\<not> (0 \<le> v \<and> v \<le> 127)" "- 4096 \<le> v \<and> v \<le> 4095"
    | (c) "\<not> (- 4096 \<le> v \<and> v \<le> 4095)" "- 32768 \<le> v \<and> v \<le> 32767"
    | (d) "\<not> (- 32768 \<le> v \<and> v \<le> 32767)" "- 8388608 \<le> v \<and> v \<le> 8388607"
    | (e) "\<not> (- 8388608 \<le> v \<and> v \<le> 8388607)" "- 2147483648 \<le> v \<and> v \<le> 2147483647"
    | (f) "\<not> (- 2147483648 \<le> v \<and> v \<le> 2147483647)"
    by linarith
  then show thesis
  proof cases
    case a
    with I7 show ?thesis by (simp add: lpEncodeIntegerGetType_def)
  next
    case b
    then show ?thesis
      by (intro I13 [of "?w 13"]) (auto simp: lpEncodeIntegerGetType_def lp_signed_def and_0xff Let_def)
  next
    case c
    then show ?thesis
      by (intro I16 [of "?w 16"])
        (auto simp: lpEncodeIntegerGetType_def lp_signed_def and_0xff Let_def take_bit_int_eq_self_iff)
  next
    case d
    then show ?thesis
      by (intro I24 [of "?w 24"])
        (auto simp: lpEncodeIntegerGetType_def lp_signed_def and_0xff Let_def take_bit_int_eq_self_iff)
  next
    case e
    then show ?thesis
      by (intro I32 [of "?w 32"])
        (auto simp: lpEncodeIntegerGetType_def lp_signed_def and_0xff Let_def take_bit_int_eq_self_iff)
  next
    case f
    have "lp_signed (take_bit 64 v) 9223372036854775808 18446744073709551615 = v"
      using assms f by (auto simp: mod_two64 lp_signed_def int64_range_def)
    with f show ?thesis
      by (intro I64 [of "take_bit 64 v"])
        (auto simp: lpEncodeIntegerGetType_def and_0xff Let_def)
  qed
qed

lemma lpEncodeIntegerGetType_len: "snd (lpEncodeIntegerGetType v) = length (fst (lpEncodeIntegerGetType v))"
  by (simp add: lpEncodeIntegerGetType_def Let_def)

lemma str_payload_cases [case_names S6 S12 S32]:
  obtains (S6) "length s < 64" "payload (EStr s) = of_nat (length s OR 0x80) # s"
  | (S12) "64 \<le> length s" "length s < 4096"
      "payload (EStr s) = of_nat (drop_bit 8 (length s) OR 0xE0) # of_nat (take_bit 8 (length s)) # s"
  | (S32) "4096 \<le> length s"
      "payload (EStr s) = 0xF0 # of_nat (take_bit 8 (length s)) #
         of_nat (take_bit 8 (drop_bit 8 (length s))) # of_nat (take_bit 8 (drop_bit 16 (length s))) #
         of_nat (take_bit 8 (drop_bit 24 (length s))) # s"
  by (cases "length s < 64"; cases "length s < 4096") (auto simp: str_header_def and_0xff)

lemma unat_byte_take_bit [simp]: "unat (of_nat (take_bit 8 n) :: byte) = take_bit 8 n"
  by (simp add: unat_of_nat take_bit_eq_mod)

section \<open>Decoding the first byte of an entry\<close>

lemma drop_bit_8_13: "0 \<le> w \<Longrightarrow> w < 8192 \<Longrightarrow> 0 \<le> drop_bit 8 w \<and> drop_bit 8 (w::int) < 32"
  by (auto simp: drop_bit_eq_div)

lemma drop_bit_8_12: "(n::nat) < 4096 \<Longrightarrow> drop_bit 8 n < 16"
  by (auto simp: drop_bit_eq_div)

lemma join_12: "(n::nat) < 4096 \<Longrightarrow> push_bit 8 (drop_bit 8 n) OR take_bit 8 n = n"
  by (rule bit_eqI) (auto simp: bit_simps)

lemma join_13: "push_bit 8 (drop_bit 8 w) OR take_bit 8 w = (w::int)"
  by (rule bit_eqI) (auto simp: bit_simps)

lemma size_unsafe_at:
  assumes "valid_entry e"
  shows "lpCurrentEncodedSizeUnsafe (pre @ payload e @ post) (length pre) = Some (length (payload e))"
proof (cases e)
  case (EInt v)
  with assms have "int64_range v" by simp
  then show ?thesis
    unfolding EInt
    by (cases v rule: int_payload_cases)
      (auto simp del: payload.simps simp: lpCurrentEncodedSizeUnsafe_def lp_encoding_tests and_0xff_byte
        first_byte_7bit first_byte_13bit drop_bit_8_13)
next
  case (EStr s)
  show ?thesis
  proof (cases s rule: str_payload_cases)
    case S6
    with first_byte_6str [of "length s"] show ?thesis
      by (auto simp del: payload.simps simp: EStr lpCurrentEncodedSizeUnsafe_def lp_encoding_tests
          and_0xff_byte lp_str_lens)
  next
    case S12
    with first_byte_12str [of "drop_bit 8 (length s)"] show ?thesis
      by (auto simp del: payload.simps simp: EStr lpCurrentEncodedSizeUnsafe_def lp_encoding_tests
          and_0xff_byte lp_str_lens drop_bit_8_12 join_12)
  next
    case S32
    moreover have "take_bit 32 (length s) = length s"
      using assms EStr by (simp add: take_bit_nat_eq_self_iff)
    ultimately show ?thesis using assms
      by (simp del: payload.simps take_bit_drop_bit add: EStr lpCurrentEncodedSizeUnsafe_def lp_encoding_tests
          lp_str_lens le_join32_nat)
  qed
qed

lemma payload_not_Nil [simp]: "payload e \<noteq> []"
proof (cases e)
  case (EInt v)
  then show ?thesis by (simp add: lpEncodeIntegerGetType_def Let_def)
next
  case (EStr s)
  then show ?thesis by (simp add: str_header_def)
qed

lemma payload_hd_not_EOF:
  assumes "valid_entry e"
  shows "rd (pre @ payload e @ post) (length pre) \<noteq> Some LP_EOF"
proof (cases e)
  case (EInt v)
  with assms have "int64_range v" by simp
  then show ?thesis
    unfolding EInt
    by (cases v rule: int_payload_cases)
      (auto simp del: payload.simps simp: first_byte_7bit first_byte_13bit drop_bit_8_13)
next
  case (EStr s)
  show ?thesis
    unfolding EStr
    by (cases s rule: str_payload_cases)
      (use first_byte_6str [of "length s"] first_byte_12str [of "drop_bit 8 (length s)"] in
        \<open>auto simp del: payload.simps simp: drop_bit_8_12\<close>)
qed

lemma size_bytes_at:
  assumes "valid_entry e" "narrow_entry e"
  shows "\<exists>n. lpCurrentEncodedSizeBytes (pre @ payload e @ post) (length pre) = Some n \<and> 0 < n \<and> n \<le> length (payload e)"
proof (cases e)
  case (EInt v)
  with assms have "int64_range v" by simp
  then show ?thesis
    unfolding EInt using assms(2) EInt
    by (cases v rule: int_payload_cases)
      (auto simp del: payload.simps simp: lpCurrentEncodedSizeBytes_def lp_encoding_tests and_0xff_byte
        first_byte_7bit first_byte_13bit drop_bit_8_13)
next
  case (EStr s)
  show ?thesis
    unfolding EStr
    by (cases s rule: str_payload_cases)
      (use first_byte_6str [of "length s"] first_byte_12str [of "drop_bit 8 (length s)"] in
        \<open>auto simp del: payload.simps simp: lpCurrentEncodedSizeBytes_def lp_encoding_tests
          and_0xff_byte drop_bit_8_12\<close>)
qed

lemma size_bytes_at_wide:
  assumes "int64_range v" "\<not> narrow_entry (EInt v)"
  shows "lpCurrentEncodedSizeBytes (pre @ payload (EInt v) @ post) (length pre) = Some 0"
  using assms
  by (cases v rule: int_payload_cases)
    (auto simp del: payload.simps simp: lpCurrentEncodedSizeBytes_def lp_encoding_tests and_0xff_byte)

lemma get_int_at:
  assumes "int64_range v"
  shows "\<exists>n. lpGetWithSize (pre @ payload (EInt v) @ post) (length pre) = Some (None, v, Some n)"
  using assms
proof (cases v rule: int_payload_cases)
  case I7
  then show ?thesis
    by (simp del: payload.simps add: lpGetWithSize_def lp_encoding_tests first_byte_7bit lp_signed_def)
next
  case (I13 w)
  then show ?thesis
    by (simp del: payload.simps add: lpGetWithSize_def lp_encoding_tests first_byte_13bit drop_bit_8_13 join_13)
next
  case (I16 w)
  then show ?thesis
    by (simp del: payload.simps take_bit_drop_bit add: lpGetWithSize_def lp_encoding_tests and_0xff_byte le_step)
next
  case (I24 w)
  then show ?thesis
    by (simp del: payload.simps take_bit_drop_bit add: lpGetWithSize_def lp_encoding_tests and_0xff_byte le_join24)
next
  case (I32 w)
  then show ?thesis
    by (simp del: payload.simps take_bit_drop_bit add: lpGetWithSize_def lp_encoding_tests and_0xff_byte le_join32)
next
  case (I64 w)
  then show ?thesis
    by (simp del: payload.simps take_bit_drop_bit add: lpGetWithSize_def lp_encoding_tests and_0xff_byte le_join64)
qed

lemma get_str_at:
  assumes "valid_entry (EStr s)"
  shows "\<exists>n. lpGetWithSize (pre @ payload (EStr s) @ post) (length pre) =
    Some (Some (length pre + length (str_header (length s))), int (length s), Some n)"
proof (cases s rule: str_payload_cases)
  case S6
  with first_byte_6str [of "length s"] show ?thesis
    by (auto simp del: payload.simps simp: lpGetWithSize_def lp_encoding_tests and_0xff_byte lp_str_lens str_header_def)
next
  case S12
  with first_byte_12str [of "drop_bit 8 (length s)"] show ?thesis
    by (auto simp del: payload.simps simp: lpGetWithSize_def lp_encoding_tests and_0xff_byte lp_str_lens str_header_def
      drop_bit_8_12 join_12)
next
  case S32
  moreover have "take_bit 32 (length s) = length s"
    using assms by (simp add: take_bit_nat_eq_self_iff)
  ultimately show ?thesis
    by (simp del: payload.simps take_bit_drop_bit add: lpGetWithSize_def lp_encoding_tests lp_str_lens le_join32_nat str_header_def)
qed

section \<open>Back lengths\<close>

lemma backlen_bytes_length [simp]: "length (backlen_bytes n) = lpEncodeBacklenBytes n"
  by (simp add: backlen_bytes_def lpEncodeBacklen_def lpEncodeBacklenBytes_def)

lemma lpEncodeBacklen_eq: "lpEncodeBacklen n = (backlen_bytes n, lpEncodeBacklenBytes n)"
  by (simp add: backlen_bytes_def lpEncodeBacklen_def lpEncodeBacklenBytes_def)

lemma lpEncodeBacklenBytes_bounds: "0 < lpEncodeBacklenBytes n \<and> lpEncodeBacklenBytes n \<le> 5"
  by (simp add: lpEncodeBacklenBytes_def)

text \<open>One step of the decoder at a continuation byte and at the last byte.\<close>

lemma decode_step_cont:
  assumes "k < 128" "rd m (Suc p) = Some (of_nat (k OR 128))" "shift + 7 \<le> 28"
  shows "lpDecodeBacklen_loop m (Suc p) shift value =
    lpDecodeBacklen_loop m p (shift + 7) (push_bit shift k OR value)"
  using backlen_cont [OF assms(1)] assms(2,3)
  by (subst lpDecodeBacklen_loop.simps) (simp add: Let_def)

lemma decode_step_stop:
  assumes "k < 128" "rd m p = Some (of_nat k)"
  shows "lpDecodeBacklen_loop m p shift value = Some (push_bit shift k OR value)"
  using backlen_stop [OF assms(1)] assms(2)
  by (subst lpDecodeBacklen_loop.simps) (simp add: Let_def)

lemma take_bit_7_less: "take_bit 7 (n::nat) < 128"
  using take_bit_nat_less_exp [of 7 n] by simp

text \<open>The value of seven-bit groups, least significant first, below a top group.\<close>

fun glue :: "nat \<Rightarrow> nat \<Rightarrow> nat list \<Rightarrow> nat" where
  "glue i t [] = push_bit i t"
| "glue i t (k # ks) = push_bit i k OR glue (i + 7) t ks"

lemma decode_groups:
  assumes "t < 128" "list_all (\<lambda>k. k < 128) ks" "i + 7 * length ks \<le> 28"
  shows "lpDecodeBacklen_loop (pre @ of_nat t # map (\<lambda>k. of_nat (k OR 128)) (rev ks) @ post)
    (length pre + length ks) i acc = Some (glue i t ks OR acc)"
  using assms(2,3)
proof (induction ks arbitrary: i acc post)
  case Nil
  with assms(1) show ?case by (simp add: decode_step_stop)
next
  case (Cons k ks)
  let ?m = "pre @ of_nat t # map (\<lambda>k. of_nat (k OR 128)) (rev (k # ks)) @ post"
  have m: "?m = (pre @ of_nat t # map (\<lambda>k. of_nat (k OR 128)) (rev ks)) @ of_nat (k OR 128) # post"
    by simp
  have "rd ?m (Suc (length pre + length ks)) = Some (of_nat (k OR 128))"
    unfolding m by (subst rd_append2) simp_all
  then have "lpDecodeBacklen_loop ?m (Suc (length pre + length ks)) i acc =
      lpDecodeBacklen_loop ?m (length pre + length ks) (i + 7) (push_bit i k OR acc)"
    using Cons.prems by (intro decode_step_cont) auto
  also have "\<dots> = Some (glue (i + 7) t ks OR (push_bit i k OR acc))"
    using Cons.IH [of "i + 7" "of_nat (k OR 128) # post" "push_bit i k OR acc"] Cons.prems by simp
  finally show ?case by (simp add: or.assoc or.left_commute)
qed

lemma push_take_drop_step:
  fixes n :: nat
  shows "push_bit i (take_bit 7 (drop_bit i n)) OR push_bit (i + 7) (drop_bit (i + 7) n) =
    push_bit i (drop_bit i n)"
proof (rule bit_eqI)
  fix k
  show "bit (push_bit i (take_bit 7 (drop_bit i n)) OR push_bit (i + 7) (drop_bit (i + 7) n)) k =
      bit (push_bit i (drop_bit i n)) k"
    by (cases "i + 7 \<le> k") (auto simp: bit_simps)
qed

definition groups :: "nat \<Rightarrow> nat \<Rightarrow> nat \<Rightarrow> nat list" where
  "groups i m n = map (\<lambda>j. take_bit 7 (drop_bit (i + 7 * j) n)) [0..<m]"

lemma groups_Suc: "groups i (Suc m) n = take_bit 7 (drop_bit i n) # groups (i + 7) m n"
  unfolding groups_def by (simp add: upt_conv_Cons map_Suc_upt [symmetric] algebra_simps o_def
      del: upt_Suc)

lemma glue_groups: "glue i (drop_bit (i + 7 * m) n) (groups i m n) = push_bit i (drop_bit i n)"
proof (induction m arbitrary: i)
  case 0
  show ?case by (simp add: groups_def)
next
  case (Suc m)
  from Suc.IH [of "i + 7"] show ?case
    by (simp add: groups_Suc push_take_drop_step algebra_simps del: take_bit_drop_bit)
qed

lemma backlen_bytes_groups:
  "backlen_bytes n = (let m = lpEncodeBacklenBytes n - 1
     in of_nat (drop_bit (7 * m) n) # map (\<lambda>k. of_nat (k OR 128)) (rev (groups 0 m n)))"
  by (simp add: backlen_bytes_def lpEncodeBacklen_def lpEncodeBacklenBytes_def groups_def
      and_127_nat upt_rec Let_def)

lemma decode_backlen:
  assumes "n < 34359738368"
  shows "lpDecodeBacklen (pre @ backlen_bytes n @ post)
    (length pre + lpEncodeBacklenBytes n - 1) = Some n"
proof -
  define m where "m = lpEncodeBacklenBytes n - 1"
  have len: "length (groups 0 m n) = m" by (simp add: groups_def)
  have "drop_bit (7 * m) n < 128"
    using assms by (auto simp: m_def lpEncodeBacklenBytes_def drop_bit_eq_div)
  moreover have "list_all (\<lambda>k. k < 128) (groups 0 m n)"
    by (simp add: groups_def list_all_iff take_bit_7_less del: take_bit_drop_bit)
  moreover have "0 + 7 * length (groups 0 m n) \<le> 28"
    using lpEncodeBacklenBytes_bounds [of n] unfolding len by (auto simp: m_def)
  ultimately have "lpDecodeBacklen_loop (pre @ backlen_bytes n @ post) (length pre + m) 0 0 =
      Some (glue 0 (drop_bit (7 * m) n) (groups 0 m n) OR 0)"
    using decode_groups [of "drop_bit (7 * m) n" "groups 0 m n" 0 pre post 0]
    unfolding backlen_bytes_groups Let_def m_def [symmetric] by (simp add: len)
  moreover have "length pre + lpEncodeBacklenBytes n - 1 = length pre + m"
    using lpEncodeBacklenBytes_bounds [of n] by (simp add: m_def)
  ultimately show ?thesis
    using glue_groups [of 0 m n] by (simp add: lpDecodeBacklen_def)
qed

section \<open>Strings stored as integers\<close>

lemma lpStringToInt64_loop_eq: "lpStringToInt64_loop cs v = csn_loop cs v"
  by (induction cs arbitrary: v) simp_all

lemma digit_val_pos:
  assumes "isdigit c" "c \<noteq> CHR ''0''"
  shows "0 < digit_val c"
proof (rule ccontr)
  assume "\<not> 0 < digit_val c"
  then have "digit_char (digit_val c) = CHR ''0''" by simp
  with assms show False by simp
qed

lemma canonical_digits:
  assumes "isdigit c" "c \<noteq> CHR ''0''" "list_all isdigit cs"
  shows "nat_to_string (digits_value (digit_val c) cs) = c # cs"
  using assms digit_val_pos [of c]
  by (simp add: nat_to_string_digits_value nat_to_string_small)

lemma lpStringToInt64_cases [consumes 1, case_names Zero Pos Neg]:
  assumes "lpStringToInt64 s = Some v"
  obtains (Zero) "s = ''0''" "v = 0"
  | (Pos) c cs n where "s = c # cs" "isdigit c" "c \<noteq> CHR ''0''"
      "csn_loop cs (digit_val c) = Some n" "n \<le> INT64_MAX" "v = int n"
  | (Neg) c cs n where "s = CHR ''-'' # c # cs" "isdigit c" "c \<noteq> CHR ''0''"
      "csn_loop cs (digit_val c) = Some n" "n \<le> INT64_MAX + 1" "v = - int n"
proof (cases "s = ''0''")
  case True
  with assms Zero show ?thesis by (simp add: lpStringToInt64_def)
next
  case nz: False
  from assms have ne: "s \<noteq> []" by (auto simp: lpStringToInt64_def)
  show ?thesis
  proof (cases "hd s = CHR ''-''")
    case True
    with assms nz ne show ?thesis
      by (cases s) (auto simp: lpStringToInt64_def lpStringToInt64_loop_eq
          split: list.splits if_splits option.splits intro: Neg)
  next
    case False
    with assms nz ne show ?thesis
      by (cases s) (auto simp: lpStringToInt64_def lpStringToInt64_loop_eq
          split: list.splits if_splits option.splits intro: Pos)
  qed
qed

lemma canonical_loop:
  assumes "isdigit c" "c \<noteq> CHR ''0''" "csn_loop cs (digit_val c) = Some n"
  shows "nat_to_string n = c # cs" "0 < n"
proof -
  from assms have "digit_val c \<le> UINT64_MAX" by (auto dest: digit_val_less)
  with assms have cs: "list_all isdigit cs" and nv: "n = digits_value (digit_val c) cs"
    by (auto simp: csn_loop_Some_iff)
  show "nat_to_string n = c # cs" using canonical_digits [OF assms(1,2) cs] by (simp add: nv)
  show "0 < n"
    using digit_val_pos [OF assms(1,2)] digits_value_ge [of "digit_val c" cs] by (simp add: nv)
qed

text \<open>Only the canonical decimal form of an integer is taken as one.\<close>

lemma lpStringToInt64_Some:
  assumes "lpStringToInt64 s = Some v"
  shows "int_to_string v = s \<and> int64_range v"
  using assms
proof (cases rule: lpStringToInt64_cases)
  case Zero
  then show ?thesis by (simp add: int_to_string_def nat_to_string_small int64_range_def)
next
  case (Pos c cs n)
  with canonical_loop [OF Pos(2-4)] show ?thesis
    by (simp add: int64_range_def)
next
  case (Neg c cs n)
  with canonical_loop [OF Neg(2-4)] show ?thesis
    by (simp add: int64_range_def int_to_string_def)
qed

lemma string_of_entry_of_string [simp]: "string_of_entry (entry_of_string s) = s"
  by (auto simp: entry_of_string_def dest: lpStringToInt64_Some split: option.splits)

lemma valid_entry_of_string:
  "length s + 5 < 4294967296 \<Longrightarrow> valid_entry (entry_of_string s)"
  by (auto simp: entry_of_string_def dest: lpStringToInt64_Some split: option.splits)

lemma entry_of_string_inject [simp]: "entry_of_string s = entry_of_string t \<longleftrightarrow> s = t"
  by (metis string_of_entry_of_string)

end
