(* ===== verification/Listpack_Nav.thy ===== *)
theory Listpack_Nav
  imports Listpack_Codec
begin

text \<open>
  Navigation in a listpack. \<open>lp_rep lp es\<close> says that the buffer \<open>lp\<close> holds exactly the
  entries \<open>es\<close>: a header with the total size and the element count (or the marker for an
  unknown count), the encoded entries, the end byte and possibly unused bytes behind it.
  Under it \<open>lpFirst\<close>, \<open>lpLast\<close>, \<open>lpNext\<close>, \<open>lpPrev\<close>, \<open>lpSeek\<close>, \<open>lpLength\<close>,
  \<open>lpGetWithSize\<close> and \<open>lpValidateIntegrity\<close> return, without a fault, what the same
  operation does on the list \<open>es\<close>.
\<close>

section \<open>The layout of a listpack\<close>

definition lp_header :: "nat \<Rightarrow> nat \<Rightarrow> byte list" where
  "lp_header tot num =
     [of_nat (take_bit 8 tot), of_nat (take_bit 8 (drop_bit 8 tot)),
      of_nat (take_bit 8 (drop_bit 16 tot)), of_nat (take_bit 8 (drop_bit 24 tot)),
      of_nat (take_bit 8 num), of_nat (take_bit 8 (drop_bit 8 num))]"

definition entries_bytes :: "lp_entry list \<Rightarrow> byte list" where
  "entries_bytes es = concat (map entry_bytes es)"

definition lp_size :: "lp_entry list \<Rightarrow> nat" where
  "lp_size es = 7 + length (entries_bytes es)"

text \<open>The offset of the entry with index \<open>i\<close>, of the end byte for \<open>i = length es\<close>.\<close>

definition lp_off :: "lp_entry list \<Rightarrow> nat \<Rightarrow> nat" where
  "lp_off es i = 6 + length (entries_bytes (take i es))"

definition lp_layout :: "byte list \<Rightarrow> nat \<Rightarrow> lp_entry list \<Rightarrow> byte list \<Rightarrow> bool" where
  "lp_layout lp num es slack \<longleftrightarrow>
     lp = lp_header (lp_size es) num @ entries_bytes es @ LP_EOF # slack"

definition lp_rep :: "byte list \<Rightarrow> lp_entry list \<Rightarrow> bool" where
  "lp_rep lp es \<longleftrightarrow>
     (\<exists>num slack. lp_layout lp num es slack \<and>
        (num = LP_HDR_NUMELE_UNKNOWN \<or> num = length es \<and> num < LP_HDR_NUMELE_UNKNOWN)) \<and>
     lp_size es \<le> UINT32_MAX \<and> list_all valid_entry es"

text \<open>
  The entries the asserting functions accept: \<open>lpAssertValidEntry\<close> fails on an integer
  that needs more than 32 bits.
\<close>

abbreviation narrow :: "lp_entry list \<Rightarrow> bool" where
  "narrow es \<equiv> list_all narrow_entry es"

text \<open>
  What the list commands make of an entry: the bytes of a string entry, the decimal form
  of an integer one (\<open>handle_lpop\<close>, \<open>handle_lrange\<close>, \<open>handle_blpop\<close>).
\<close>

definition lp_value_string :: "byte list \<Rightarrow> nat \<Rightarrow> string option" where
  "lp_value_string lp p = do {
     (valuePtr, value_length, _) \<leftarrow> lpGetWithSize lp p;
     (case valuePtr of
        Some q \<Rightarrow> do { bs \<leftarrow> slice lp q (nat value_length); Some (string_of_bytes bs) }
      | None \<Rightarrow> Some (int_to_string value_length)) }"

section \<open>The header\<close>

lemma wr_simps [simp]:
  "wr (x # xs) 0 b = Some (b # xs)"
  "wr (x # xs) (Suc i) b = map_option ((#) x) (wr xs i b)"
  "wr (x # xs) (numeral k) b = map_option ((#) x) (wr xs (pred_numeral k) b)"
  "wr (x # xs) 1 b = map_option ((#) x) (wr xs 0 b)"
  by (simp_all add: wr_def numeral_eq_Suc)

lemma slice_middle: "slice (pre @ bs @ post) (length pre) (length bs) = Some bs"
  by (simp add: slice_def)

lemma length_lp_header [simp]: "length (lp_header tot num) = 6"
  by (simp add: lp_header_def)

lemma entries_bytes_simps [simp]:
  "entries_bytes [] = []" "entries_bytes (e # es) = entry_bytes e @ entries_bytes es"
  "entries_bytes (es @ fs) = entries_bytes es @ entries_bytes fs"
  by (simp_all add: entries_bytes_def)

lemma rd_numerals [simp]:
  "rd (x # xs) 1 = rd xs 0" "rd xs (0::nat) = (case xs of [] \<Rightarrow> None | x # _ \<Rightarrow> Some x)"
  by (simp_all add: rd_def split: list.splits)

lemma lpGetTotalBytes_header:
  assumes "tot \<le> UINT32_MAX"
  shows "lpGetTotalBytes (lp_header tot num @ rest) = Some tot"
proof -
  have "take_bit 32 tot = tot" using assms by (simp add: take_bit_nat_eq_self_iff)
  with le_join32_nat [of tot] show ?thesis
    by (simp add: lpGetTotalBytes_def lp_header_def and_0xff_byte del: take_bit_drop_bit)
qed

lemma lpGetTotalNumElements_header:
  assumes "num \<le> UINT16_MAX"
  shows "lpGetTotalNumElements (lp_header tot num @ rest) = Some num"
proof -
  have "take_bit 16 num = num" using assms by (simp add: take_bit_nat_eq_self_iff)
  with le_step_nat(1) [of num] show ?thesis
    by (simp add: lpGetTotalNumElements_def lp_header_def and_0xff_byte del: take_bit_drop_bit)
qed

lemma lp_rep_total: "lp_rep lp es \<Longrightarrow> lpGetTotalBytes lp = Some (lp_size es)"
  by (auto simp: lp_rep_def lp_layout_def lpGetTotalBytes_header)

lemma lp_rep_num:
  assumes "lp_rep lp es"
  obtains "lpGetTotalNumElements lp = Some LP_HDR_NUMELE_UNKNOWN"
  | "lpGetTotalNumElements lp = Some (length es)" "length es < LP_HDR_NUMELE_UNKNOWN"
  using assms by (auto simp: lp_rep_def lp_layout_def lpGetTotalNumElements_header)

lemma lp_rep_length: "lp_rep lp es \<Longrightarrow> lp_size es \<le> length lp"
  by (auto simp: lp_rep_def lp_layout_def lp_size_def)

section \<open>Offsets\<close>

lemma length_entry_bytes:
  "length (entry_bytes e) = length (payload e) + lpEncodeBacklenBytes (length (payload e))"
  by (simp add: entry_bytes_def)

lemma lp_off_0 [simp]: "lp_off es 0 = LP_HEADER_SIZE"
  by (simp add: lp_off_def)

lemma lp_off_Suc: "i < length es \<Longrightarrow> lp_off es (Suc i) = lp_off es i + length (entry_bytes (es ! i))"
  by (simp add: lp_off_def take_Suc_conv_app_nth)

lemma lp_off_end: "lp_size es = Suc (lp_off es (length es))"
  by (simp add: lp_off_def lp_size_def)

lemma lp_off_mono: "i \<le> j \<Longrightarrow> lp_off es i \<le> lp_off es j"
proof -
  assume "i \<le> j"
  then have "take j es = take i es @ take (j - i) (drop i es)"
    by (metis le_add_diff_inverse take_add)
  then show ?thesis by (simp add: lp_off_def)
qed

lemma lp_off_less_size: "lp_off es i < lp_size es"
  using lp_off_mono [of i "length es" es] lp_off_end [of es]
  by (cases "i \<le> length es") (auto simp: lp_off_def)

lemma lp_off_ge_header: "LP_HEADER_SIZE \<le> lp_off es i"
  by (simp add: lp_off_def)

lemma entry_bytes_pos: "0 < length (entry_bytes e)"
  by (simp add: entry_bytes_def)

lemma lp_off_strict: "i < length es \<Longrightarrow> lp_off es i < lp_off es (Suc i)"
  using entry_bytes_pos by (simp add: lp_off_Suc)

text \<open>The bytes at the offset of an entry, and at the end.\<close>

lemma lp_rep_at:
  assumes "lp_rep lp es" "i < length es"
  obtains pre post where "lp = pre @ entry_bytes (es ! i) @ post" "length pre = lp_off es i"
    "valid_entry (es ! i)"
proof -
  from assms(1) obtain num slack where l: "lp_layout lp num es slack" and v: "list_all valid_entry es"
    by (auto simp: lp_rep_def)
  have "es = take i es @ es ! i # drop (Suc i) es" using assms(2) by (rule id_take_nth_drop)
  then have "entries_bytes es =
      entries_bytes (take i es) @ entry_bytes (es ! i) @ entries_bytes (drop (Suc i) es)"
    by (metis entries_bytes_simps(2,3) append.assoc)
  with l have "lp = (lp_header (lp_size es) num @ entries_bytes (take i es)) @
      entry_bytes (es ! i) @ entries_bytes (drop (Suc i) es) @ LP_EOF # slack"
    by (simp add: lp_layout_def)
  moreover have "length (lp_header (lp_size es) num @ entries_bytes (take i es)) = lp_off es i"
    by (simp add: lp_off_def)
  moreover have "valid_entry (es ! i)" using v assms(2) by (simp add: list_all_length)
  ultimately show thesis by (rule that)
qed

lemma lp_rep_eof: "lp_rep lp es \<Longrightarrow> rd lp (lp_off es (length es)) = Some LP_EOF"
  by (auto simp: lp_rep_def lp_layout_def lp_off_def rd_append2)

lemma lp_rep_not_eof:
  assumes "lp_rep lp es" "i < length es"
  shows "\<exists>b. rd lp (lp_off es i) = Some b \<and> b \<noteq> LP_EOF"
proof -
  from assms obtain pre post where lp: "lp = pre @ entry_bytes (es ! i) @ post"
    and len: "length pre = lp_off es i" and v: "valid_entry (es ! i)" by (rule lp_rep_at)
  have "lp_off es i < length lp"
    using lp_off_less_size [of es i] lp_rep_length [OF assms(1)] by simp
  then obtain b where "rd lp (lp_off es i) = Some b" by (auto simp: rd_def)
  moreover from this payload_hd_not_EOF [OF v, of pre] have "b \<noteq> LP_EOF"
    by (auto simp: lp len [symmetric] entry_bytes_def)
  ultimately show ?thesis by blast
qed

lemma lp_rep_size_at:
  assumes "lp_rep lp es" "i < length es"
  shows "lpCurrentEncodedSizeUnsafe lp (lp_off es i) = Some (length (payload (es ! i)))"
proof -
  from assms obtain pre post where "lp = pre @ entry_bytes (es ! i) @ post"
    "length pre = lp_off es i" "valid_entry (es ! i)" by (rule lp_rep_at)
  with size_unsafe_at [of "es ! i" pre] show ?thesis by (simp add: entry_bytes_def)
qed

lemma lp_rep_header_at:
  assumes "lp_rep lp es" "i < length es" "narrow_entry (es ! i)"
  shows "\<exists>n. lpCurrentEncodedSizeBytes lp (lp_off es i) = Some n \<and> 0 < n \<and> n \<le> length (payload (es ! i))"
proof -
  from assms(1,2) obtain pre post where "lp = pre @ entry_bytes (es ! i) @ post"
    "length pre = lp_off es i" "valid_entry (es ! i)" by (rule lp_rep_at)
  with size_bytes_at [of "es ! i" pre] assms(3) show ?thesis by (simp add: entry_bytes_def)
qed

lemma lp_rep_payload_bound:
  assumes "lp_rep lp es" "i < length es"
  shows "length (payload (es ! i)) + lpEncodeBacklenBytes (length (payload (es ! i))) < UINT32_MAX"
proof -
  have "lp_off es (Suc i) < lp_size es" by (rule lp_off_less_size)
  with assms show ?thesis by (auto simp: lp_off_Suc length_entry_bytes lp_rep_def)
qed

lemma lp_rep_backlen_at:
  assumes "lp_rep lp es" "i < length es"
  shows "lpDecodeBacklen lp (lp_off es (Suc i) - 1) = Some (length (payload (es ! i)))"
proof -
  from assms obtain pre post where "lp = pre @ entry_bytes (es ! i) @ post"
    and len: "length pre = lp_off es i" by (rule lp_rep_at)
  then have lp: "lp = (pre @ payload (es ! i)) @ backlen_bytes (length (payload (es ! i))) @ post"
    by (simp add: entry_bytes_def)
  have "length (payload (es ! i)) < 34359738368" using lp_rep_payload_bound [OF assms] by simp
  from decode_backlen [OF this, of "pre @ payload (es ! i)" post] show ?thesis
    using assms(2) len by (simp add: lp lp_off_Suc length_entry_bytes add.assoc)
qed

section \<open>Steps\<close>

lemma lpSkip_at:
  "lp_rep lp es \<Longrightarrow> i < length es \<Longrightarrow> lpSkip lp (lp_off es i) = Some (lp_off es (Suc i))"
  by (simp add: lpSkip_def lp_rep_size_at lp_off_Suc length_entry_bytes)

lemma lp_off_in_range [simp]: "\<not> IS_OUT_OF_RANGE (lp_size es) (lp_off es i)"
  using lp_off_less_size [of es i] lp_off_ge_header [of es i] by (simp add: IS_OUT_OF_RANGE_def)

lemma lp_between_in_range:
  "lp_off es i \<le> p \<Longrightarrow> p \<le> lp_off es j \<Longrightarrow> \<not> IS_OUT_OF_RANGE (lp_size es) p"
  using lp_off_less_size [of es j] lp_off_ge_header [of es i] by (simp add: IS_OUT_OF_RANGE_def)

lemma lpValidateNext_at:
  assumes "lp_rep lp es" "i < length es" "narrow_entry (es ! i)"
  shows "lpValidateNext lp (lp_size es) (Some (lp_off es i)) = Some (True, Some (lp_off es (Suc i)))"
proof -
  let ?n = "length (payload (es ! i))"
  obtain b where b: "rd lp (lp_off es i) = Some b" "b \<noteq> LP_EOF"
    using lp_rep_not_eof [OF assms(1,2)] by auto
  obtain n where n: "lpCurrentEncodedSizeBytes lp (lp_off es i) = Some n" "0 < n" "n \<le> ?n"
    using lp_rep_header_at [OF assms] by auto
  have off: "lp_off es (Suc i) = lp_off es i + (?n + lpEncodeBacklenBytes ?n)"
    using assms(2) by (simp add: lp_off_Suc length_entry_bytes)
  have "\<not> IS_OUT_OF_RANGE (lp_size es) (lp_off es i + n)"
    using n by (intro lp_between_in_range [of es i _ "Suc i"]) (auto simp: off)
  moreover have "\<not> IS_OUT_OF_RANGE (lp_size es) (lp_off es i + (?n + lpEncodeBacklenBytes ?n))"
    unfolding off [symmetric] by simp
  moreover have "lpDecodeBacklen lp (lp_off es i + (?n + lpEncodeBacklenBytes ?n) - 1) = Some ?n"
    using lp_rep_backlen_at [OF assms(1,2)] by (simp add: off)
  moreover have "?n + lpEncodeBacklenBytes ?n < 18446744073709551616"
    using lp_rep_payload_bound [OF assms(1,2)] by simp
  ultimately show ?thesis
    using b n lp_rep_size_at [OF assms(1,2)] by (simp add: lpValidateNext_def Let_def off)
qed

text \<open>An integer wider than 32 bits makes the validation, and so the assert, fail.\<close>

lemma lpValidateNext_wide:
  assumes "lp_rep lp es" "i < length es" "\<not> narrow_entry (es ! i)"
  shows "lpValidateNext lp (lp_size es) (Some (lp_off es i)) = Some (False, Some (lp_off es i))"
proof -
  from assms(1,2) obtain pre post where lp: "lp = pre @ entry_bytes (es ! i) @ post"
    and len: "length pre = lp_off es i" and v: "valid_entry (es ! i)" by (rule lp_rep_at)
  from assms(3) v obtain k where "es ! i = EInt k" "int64_range k" "\<not> narrow_entry (EInt k)"
    by (cases "es ! i") auto
  with size_bytes_at_wide [of k pre] lp len
  have "lpCurrentEncodedSizeBytes lp (lp_off es i) = Some 0"
    by (simp add: entry_bytes_def del: payload.simps)
  moreover obtain b where "rd lp (lp_off es i) = Some b" "b \<noteq> LP_EOF"
    using lp_rep_not_eof [OF assms(1,2)] by auto
  ultimately show ?thesis by (simp add: lpValidateNext_def)
qed

lemma lpAssertValidEntry_at:
  assumes "lp_rep lp es" "i < length es"
  shows "lpAssertValidEntry lp (lp_size es) (lp_off es i) =
    (if narrow_entry (es ! i) then Some () else None)"
  using lpValidateNext_at [OF assms] lpValidateNext_wide [OF assms]
  by (simp add: lpAssertValidEntry_def)

text \<open>An offset as a pointer that is null at the end of the list.\<close>

definition lp_ptr :: "lp_entry list \<Rightarrow> nat \<Rightarrow> nat option" where
  "lp_ptr es i = (if i < length es then Some (lp_off es i) else None)"

lemma narrow_nth: "narrow es \<Longrightarrow> i < length es \<Longrightarrow> narrow_entry (es ! i)"
  by (simp add: list_all_length)

lemma lpFirst_rep:
  assumes "lp_rep lp es" "es \<noteq> [] \<Longrightarrow> narrow_entry (hd es)"
  shows "lpFirst lp = Some (lp_ptr es 0)"
proof (cases es)
  case Nil
  with lp_rep_eof [OF assms(1)] show ?thesis by (simp add: lpFirst_def lp_ptr_def)
next
  case (Cons e es')
  with assms lp_rep_not_eof [of lp es 0] lpAssertValidEntry_at [of lp es 0] show ?thesis
    by (auto simp: lpFirst_def lp_ptr_def lp_rep_total)
qed

lemma lpFirst_wide:
  assumes "lp_rep lp es" "es \<noteq> []" "\<not> narrow_entry (hd es)"
  shows "lpFirst lp = None"
  using assms lp_rep_not_eof [of lp es 0] lpAssertValidEntry_at [of lp es 0]
  by (auto simp: lpFirst_def lp_rep_total hd_conv_nth)

lemma lpNext_rep:
  assumes "lp_rep lp es" "i < length es" "Suc i < length es \<Longrightarrow> narrow_entry (es ! Suc i)"
  shows "lpNext lp (Some (lp_off es i)) = Some (lp_ptr es (Suc i))"
proof (cases "Suc i < length es")
  case True
  with assms lp_rep_not_eof [of lp es "Suc i"] lpAssertValidEntry_at [of lp es "Suc i"]
  show ?thesis by (auto simp: lpNext_def lp_ptr_def lp_rep_total lpSkip_at)
next
  case False
  with assms(2) have "length es = Suc i" by simp
  with assms lp_rep_eof [OF assms(1)] show ?thesis
    by (simp add: lpNext_def lp_ptr_def lp_rep_total lpSkip_at)
qed

lemma lpPrev_rep:
  assumes "lp_rep lp es" "i < length es" "narrow_entry (es ! i)"
  shows "lpPrev lp (Some (lp_off es (Suc i))) = Some (Some (lp_off es i))"
proof -
  let ?n = "length (payload (es ! i))"
  have off: "lp_off es (Suc i) = lp_off es i + (?n + lpEncodeBacklenBytes ?n)"
    using assms(2) by (simp add: lp_off_Suc length_entry_bytes)
  have "lp_off es (Suc i) \<noteq> LP_HEADER_SIZE" "lp_off es (Suc i) \<noteq> 0"
    using lp_off_strict [OF assms(2)] lp_off_ge_header [of es i] by auto
  moreover have "?n + lpEncodeBacklenBytes ?n < 18446744073709551616"
    using lp_rep_payload_bound [OF assms(1,2)] by simp
  ultimately show ?thesis
    using lp_rep_backlen_at [OF assms(1,2)] lpAssertValidEntry_at [OF assms(1,2)] assms(3)
    by (simp add: lpPrev_def Let_def lp_rep_total [OF assms(1)] off)
qed

lemma lpPrev_first: "lpPrev lp (Some LP_HEADER_SIZE) = Some None"
  by (simp add: lpPrev_def)

lemma lpLast_rep:
  assumes "lp_rep lp es" "narrow es"
  shows "lpLast lp = Some (if es = [] then None else Some (lp_off es (length es - 1)))"
proof (cases es rule: rev_cases)
  case Nil
  with assms show ?thesis by (simp add: lpLast_def lp_rep_total lp_off_end lpPrev_first)
next
  case (snoc ys y)
  with assms lpPrev_rep [of lp es "length ys"] show ?thesis
    by (simp add: lpLast_def lp_rep_total lp_off_end del: lp_off_0)
qed

section \<open>Seeking and counting\<close>

lemma lpSeek_forward_None [simp]: "lpSeek_forward lp n None = Some None"
  by (cases n) simp_all

lemma lpSeek_forward_rep:
  assumes "lp_rep lp es" "narrow es"
  shows "lpSeek_forward lp n (lp_ptr es i) = Some (lp_ptr es (i + n))"
proof (induction n arbitrary: i)
  case (Suc n)
  show ?case
  proof (cases "i < length es")
    case True
    have "lpNext lp (Some (lp_off es i)) = Some (lp_ptr es (Suc i))"
      using assms True by (intro lpNext_rep) (auto simp: narrow_nth)
    with True Suc.IH [of "Suc i"] show ?thesis by (simp add: lp_ptr_def)
  next
    case False
    then show ?thesis by (simp add: lp_ptr_def)
  qed
qed simp

lemma lpSeek_backward_rep:
  assumes "lp_rep lp es" "narrow es" "i < length es" "n \<le> i"
  shows "lpSeek_backward lp n (Some (lp_off es i)) = Some (Some (lp_off es (i - n)))"
  using assms(3,4)
proof (induction n arbitrary: i)
  case (Suc n)
  then obtain j where j: "i = Suc j" by (cases i) auto
  have "lpPrev lp (Some (lp_off es (Suc j))) = Some (Some (lp_off es j))"
    using assms Suc.prems j by (intro lpPrev_rep) (auto simp: narrow_nth)
  with Suc.IH [of j] Suc.prems j show ?case by simp
qed simp

lemma lpSeek_backward_None [simp]: "lpSeek_backward lp n None = Some None"
  by (cases n) simp_all

lemma lpSeek_backward_off:
  assumes "lp_rep lp es" "narrow es" "i < length es" "i < n"
  shows "lpSeek_backward lp n (Some (lp_off es i)) = Some None"
  using assms(3,4)
proof (induction n arbitrary: i)
  case (Suc n)
  show ?case
  proof (cases i)
    case 0
    then show ?thesis by (simp add: lpPrev_first)
  next
    case (Suc j)
    have "lpPrev lp (Some (lp_off es (Suc j))) = Some (Some (lp_off es j))"
      using assms Suc.prems Suc by (intro lpPrev_rep) (auto simp: narrow_nth)
    with Suc.IH [of j] Suc.prems Suc show ?thesis by simp
  qed
qed simp

text \<open>The index a seek denotes: a negative one counts from the end.\<close>

definition seek_index :: "nat \<Rightarrow> int \<Rightarrow> nat option" where
  "seek_index n index =
     (let i = (if index < 0 then int n + index else index)
      in if 0 \<le> i \<and> i < int n then Some (nat i) else None)"

lemma lpSeek_last_rep:
  assumes "lp_rep lp es" "narrow es"
  shows "Option.bind (lpLast lp) (lpSeek_backward lp n) =
    Some (if n < length es then Some (lp_off es (length es - 1 - n)) else None)"
proof (cases "es = []")
  case True
  with assms show ?thesis by (simp add: lpLast_rep)
next
  case ne: False
  show ?thesis
  proof (cases "n < length es")
    case True
    with lpSeek_backward_rep [OF assms, of "length es - 1" n] show ?thesis
      by (auto simp: lpLast_rep [OF assms])
  next
    case False
    with ne have "length es - 1 < n" by (cases es) auto
    with ne False lpSeek_backward_off [OF assms, of "length es - 1" n] show ?thesis
      by (simp add: lpLast_rep [OF assms])
  qed
qed

lemma lpSeek_first_rep:
  assumes "lp_rep lp es" "narrow es"
  shows "Option.bind (lpFirst lp) (lpSeek_forward lp n) = Some (lp_ptr es n)"
  using assms lpSeek_forward_rep [OF assms, of n 0]
  by (subst lpFirst_rep) (auto simp: list_all_iff)

lemma lpSeek_rep:
  assumes "lp_rep lp es" "narrow es"
  shows "lpSeek lp index = Some (map_option (lp_off es) (seek_index (length es) index))"
  using assms(1)
proof (cases rule: lp_rep_num)
  case 1
  show ?thesis
  proof (cases "index < 0")
    case True
    then show ?thesis
      using 1 lpSeek_last_rep [OF assms, of "nat (- 1 - index)"]
      by (auto simp: lpSeek_def seek_index_def Let_def intro!: arg_cong [where f = "lp_off es"])
  next
    case False
    then show ?thesis
      using 1 lpSeek_first_rep [OF assms, of "nat index"]
      by (auto simp: lpSeek_def seek_index_def lp_ptr_def)
  qed
next
  case 2
  define i where "i = (if index < 0 then int (length es) + index else index)"
  consider (out) "i < 0 \<or> int (length es) \<le> i"
    | (from_end) "0 \<le> i" "i < int (length es)" "int (length es) div 2 < i"
    | (front) "0 \<le> i" "i < int (length es)" "\<not> int (length es) div 2 < i" by linarith
  then show ?thesis
  proof cases
    case out
    with 2 show ?thesis by (auto simp: lpSeek_def seek_index_def Let_def i_def [symmetric])
  next
    case from_end
    have "length es - 1 - nat (- 1 - (i - int (length es))) = nat i" using from_end by linarith
    with 2 from_end lpSeek_last_rep [OF assms, of "nat (- 1 - (i - int (length es)))"] show ?thesis
      by (auto simp: lpSeek_def seek_index_def Let_def i_def [symmetric])
  next
    case front
    with 2 lpSeek_first_rep [OF assms, of "nat i"] show ?thesis
      by (auto simp: lpSeek_def seek_index_def Let_def i_def [symmetric] lp_ptr_def)
  qed
qed

lemma lpLength_loop_rep:
  assumes "lp_rep lp es" "narrow es"
  shows "lpLength_loop lp (lp_ptr es i) c = Some (c + (length es - i))"
proof (induction "length es - i" arbitrary: i c)
  case 0
  then show ?case by (subst lpLength_loop.simps) (simp add: lp_ptr_def)
next
  case (Suc k)
  then have i: "i < length es" by simp
  have "lpNext lp (Some (lp_off es i)) = Some (lp_ptr es (Suc i))"
    using assms i by (intro lpNext_rep) (auto simp: narrow_nth)
  with Suc.hyps(1) [of "Suc i" "c + 1"] Suc.hyps(2) i show ?case
    by (subst lpLength_loop.simps) (simp add: lp_ptr_def)
qed

lemma lpSetNumElements_header:
  "lpSetNumElements (lp_header tot num @ rest) n = Some (lp_header tot n @ rest)"
  by (simp add: lpSetNumElements_def lp_header_def and_0xff)

lemma lpSetTotalBytes_header:
  "lpSetTotalBytes (lp_header tot num @ rest) t = Some (lp_header t num @ rest)"
  by (simp add: lpSetTotalBytes_def lp_header_def and_0xff)

lemma lpLength_rep:
  assumes "lp_rep lp es" "narrow es"
  shows "\<exists>lp'. lpLength lp = Some (length es, lp') \<and> lp_rep lp' es"
  using assms(1)
proof (cases rule: lp_rep_num)
  case 1
  have "lpFirst lp = Some (lp_ptr es 0)"
    using assms by (intro lpFirst_rep) (auto simp: list_all_iff)
  then have *: "Option.bind (lpFirst lp) (\<lambda>p. lpLength_loop lp p 0) = Some (length es)"
    using lpLength_loop_rep [OF assms, of 0 0] by simp
  show ?thesis
  proof (cases "length es < LP_HDR_NUMELE_UNKNOWN")
    case True
    from assms(1) obtain num slack where l: "lp_layout lp num es slack" by (auto simp: lp_rep_def)
    define lp' where "lp' = lp_header (lp_size es) (length es) @ entries_bytes es @ LP_EOF # slack"
    have "lpSetNumElements lp (length es) = Some lp'"
      using l by (simp add: lp_layout_def lpSetNumElements_header lp'_def)
    moreover have "lp_rep lp' es"
      using assms(1) True by (auto simp: lp_rep_def lp_layout_def lp'_def)
    ultimately show ?thesis
      using 1 * True by (auto simp: lpLength_def Option.bind_eq_Some_conv)
  next
    case False
    with 1 * assms(1) show ?thesis by (auto simp: lpLength_def Option.bind_eq_Some_conv)
  qed
next
  case 2
  with assms(1) show ?thesis by (simp add: lpLength_def)
qed

section \<open>Reading and validating\<close>

lemma lp_value_string_at:
  assumes "lp_rep lp es" "i < length es"
  shows "lp_value_string lp (lp_off es i) = Some (string_of_entry (es ! i))"
proof -
  from assms obtain pre post where lp: "lp = pre @ entry_bytes (es ! i) @ post"
    and len: "length pre = lp_off es i" and v: "valid_entry (es ! i)" by (rule lp_rep_at)
  show ?thesis
  proof (cases "es ! i")
    case (EInt k)
    with v get_int_at [of k pre "backlen_bytes (length (payload (EInt k))) @ post"] show ?thesis
      by (auto simp: lp_value_string_def lp len [symmetric] entry_bytes_def simp del: payload.simps)
  next
    case (EStr s)
    let ?b = "backlen_bytes (length (payload (EStr s))) @ post"
    from v EStr obtain n where g: "lpGetWithSize (pre @ payload (EStr s) @ ?b) (length pre) =
        Some (Some (length pre + length (str_header (length s))), int (length s), Some n)"
      using get_str_at [of s pre ?b] by auto
    have "lp = (pre @ str_header (length s)) @ s @ ?b"
      using EStr by (simp add: lp entry_bytes_def)
    with slice_middle [of "pre @ str_header (length s)" s ?b]
    have "slice lp (length pre + length (str_header (length s))) (length s) = Some s" by simp
    moreover have "lp = pre @ payload (EStr s) @ ?b" using EStr by (simp add: lp entry_bytes_def)
    ultimately show ?thesis using g EStr
      by (simp add: lp_value_string_def len [symmetric])
  qed
qed

lemma lpValidateIntegrity_loop_rep:
  assumes "lp_rep lp es" "narrow es" "i \<le> length es"
  shows "lpValidateIntegrity_loop lp (lp_size es) (Some (lp_off es i)) c =
    Some (Some (Some (lp_off es (length es)), c + (length es - i)))"
  using assms(3)
proof (induction "length es - i" arbitrary: i c)
  case 0
  with lp_rep_eof [OF assms(1)] show ?case by (subst lpValidateIntegrity_loop.simps) simp
next
  case (Suc k)
  then have i: "i < length es" by simp
  obtain b where "rd lp (lp_off es i) = Some b" "b \<noteq> LP_EOF"
    using lp_rep_not_eof [OF assms(1) i] by auto
  moreover have "lpValidateNext lp (lp_size es) (Some (lp_off es i)) =
      Some (True, Some (lp_off es (Suc i)))"
    using assms i by (intro lpValidateNext_at) (auto simp: narrow_nth)
  ultimately show ?case
    using Suc.hyps(1) [of "Suc i" "c + 1"] Suc.hyps(2) i
    by (subst lpValidateIntegrity_loop.simps) simp
qed

lemma lpValidateIntegrity_rep:
  assumes "lp_rep lp es" "narrow es"
  shows "lpValidateIntegrity (Some lp) (lp_size es) deep = Some True"
proof -
  have "lpGetTotalNumElements lp = Some LP_HDR_NUMELE_UNKNOWN \<or>
      lpGetTotalNumElements lp = Some (length es)"
    using assms(1) by (cases rule: lp_rep_num) auto
  moreover have "\<not> lp_size es < LP_HEADER_SIZE + 1" by (simp add: lp_size_def)
  moreover have "rd lp (lp_size es - 1) = Some LP_EOF"
    using lp_rep_eof [OF assms(1)] by (simp add: lp_off_end)
  moreover have "lp_off es (length es) = lp_size es - 1" by (simp add: lp_off_end)
  ultimately show ?thesis
    using lpValidateIntegrity_loop_rep [OF assms, of 0 0]
    by (auto simp: lpValidateIntegrity_def lp_rep_total [OF assms(1)])
qed

end
