(* ===== verification/Listpack_Edit.thy ===== *)
theory Listpack_Edit
  imports Listpack_Nav
begin

text \<open>
  Creation and editing of listpacks. Under an allocator that returns blocks of the size
  asked for, \<open>lpNew\<close> gives the empty list, \<open>lpInsert\<close> before an entry inserts, \<open>lpAppend\<close>,
  \<open>lpPrepend\<close> and \<open>lpDelete\<close> do what they say on the represented list, every access staying
  inside the buffers. The only other outcome is the null pointer, exactly when the
  allocation fails or the list would outgrow 32 bits.
\<close>

section \<open>Contracts\<close>

definition allocator_ok :: "allocator \<Rightarrow> bool" where
  "allocator_ok new \<longleftrightarrow> (\<forall>n bs. new n = Some bs \<longrightarrow> length bs = n)"

text \<open>
  The arguments of \<open>lpInsert\<close> that denote an entry: a string with its length, or the bytes
  of an encoded integer.
\<close>

definition lp_arg :: "byte list option \<Rightarrow> byte list option \<Rightarrow> nat \<Rightarrow> lp_entry \<Rightarrow> bool" where
  "lp_arg elestr eleint size' e \<longleftrightarrow>
     (\<exists>s. elestr = Some (bytes_of_string s) \<and> eleint = None \<and> size' = length s \<and>
        e = entry_of_string s) \<or>
     (\<exists>v. elestr = None \<and> eleint = Some (payload (EInt v)) \<and> size' = length (payload (EInt v)) \<and>
        e = EInt v)"

definition insert_nth :: "nat \<Rightarrow> 'a \<Rightarrow> 'a list \<Rightarrow> 'a list" where
  "insert_nth i x xs = take i xs @ x # drop i xs"

definition delete_nth :: "nat \<Rightarrow> 'a list \<Rightarrow> 'a list" where
  "delete_nth i xs = take i xs @ drop (Suc i) xs"

section \<open>Buffers\<close>

lemma copy_into_exact:
  "length x = length j \<Longrightarrow> copy_into (a @ j @ b) (length a) x = Some (a @ x @ b)"
  by (simp add: copy_into_def)

lemma copy_into_start: "length x = length j \<Longrightarrow> copy_into (j @ b) 0 x = Some (x @ b)"
  using copy_into_exact [of x j "[]" b] by simp

lemma slice_start: "n = length x \<Longrightarrow> slice (x @ y) 0 n = Some x"
  by (simp add: slice_def)

lemma wr_append [simp]: "wr (a @ r) (length a + i) x = map_option ((@) a) (wr r i x)"
  by (simp add: wr_def list_update_append)

lemma wr_append_0 [simp]: "wr (a @ r) (length a) x = map_option ((@) a) (wr r 0 x)"
  using wr_append [of a r 0 x] by simp

lemma wr_append_Suc [simp]: "wr (a @ r) (Suc (length a)) x = map_option ((@) a) (wr r 1 x)"
  using wr_append [of a r 1 x] by simp

lemma wr_append_Suc_Suc [simp]: "wr (a @ r) (Suc (Suc (length a))) x = map_option ((@) a) (wr r 2 x)"
  using wr_append [of a r 2 x] by simp

lemma copy_into_append [simp]:
  "copy_into (a @ r) (length a + i) x = map_option ((@) a) (copy_into r i x)"
  by (auto simp: copy_into_def)

lemma copy_into_append_Suc [simp]:
  "copy_into (a @ r) (Suc (length a)) x = map_option ((@) a) (copy_into r 1 x)"
  using copy_into_append [of a r 1 x] by simp

lemma copy_into_append_Suc_Suc [simp]:
  "copy_into (a @ r) (Suc (Suc (length a))) x = map_option ((@) a) (copy_into r 2 x)"
  using copy_into_append [of a r 2 x] by simp

lemma copy_into_Cons [simp]:
  "copy_into (y # r) (Suc i) x = map_option ((#) y) (copy_into r i x)"
  "copy_into (y # r) (numeral k) x = map_option ((#) y) (copy_into r (pred_numeral k) x)"
  by (auto simp: copy_into_def numeral_eq_Suc)

text \<open>Opening a gap of \<open>k\<close> bytes in front of \<open>b\<close>, and closing one.\<close>

lemma memmove_open:
  assumes "length j = k"
  shows "\<exists>g. length g = k \<and> memmove (a @ b @ j) (length a + k) (length a) (length b) = Some (a @ g @ b)"
proof -
  have "take (length a + k) (a @ b @ j) = a @ take k (b @ j)" by simp
  then have "memmove (a @ b @ j) (length a + k) (length a) (length b) = Some (a @ take k (b @ j) @ b)"
    using assms by (simp add: memmove_def slice_middle copy_into_def del: take_append)
  moreover have "length (take k (b @ j)) = k" using assms by simp
  ultimately show ?thesis by blast
qed

lemma memmove_close:
  "\<exists>x. memmove (a @ e @ b @ s) (length a) (length a + length e) (length b) = Some (a @ b @ x)"
proof -
  have "slice ((a @ e) @ b @ s) (length (a @ e)) (length b) = Some b" by (rule slice_middle)
  then show ?thesis by (simp add: memmove_def copy_into_def)
qed

lemma lpRealloc_Some:
  assumes "allocator_ok new" "new n = Some blk" "length a \<le> n"
  shows "\<exists>j. length j = n - length a \<and> lpRealloc new (a @ s) n (length a) = Some (Some (a @ j))"
proof -
  from assms have "length blk = n" by (simp add: allocator_ok_def)
  with assms have "copy_into blk 0 a = Some (a @ drop (length a) blk)" by (simp add: copy_into_def)
  with assms \<open>length blk = n\<close> show ?thesis
    by (auto simp: lpRealloc_def slice_start intro!: exI [of _ "drop (length a) blk"])
qed

lemma lpRealloc_None: "new n = None \<Longrightarrow> lpRealloc new m n k = Some None"
  by (simp add: lpRealloc_def)

lemma sub64_less: "b \<le> a \<Longrightarrow> a < 18446744073709551616 \<Longrightarrow> sub64 a b = a - b"
proof -
  assume "b \<le> a" "a < 18446744073709551616"
  then have "(a + 18446744073709551616 - b) mod 18446744073709551616 =
      ((a - b) + 18446744073709551616) mod 18446744073709551616" by simp
  also have "\<dots> = a - b" using \<open>a < 18446744073709551616\<close> by (simp only: mod_add_self2) simp
  finally show ?thesis by (simp add: sub64_def)
qed

section \<open>Writing an entry\<close>

lemma str_header_length:
  "length (str_header n) = (if n < 64 then 1 else if n < 4096 then 2 else 5)"
  by (simp add: str_header_def)

lemma lpEncodeGetType_rep:
  "lpEncodeGetType (bytes_of_string s) (length s) =
     (case entry_of_string s of
        EInt v \<Rightarrow> (LP_ENCODING_INT, payload (EInt v), length (payload (EInt v)))
      | EStr b \<Rightarrow> (LP_ENCODING_STRING, [], length (payload (EStr b))))"
  by (auto simp: lpEncodeGetType_def entry_of_string_def str_header_length
      lpEncodeIntegerGetType_len [symmetric] split: option.splits)

lemma lpEncodeString_rep:
  assumes "length j = length (payload (EStr s))"
  shows "lpEncodeString (a @ j @ b) (length a) s (length s) = Some (a @ payload (EStr s) @ b)"
proof (cases s rule: str_payload_cases)
  case S6
  with assms obtain x j' where "j = x # j'" "length s = length j'" by (cases j) auto
  with S6 copy_into_start [of s j' b] show ?thesis
    by (simp add: lpEncodeString_def slice_def del: payload.simps)
next
  case S12
  with assms obtain x y j' where "j = x # y # j'" "length s = length j'"
    by (cases j; cases "tl j") auto
  with S12 copy_into_start [of s j' b] show ?thesis
    by (simp add: lpEncodeString_def slice_def and_0xff del: payload.simps)
next
  case S32
  with assms obtain x y z u v j' where "j = x # y # z # u # v # j'" "length s = length j'"
    by (auto simp del: payload.simps simp: length_Suc_conv)
  with S32 copy_into_start [of s j' b] show ?thesis
    by (simp add: lpEncodeString_def slice_def and_0xff del: payload.simps take_bit_drop_bit)
qed

lemma lpInsert_write_rep:
  assumes "length j = length (entry_bytes e)" "n = length (payload e)"
    and "t = LP_ENCODING_INT \<and> ei = Some (payload e) \<or>
      t = LP_ENCODING_STRING \<and> e = EStr s \<and> es = Some s \<and> sz = length s"
  shows "lpInsert_write (a @ j @ b) (length a) t es ei sz n (backlen_bytes n)
      (lpEncodeBacklenBytes n) = Some (a @ entry_bytes e @ b)"
proof -
  define j1 j2 where "j1 = take n j" and "j2 = drop n j"
  with assms(1,2) have j: "j = j1 @ j2" "length j1 = length (payload e)"
    "length (backlen_bytes n) = length j2"
    by (simp_all add: length_entry_bytes)
  have "(if t = LP_ENCODING_INT then
           (case ei of None \<Rightarrow> None
            | Some e \<Rightarrow> do { bs \<leftarrow> slice e 0 n; copy_into (a @ j @ b) (length a) bs })
         else (case es of Some s \<Rightarrow> lpEncodeString (a @ j @ b) (length a) s sz | None \<Rightarrow> None)) =
      Some ((a @ payload e) @ j2 @ b)"
    using assms(2,3) j copy_into_exact [of "payload e" j1 a "j2 @ b"]
      lpEncodeString_rep [of j1 s a "j2 @ b"] slice_start [of n "payload e" "[]"]
    by (auto simp del: payload.simps)
  moreover have "slice (backlen_bytes n) 0 (lpEncodeBacklenBytes n) = Some (backlen_bytes n)"
    by (simp add: slice_def)
  moreover have "copy_into ((a @ payload e) @ j2 @ b) (length a + n) (backlen_bytes n) =
      Some (a @ entry_bytes e @ b)"
    using copy_into_exact [of "backlen_bytes n" j2 "a @ payload e" b] j assms(2)
    by (simp add: entry_bytes_def del: copy_into_append)
  ultimately show ?thesis by (simp add: lpInsert_write_def)
qed

lemma lpInsert_header_rep:
  assumes "num \<le> UINT16_MAX"
  shows "lpInsert_header (lp_header tot num @ rest) d w t =
    Some (lp_header t
      (if (w \<noteq> LP_REPLACE \<or> d) \<and> num \<noteq> LP_HDR_NUMELE_UNKNOWN
       then (if d then (num + 4294967295) mod 4294967296 else num + 1) else num) @ rest)"
  using assms
  by (auto simp: lpInsert_header_def lpGetTotalNumElements_header lpSetNumElements_header
      lpSetTotalBytes_header)

section \<open>Splitting a represented list\<close>

lemma lp_size_insert: "i \<le> length es \<Longrightarrow> lp_size (insert_nth i e es) = lp_size es + length (entry_bytes e)"
  by (simp add: lp_size_def insert_nth_def)
    (metis append_take_drop_id entries_bytes_simps(3) length_append add.commute add.left_commute)

lemma lp_size_delete:
  assumes "i < length es"
  shows "lp_size es = lp_size (delete_nth i es) + length (entry_bytes (es ! i))"
proof -
  have "entries_bytes es = entries_bytes (take i es @ es ! i # drop (Suc i) es)"
    using id_take_nth_drop [OF assms] by simp
  then show ?thesis by (simp add: lp_size_def delete_nth_def)
qed

lemma lp_rep_split:
  assumes "lp_rep lp es"
  obtains num slack where
    "lp = (lp_header (lp_size es) num @ entries_bytes (take i es)) @
       (entries_bytes (drop i es) @ [LP_EOF]) @ slack"
    "num = LP_HDR_NUMELE_UNKNOWN \<or> num = length es \<and> num < LP_HDR_NUMELE_UNKNOWN"
proof -
  from assms obtain num slack where "lp_layout lp num es slack"
    "num = LP_HDR_NUMELE_UNKNOWN \<or> num = length es \<and> num < LP_HDR_NUMELE_UNKNOWN"
    by (auto simp: lp_rep_def)
  moreover have "entries_bytes es = entries_bytes (take i es) @ entries_bytes (drop i es)"
    by (metis append_take_drop_id entries_bytes_simps(3))
  ultimately show thesis by (intro that [of num slack]) (auto simp: lp_layout_def)
qed

lemma lp_rep_insertI:
  assumes "lp_rep lp es" "i \<le> length es" "valid_entry e"
    "num = LP_HDR_NUMELE_UNKNOWN \<or> num = length es \<and> num < LP_HDR_NUMELE_UNKNOWN"
    "lp_size (insert_nth i e es) \<le> UINT32_MAX"
  shows "lp_rep (lp_header (lp_size (insert_nth i e es))
      (if num \<noteq> LP_HDR_NUMELE_UNKNOWN then num + 1 else num) @
      entries_bytes (take i es) @ entry_bytes e @ entries_bytes (drop i es) @ [LP_EOF])
    (insert_nth i e es)"
  using assms unfolding lp_rep_def
  by (intro conjI exI [of _ "if num \<noteq> LP_HDR_NUMELE_UNKNOWN then num + 1 else num"] exI [of _ "[]"])
    (auto simp: lp_layout_def insert_nth_def list_all_iff dest: in_set_takeD in_set_dropD)

lemma lp_rep_deleteI:
  assumes "lp_rep lp es" "i < length es"
    "num = LP_HDR_NUMELE_UNKNOWN \<or> num = length es \<and> num < LP_HDR_NUMELE_UNKNOWN"
  shows "lp_rep (lp_header (lp_size (delete_nth i es))
      (if num \<noteq> LP_HDR_NUMELE_UNKNOWN then num - 1 else num) @
      entries_bytes (take i es) @ entries_bytes (drop (Suc i) es) @ [LP_EOF]) (delete_nth i es)"
  using assms lp_size_delete [OF assms(2)] unfolding lp_rep_def
  by (intro conjI exI [of _ "if num \<noteq> LP_HDR_NUMELE_UNKNOWN then num - 1 else num"] exI [of _ "[]"])
    (auto simp: lp_layout_def delete_nth_def list_all_iff dest: in_set_takeD in_set_dropD)

section \<open>Insertion and deletion\<close>

lemma valid_entry_size: "valid_entry e \<Longrightarrow> length (entry_bytes e) < 4294967306"
proof (cases e)
  case (EInt v)
  have "length (payload (EInt v)) \<le> 9"
    by (simp add: lpEncodeIntegerGetType_def Let_def)
  then show ?thesis
    using EInt lpEncodeBacklenBytes_bounds [of "length (payload e)"] by (auto simp: length_entry_bytes)
next
  case (EStr s)
  assume "valid_entry e"
  then have "length (payload e) < 4294967296" using EStr by (auto simp: str_header_length)
  then show ?thesis
    using lpEncodeBacklenBytes_bounds [of "length (payload e)"] by (auto simp: length_entry_bytes)
qed

text \<open>What \<open>lpInsert\<close> computes first from an element argument.\<close>

lemma lp_arg_type:
  assumes "lp_arg elestr eleint size' e"
  obtains t ei s where
    "(case elestr of
        Some s \<Rightarrow> (let (t, intenc, n) = lpEncodeGetType s size'
                   in (t, (if t = LP_ENCODING_INT then Some intenc else eleint), n))
      | None \<Rightarrow> (case eleint of
          Some e \<Rightarrow> (LP_ENCODING_INT, Some e, size')
        | None \<Rightarrow> (LP_ENCODING_UNSET, None, 0))) = (t, ei, length (payload e))"
    "t = LP_ENCODING_INT \<and> ei = Some (payload e) \<or>
      t = LP_ENCODING_STRING \<and> e = EStr s \<and> elestr = Some s \<and> size' = length s"
    "\<not> (elestr = None \<and> eleint = None)"
proof -
  from assms consider (str) s where "elestr = Some (bytes_of_string s)" "eleint = None"
      "size' = length s" "e = entry_of_string s"
    | (int) v where "elestr = None" "eleint = Some (payload (EInt v))"
      "size' = length (payload (EInt v))" "e = EInt v"
    unfolding lp_arg_def by blast
  then show thesis
  proof cases
    case str
    show ?thesis
    proof (cases "entry_of_string s")
      case (EInt v)
      with str that [of LP_ENCODING_INT "Some (payload e)"] show ?thesis
        by (simp add: lpEncodeGetType_rep del: payload.simps)
    next
      case (EStr b)
      then have "b = bytes_of_string s" by (auto simp: entry_of_string_def split: option.splits)
      with str EStr that [of LP_ENCODING_STRING None b] show ?thesis
        by (simp add: lpEncodeGetType_rep del: payload.simps)
    qed
  next
    case int
    with that [of LP_ENCODING_INT "Some (payload e)"] show ?thesis by (simp del: payload.simps)
  qed
qed

text \<open>
  Insertion on the buffer alone: the used part is \<open>a @ b\<close>, the entry goes between, and
  what is left is the update of the header.
\<close>

lemma lpInsert_sizes:
  assumes "valid_entry e" "n \<le> UINT32_MAX"
  shows "sub64 (n + length (payload e) + lpEncodeBacklenBytes (length (payload e))) 0 =
    n + length (entry_bytes e)"
  using assms valid_entry_size [of e] by (subst sub64_less) (auto simp: length_entry_bytes)

lemma lpInsert_splice_fail:
  assumes tot: "lpGetTotalBytes lp = Some n" "n \<le> UINT32_MAX"
    and arg: "lp_arg elestr eleint size' e" and v: "valid_entry e"
    and fail: "UINT32_MAX < n + length (entry_bytes e) \<or> new (n + length (entry_bytes e)) = None"
  shows "lpInsert new lp elestr eleint size' p LP_BEFORE = Some None"
  using arg
proof (cases rule: lp_arg_type)
  case (1 t ei s)
  have nd: "(elestr = None \<and> eleint = None) = False" using 1(3) by simp
  from fail show ?thesis
    using lpInsert_sizes [OF v tot(2)] entry_bytes_pos [of e] 1(1)
    by (elim disjE; simp add: lpInsert_def tot(1) lpEncodeBacklen_eq lpRealloc_None Let_def nd)
qed

lemma lpInsert_splice:
  assumes tot: "lpGetTotalBytes (a @ b @ slack) = Some (length (a @ b))" "b \<noteq> []"
    and new: "allocator_ok new" "new (length (a @ b) + length (entry_bytes e)) \<noteq> None"
    and arg: "lp_arg elestr eleint size' e" and v: "valid_entry e"
    and le: "length (a @ b) + length (entry_bytes e) \<le> UINT32_MAX"
  shows "lpInsert new (a @ b @ slack) elestr eleint size' (length a) LP_BEFORE =
    map_option (\<lambda>lp. Some (lp, Some (length a)))
      (lpInsert_header (a @ entry_bytes e @ b) False LP_BEFORE (length (a @ b) + length (entry_bytes e)))"
  using arg
proof (cases rule: lp_arg_type)
  case (1 t ei s)
  let ?k = "length (entry_bytes e)" and ?n = "length (payload e)"
  obtain blk where "new (length (a @ b) + ?k) = Some blk" using new(2) by auto
  from lpRealloc_Some [OF new(1) this, of "a @ b" slack] obtain j where j: "length j = ?k"
    "lpRealloc new (a @ b @ slack) (length (a @ b) + ?k) (length (a @ b)) = Some (Some (a @ b @ j))"
    by auto
  from memmove_open [OF j(1), of a b] obtain g where g: "length g = ?k"
    "memmove (a @ b @ j) (length a + ?k) (length a) (length b) = Some (a @ g @ b)" by auto
  from lpInsert_write_rep [OF g(1) refl 1(2), of a b]
  have w: "lpInsert_write (a @ g @ b) (length a) t elestr ei size' ?n (backlen_bytes ?n)
      (lpEncodeBacklenBytes ?n) = Some (a @ entry_bytes e @ b)" .
  have m: "memmove (a @ b @ j) (length a + ?n + lpEncodeBacklenBytes ?n) (length a) (length b) =
      Some (a @ g @ b)" using g(2) by (simp add: length_entry_bytes add.assoc)
  have nd: "(elestr = None \<and> eleint = None) = False" using 1(3) by simp
  have "sub64 (length (a @ b)) (length a) = length b" using le by (subst sub64_less) auto
  moreover obtain d where "rd (a @ g @ b) (length a) = Some d"
    using tot(2) by (cases "rd (a @ g @ b) (length a)") (auto simp: rd_def split: if_splits)
  moreover have "length (a @ b) \<le> UINT32_MAX" using le by simp
  ultimately show ?thesis
    using 1(1) tot(1) lpInsert_sizes [OF v, of "length (a @ b)"] entry_bytes_pos [of e] j(2) m w le
    by (cases "lpInsert_header (a @ entry_bytes e @ b) False LP_BEFORE (length (a @ b) + ?k)";
        simp add: lpInsert_def lpEncodeBacklen_eq Let_def nd)
qed

text \<open>The same on the represented list, before the entry with index \<open>i\<close> or at the end.\<close>

lemma lpInsert_before_fail:
  assumes "lp_rep lp es" "i \<le> length es" "lp_arg elestr eleint size' e" "valid_entry e"
    "UINT32_MAX < lp_size (insert_nth i e es) \<or> new (lp_size (insert_nth i e es)) = None"
  shows "lpInsert new lp elestr eleint size' p LP_BEFORE = Some None"
  using assms lpInsert_splice_fail [of lp "lp_size es" elestr eleint size' e new p]
  by (simp add: lp_rep_total lp_size_insert lp_rep_def)

lemma lpInsert_before:
  assumes rep: "lp_rep lp es" and i: "i \<le> length es"
    and arg: "lp_arg elestr eleint size' e" and v: "valid_entry e"
    and new: "allocator_ok new" "new (lp_size (insert_nth i e es)) \<noteq> None"
    and le: "lp_size (insert_nth i e es) \<le> UINT32_MAX"
  shows "\<exists>lp'. lpInsert new lp elestr eleint size' (lp_off es i) LP_BEFORE =
      Some (Some (lp', Some (lp_off es i))) \<and> lp_rep lp' (insert_nth i e es)"
proof -
  from rep obtain num slack where lp:
    "lp = (lp_header (lp_size es) num @ entries_bytes (take i es)) @
       (entries_bytes (drop i es) @ [LP_EOF]) @ slack"
    and num: "num = LP_HDR_NUMELE_UNKNOWN \<or> num = length es \<and> num < LP_HDR_NUMELE_UNKNOWN"
    by (rule lp_rep_split)
  define a where "a = lp_header (lp_size es) num @ entries_bytes (take i es)"
  define b where "b = entries_bytes (drop i es) @ [LP_EOF]"
  have la: "length a = lp_off es i" by (simp add: a_def lp_off_def)
  have "entries_bytes es = entries_bytes (take i es) @ entries_bytes (drop i es)"
    by (metis append_take_drop_id entries_bytes_simps(3))
  then have lab: "length (a @ b) = lp_size es" by (simp add: a_def b_def lp_size_def)
  have size: "lp_size (insert_nth i e es) = length (a @ b) + length (entry_bytes e)"
    using i lab by (simp add: lp_size_insert)
  have "lpInsert new (a @ b @ slack) elestr eleint size' (length a) LP_BEFORE =
      map_option (\<lambda>lp. Some (lp, Some (length a)))
        (lpInsert_header (a @ entry_bytes e @ b) False LP_BEFORE (length (a @ b) + length (entry_bytes e)))"
    using lp_rep_total [OF rep] lab arg v new le
    by (intro lpInsert_splice) (auto simp: size lp a_def b_def)
  moreover have "lpInsert_header (a @ entry_bytes e @ b) False LP_BEFORE (lp_size (insert_nth i e es)) =
      Some (lp_header (lp_size (insert_nth i e es))
        (if num \<noteq> LP_HDR_NUMELE_UNKNOWN then num + 1 else num) @
        entries_bytes (take i es) @ entry_bytes e @ entries_bytes (drop i es) @ [LP_EOF])"
    using num unfolding a_def b_def append.assoc by (subst lpInsert_header_rep) auto
  ultimately show ?thesis
    using lp_rep_insertI [OF rep i v num le] by (auto simp: lp a_def b_def size la [symmetric])
qed

lemma lpDelete_splice:
  assumes tot: "lpGetTotalBytes (a @ entry_bytes e @ b @ slack) = Some (length (a @ entry_bytes e @ b))"
    "LP_HEADER_SIZE \<le> length a" "b = d # b'" "length (a @ entry_bytes e @ b) \<le> UINT32_MAX"
    and new: "allocator_ok new" "new (length (a @ b)) \<noteq> None" and v: "valid_entry e"
  shows "lpDelete new (a @ entry_bytes e @ b @ slack) (length a) =
    map_option (\<lambda>lp. Some (lp, if d = LP_EOF then None else Some (length a)))
      (lpInsert_header (a @ b) True LP_REPLACE (length (a @ b)))"
proof -
  let ?lp = "a @ entry_bytes e @ b @ slack" and ?k = "length (entry_bytes e)" and ?n = "length (payload e)"
  obtain blk where blk: "new (length (a @ b)) = Some blk" using new(2) by auto
  obtain x where m: "memmove ?lp (length a) (length a + ?k) (length b) = Some (a @ b @ x)"
    using memmove_close [of a "entry_bytes e" b slack] by auto
  have r: "lpRealloc new (a @ b @ x) (length (a @ b)) (length (a @ b)) = Some (Some (a @ b))"
    using lpRealloc_Some [OF new(1) blk, of "a @ b" x] by auto
  have k: "(?n + lpEncodeBacklenBytes ?n) mod 4294967296 = ?k"
    using tot(4) by (simp add: length_entry_bytes)
  have "sub64 (length (a @ entry_bytes e @ b)) ?k = length (a @ b)"
    "sub64 (length (a @ entry_bytes e @ b)) (length a) = ?k + length b"
    "sub64 (?k + length b) ?k = length b"
    using tot(4) by (subst sub64_less; simp)+
  moreover have "lpCurrentEncodedSizeUnsafe ?lp (length a) = Some ?n"
    using size_unsafe_at [OF v, of a] by (simp add: entry_bytes_def)
  moreover have "ASSERT_INTEGRITY_LEN ?lp (length a) ?k = Some ()"
    using tot by (simp add: ASSERT_INTEGRITY_LEN_def)
  moreover have "rd (a @ b) (length a) = Some d" using tot(3) by simp
  ultimately show ?thesis
    using tot k m r entry_bytes_pos [of e]
    by (cases "lpInsert_header (a @ b) True LP_REPLACE (length (a @ b))";
        simp add: lpDelete_def lpInsert_def Let_def)
qed

lemma dec_mod: "0 < num \<Longrightarrow> num < 4294967296 \<Longrightarrow> (num + 4294967295) mod 4294967296 = num - (1::nat)"
  by (cases num) auto

lemma lpDelete_rep:
  assumes rep: "lp_rep lp es" and i: "i < length es"
    and new: "allocator_ok new" "new (lp_size (delete_nth i es)) \<noteq> None"
  shows "\<exists>lp'. lpDelete new lp (lp_off es i) =
      Some (Some (lp', if Suc i = length es then None else Some (lp_off es i))) \<and>
      lp_rep lp' (delete_nth i es)"
proof -
  from rep obtain num slack where lp:
    "lp = (lp_header (lp_size es) num @ entries_bytes (take i es)) @
       (entries_bytes (drop i es) @ [LP_EOF]) @ slack"
    and num: "num = LP_HDR_NUMELE_UNKNOWN \<or> num = length es \<and> num < LP_HDR_NUMELE_UNKNOWN"
    by (rule lp_rep_split)
  define a where "a = lp_header (lp_size es) num @ entries_bytes (take i es)"
  define b where "b = entries_bytes (drop (Suc i) es) @ [LP_EOF]"
  obtain d b' where b: "b = d # b'" unfolding b_def by (cases "entries_bytes (drop (Suc i) es)") auto
  have la: "length a = lp_off es i" by (simp add: a_def lp_off_def)
  have lp': "lp = a @ entry_bytes (es ! i) @ b @ slack"
    using i by (simp add: lp a_def b_def Cons_nth_drop_Suc [symmetric])
  have size: "length (a @ b) = lp_size (delete_nth i es)"
    by (simp add: a_def b_def lp_size_def delete_nth_def)
  have tot: "length (a @ entry_bytes (es ! i) @ b) = lp_size es"
    using size lp_size_delete [OF i] by simp
  have "es \<noteq> []" using i by auto
  have v: "valid_entry (es ! i)" using rep i by (simp add: lp_rep_def list_all_length)
  have d: "d = LP_EOF \<longleftrightarrow> Suc i = length es"
  proof -
    have "rd lp (lp_off es (Suc i)) = Some d"
      using i la by (simp add: lp' b lp_off_Suc add.assoc [symmetric] rd_append2)
    with lp_rep_eof [OF rep] lp_rep_not_eof [OF rep, of "Suc i"] i show ?thesis
      by (cases "Suc i = length es") auto
  qed
  have "lpDelete new lp (length a) =
      map_option (\<lambda>lp. Some (lp, if d = LP_EOF then None else Some (length a)))
        (lpInsert_header (a @ b) True LP_REPLACE (length (a @ b)))"
    unfolding lp'
  proof (rule lpDelete_splice [OF _ _ b _ new(1) _ v])
    show "new (length (a @ b)) \<noteq> None" unfolding size by (rule new(2))
  qed (use lp_rep_total [OF rep] tot rep la lp_off_ge_header [of es i] in
      \<open>simp_all add: lp' lp_rep_def del: length_append\<close>)
  moreover have "lpInsert_header (a @ b) True LP_REPLACE (lp_size (delete_nth i es)) =
      Some (lp_header (lp_size (delete_nth i es))
        (if num \<noteq> LP_HDR_NUMELE_UNKNOWN then num - 1 else num) @
        entries_bytes (take i es) @ entries_bytes (drop (Suc i) es) @ [LP_EOF])"
    using num i dec_mod [of num] \<open>es \<noteq> []\<close> unfolding a_def b_def append.assoc
    by (subst lpInsert_header_rep) auto
  ultimately show ?thesis
    using lp_rep_deleteI [OF rep i num] unfolding size la d by auto
qed

section \<open>Lists of strings\<close>

text \<open>
  The list commands push strings. A listpack that was filled by pushes represents a list
  of strings: entry \<open>i\<close> is the encoding of string \<open>i\<close>.
\<close>

definition lp_strings :: "byte list \<Rightarrow> string list \<Rightarrow> bool" where
  "lp_strings lp xs \<longleftrightarrow> lp_rep lp (map entry_of_string xs)"

definition strings_size :: "string list \<Rightarrow> nat" where
  "strings_size xs = lp_size (map entry_of_string xs)"

definition narrow_string :: "string \<Rightarrow> bool" where
  "narrow_string s \<longleftrightarrow> narrow_entry (entry_of_string s)"

lemma narrow_map [simp]: "narrow (map entry_of_string xs) \<longleftrightarrow> list_all narrow_string xs"
  by (simp add: list_all_iff narrow_string_def)

lemma lpNew_rep:
  assumes "allocator_ok new" "new (max 7 capacity) = Some blk"
  shows "\<exists>lp. lpNew new capacity = Some (Some lp) \<and> lp_strings lp []"
proof -
  have "length blk = max 7 capacity" using assms by (simp add: allocator_ok_def)
  then have len: "7 \<le> length blk" by simp
  then obtain b0 b1 b2 b3 b4 b5 b6 r where blk: "blk = b0 # b1 # b2 # b3 # b4 # b5 # b6 # r"
    by (auto simp: Suc_le_length_iff numeral_eq_Suc)
  have cap: "(if LP_HEADER_SIZE + 1 < capacity then capacity else LP_HEADER_SIZE + 1) = max 7 capacity"
    by auto
  have "lpNew new capacity = Some (Some (lp_header 7 0 @ LP_EOF # r))"
    unfolding lpNew_def Let_def cap assms(2) blk
    by (simp add: lpSetTotalBytes_def lpSetNumElements_def lp_header_def and_0xff)
  moreover have "lp_rep (lp_header 7 0 @ LP_EOF # r) []"
    by (auto simp: lp_rep_def lp_layout_def lp_size_def)
  ultimately show ?thesis by (auto simp: lp_strings_def)
qed

lemma lpNew_fail: "new (max 7 capacity) = None \<Longrightarrow> lpNew new capacity = Some None"
  by (auto simp: lpNew_def Let_def max_def split: if_splits)

lemma lp_arg_string: "lp_arg (Some (bytes_of_string s)) None (length s) (entry_of_string s)"
  by (auto simp: lp_arg_def)

lemma insert_nth_end: "insert_nth (length xs) x xs = xs @ [x]"
  by (simp add: insert_nth_def)

lemma insert_nth_0: "insert_nth 0 x xs = x # xs"
  by (simp add: insert_nth_def)

lemma lpAppend_strings:
  assumes "lp_strings lp xs" "length s + 5 < 4294967296" "allocator_ok new"
  shows "if strings_size (xs @ [s]) \<le> UINT32_MAX \<and> new (strings_size (xs @ [s])) \<noteq> None
    then \<exists>lp'. lpAppend new lp (bytes_of_string s) (length s) = Some (Some lp') \<and> lp_strings lp' (xs @ [s])
    else lpAppend new lp (bytes_of_string s) (length s) = Some None"
proof -
  let ?es = "map entry_of_string xs"
  have rep: "lp_rep lp ?es" using assms(1) by (simp add: lp_strings_def)
  have e: "insert_nth (length ?es) (entry_of_string s) ?es = map entry_of_string (xs @ [s])"
    by (simp only: insert_nth_end map_append list.map)
  have off: "lp_size ?es - Suc 0 = lp_off ?es (length xs)" "lp_size ?es \<noteq> 0"
    by (simp_all add: lp_off_end)
  note v = valid_entry_of_string [OF assms(2)]
  show ?thesis
  proof (cases "strings_size (xs @ [s]) \<le> UINT32_MAX \<and> new (strings_size (xs @ [s])) \<noteq> None")
    case True
    with lpInsert_before [OF rep order_refl lp_arg_string v assms(3)] show ?thesis
      unfolding e strings_size_def lp_strings_def by (auto simp: lpAppend_def lp_rep_total [OF rep] off)
  next
    case False
    with lpInsert_before_fail [OF rep order_refl lp_arg_string v] show ?thesis
      unfolding e strings_size_def by (auto simp: lpAppend_def lp_rep_total [OF rep] off)
  qed
qed

lemma lpPrepend_strings:
  assumes "lp_strings lp xs" "length s + 5 < 4294967296" "allocator_ok new"
    "xs \<noteq> [] \<Longrightarrow> narrow_string (hd xs)"
  shows "if strings_size (s # xs) \<le> UINT32_MAX \<and> new (strings_size (s # xs)) \<noteq> None
    then \<exists>lp'. lpPrepend new lp (bytes_of_string s) (length s) = Some (Some lp') \<and> lp_strings lp' (s # xs)
    else lpPrepend new lp (bytes_of_string s) (length s) = Some None"
proof (cases xs)
  case Nil
  then have "lpFirst lp = Some None"
    using assms(1) lpFirst_rep [of lp "[]"] by (simp add: lp_strings_def lp_ptr_def)
  with lpAppend_strings [OF assms(1-3)] Nil show ?thesis by (auto simp: lpPrepend_def)
next
  case (Cons y ys)
  let ?es = "map entry_of_string xs"
  have rep: "lp_rep lp ?es" using assms(1) by (simp add: lp_strings_def)
  have e: "insert_nth 0 (entry_of_string s) ?es = map entry_of_string (s # xs)"
    by (simp add: insert_nth_0)
  have first: "lpFirst lp = Some (Some (lp_off ?es 0))"
    using assms(4) Cons by (subst lpFirst_rep [OF rep]) (auto simp: lp_ptr_def narrow_string_def)
  note v = valid_entry_of_string [OF assms(2)]
  show ?thesis
  proof (cases "strings_size (s # xs) \<le> UINT32_MAX \<and> new (strings_size (s # xs)) \<noteq> None")
    case True
    with lpInsert_before [OF rep le0 lp_arg_string v assms(3)] show ?thesis
      unfolding e strings_size_def lp_strings_def by (auto simp: lpPrepend_def first)
  next
    case False
    with lpInsert_before_fail [OF rep le0 lp_arg_string v] show ?thesis
      unfolding e strings_size_def by (auto simp: lpPrepend_def first)
  qed
qed

lemma lp_strings_value:
  "lp_strings lp xs \<Longrightarrow> i < length xs \<Longrightarrow>
     lp_value_string lp (lp_off (map entry_of_string xs) i) = Some (xs ! i)"
  using lp_value_string_at [of lp "map entry_of_string xs" i] by (simp add: lp_strings_def)

text \<open>Entry \<open>i\<close>, reached by \<open>lpSeek\<close> with any index that denotes it, reads back as string \<open>i\<close>.\<close>

lemma lpSeek_strings:
  assumes "lp_strings lp xs" "list_all narrow_string xs"
  shows "(case seek_index (length xs) index of
      None \<Rightarrow> lpSeek lp index = Some None
    | Some i \<Rightarrow> (\<exists>p. lpSeek lp index = Some (Some p) \<and> lp_value_string lp p = Some (xs ! i)))"
proof -
  have "lpSeek lp index = Some (map_option (lp_off (map entry_of_string xs)) (seek_index (length xs) index))"
    using lpSeek_rep [of lp "map entry_of_string xs" index] assms by (simp add: lp_strings_def)
  then show ?thesis
    using lp_strings_value [OF assms(1)]
    by (auto simp: seek_index_def Let_def split: option.splits if_splits)
qed

lemma lpLength_strings:
  "lp_strings lp xs \<Longrightarrow> list_all narrow_string xs \<Longrightarrow>
     \<exists>lp'. lpLength lp = Some (length xs, lp') \<and> lp_strings lp' xs"
  using lpLength_rep [of lp "map entry_of_string xs"] by (simp add: lp_strings_def)

end
