(* ===== verification/List_Store.thy ===== *)
theory List_Store
  imports Listpack_Edit
begin

text \<open>
  The interface between the list commands and the listpack: a representation of a list of
  strings with a push at either end and a pop from the front. The loops of \<open>handle_push\<close>
  (\<open>src/src/db/PUSH/push_db.cpp\<close>) and \<open>handle_lpop\<close> (\<open>src/src/db/LPOP/lpop_db.cpp\<close>) are
  defined over one step of the store; inside the locale \<open>string_list\<close> they are shown to
  append, to prepend in reverse and to take from the front, and so to be a queue and a
  stack. The listpack is the interpretation.
\<close>

section \<open>The loops of the list commands\<close>

text \<open>
  A push gives the new list or the null pointer; using the null pointer again is a fault.
\<close>

fun push_loop :: "('l \<Rightarrow> string \<Rightarrow> 'l option option) \<Rightarrow> 'l option \<Rightarrow> string list \<Rightarrow> 'l option option" where
  "push_loop push l [] = Some l"
| "push_loop push None (v # vs) = None"
| "push_loop push (Some l) (v # vs) = do { l' \<leftarrow> push l v; push_loop push l' vs }"

text \<open>\<open>while (total_count > 0)\<close> of \<open>handle_lpop\<close>: the values popped and the list left.\<close>

fun pop_loop ::
  "('l \<Rightarrow> (string \<times> 'l option) option option) \<Rightarrow> nat \<Rightarrow> 'l option \<Rightarrow> string list \<Rightarrow>
     (string list \<times> 'l option) option" where
  "pop_loop pop 0 l result = Some (result, l)"
| "pop_loop pop (Suc n) None result = None"
| "pop_loop pop (Suc n) (Some l) result = do {
     r \<leftarrow> pop l;
     (case r of
        None \<Rightarrow> Some (result, Some l)
      | Some (v, l') \<Rightarrow> pop_loop pop n l' (result @ [v])) }"

text \<open>One value through \<open>append_to_existing_list\<close>: \<open>lpAppend\<close> or \<open>lpPrepend\<close>.\<close>

definition lp_push :: "bool \<Rightarrow> allocator \<Rightarrow> byte list \<Rightarrow> string \<Rightarrow> byte list option option" where
  "lp_push is_prepend new lp value =
     (let value_len = length value mod 4294967296
      in if is_prepend then lpPrepend new lp (bytes_of_string value) value_len
         else lpAppend new lp (bytes_of_string value) value_len)"

text \<open>One round of the loop of \<open>handle_lpop\<close>.\<close>

definition lp_pop :: "allocator \<Rightarrow> byte list \<Rightarrow> (string \<times> byte list option) option option" where
  "lp_pop new lp = do {
     p \<leftarrow> lpFirst lp;
     (case p of
        None \<Rightarrow> Some None
      | Some p \<Rightarrow> do {
          v \<leftarrow> lp_value_string lp p;
          r \<leftarrow> lp_only (lpDelete new lp p);
          Some (Some (v, r)) }) }"

section \<open>The contract\<close>

locale string_list =
  fixes rep :: "'l \<Rightarrow> string list \<Rightarrow> bool"
    and fits :: "'a \<Rightarrow> string list \<Rightarrow> bool"
    and push_back :: "'a \<Rightarrow> 'l \<Rightarrow> string \<Rightarrow> 'l option option"
    and push_front :: "'a \<Rightarrow> 'l \<Rightarrow> string \<Rightarrow> 'l option option"
    and pop_front :: "'a \<Rightarrow> 'l \<Rightarrow> (string \<times> 'l option) option option"
  assumes fits_appendD: "fits a (xs @ ys) \<Longrightarrow> fits a xs \<and> fits a ys"
    and push_back_rep: "rep l xs \<Longrightarrow> fits a (xs @ [s]) \<Longrightarrow>
      \<exists>l'. push_back a l s = Some (Some l') \<and> rep l' (xs @ [s])"
    and push_front_rep: "rep l xs \<Longrightarrow> fits a (s # xs) \<Longrightarrow>
      \<exists>l'. push_front a l s = Some (Some l') \<and> rep l' (s # xs)"
    and pop_front_Cons: "rep l (x # xs) \<Longrightarrow> fits a (x # xs) \<Longrightarrow>
      \<exists>l'. pop_front a l = Some (Some (x, Some l')) \<and> rep l' xs"
    and pop_front_Nil: "rep l [] \<Longrightarrow> pop_front a l = Some None"
begin

lemma push_back_loop:
  "rep l xs \<Longrightarrow> fits a (xs @ vs) \<Longrightarrow>
     \<exists>l'. push_loop (push_back a) (Some l) vs = Some (Some l') \<and> rep l' (xs @ vs)"
proof (induction vs arbitrary: l xs)
  case (Cons v vs)
  from Cons.prems(2) have "fits a (xs @ [v])" using fits_appendD [of a "xs @ [v]" vs] by simp
  with Cons.prems(1) obtain l' where "push_back a l v = Some (Some l')" "rep l' (xs @ [v])"
    using push_back_rep by blast
  with Cons.IH [of l' "xs @ [v]"] Cons.prems(2) show ?case by simp
qed simp

lemma push_front_loop:
  "rep l xs \<Longrightarrow> fits a (rev vs @ xs) \<Longrightarrow>
     \<exists>l'. push_loop (push_front a) (Some l) vs = Some (Some l') \<and> rep l' (rev vs @ xs)"
proof (induction vs arbitrary: l xs)
  case (Cons v vs)
  from Cons.prems(2) have "fits a (v # xs)" using fits_appendD [of a "rev vs" "v # xs"] by simp
  with Cons.prems(1) obtain l' where "push_front a l v = Some (Some l')" "rep l' (v # xs)"
    using push_front_rep by blast
  with Cons.IH [of l' "v # xs"] Cons.prems(2) show ?case by simp
qed simp

lemma pop_loop_rep:
  "rep l xs \<Longrightarrow> fits a xs \<Longrightarrow>
     \<exists>l'. pop_loop (pop_front a) n (Some l) acc = Some (acc @ take n xs, Some l') \<and> rep l' (drop n xs)"
proof (induction n arbitrary: l xs acc)
  case (Suc n)
  show ?case
  proof (cases xs)
    case Nil
    with Suc.prems pop_front_Nil [of l a] show ?thesis by auto
  next
    case (Cons y ys)
    with Suc.prems obtain l' where l': "pop_front a l = Some (Some (y, Some l'))" "rep l' ys"
      using pop_front_Cons by blast
    have "fits a ys" using fits_appendD [of a "[y]" ys] Suc.prems(2) Cons by simp
    with Suc.IH [OF l'(2), of "acc @ [y]"] l'(1) Cons show ?thesis by simp
  qed
qed simp

text \<open>Pushes at the back and pops from the front make a queue, pushes at the front a stack.\<close>

lemma queue:
  assumes "rep l []" "fits a vs"
  shows "\<exists>l' l''. push_loop (push_back a) (Some l) vs = Some (Some l') \<and>
    pop_loop (pop_front a) (length vs) (Some l') [] = Some (vs, Some l'') \<and> rep l'' []"
proof -
  obtain l' where l': "push_loop (push_back a) (Some l) vs = Some (Some l')" "rep l' vs"
    using push_back_loop [OF assms(1), of a vs] assms(2) by auto
  with pop_loop_rep [OF l'(2) assms(2), of "length vs" "[]"] show ?thesis by auto
qed

lemma stack:
  assumes "rep l []" "fits a (rev vs)"
  shows "\<exists>l' l''. push_loop (push_front a) (Some l) vs = Some (Some l') \<and>
    pop_loop (pop_front a) (length vs) (Some l') [] = Some (rev vs, Some l'') \<and> rep l'' []"
proof -
  obtain l' where l': "push_loop (push_front a) (Some l) vs = Some (Some l')" "rep l' (rev vs)"
    using push_front_loop [OF assms(1), of a vs] assms(2) by auto
  with pop_loop_rep [OF l'(2) assms(2), of "length vs" "[]"] show ?thesis by auto
qed

end

section \<open>The listpack provides it\<close>

text \<open>
  What a listpack can hold: at most 32 bits of total size, no integer wider than 32 bits
  (the asserts of \<open>lpFirst\<close> and \<open>lpNext\<close> reject those), and an allocator that serves every
  size of that range.
\<close>

definition lp_fits :: "allocator \<Rightarrow> string list \<Rightarrow> bool" where
  "lp_fits new xs \<longleftrightarrow> allocator_ok new \<and> (\<forall>n \<le> UINT32_MAX. new n \<noteq> None) \<and>
     strings_size xs \<le> UINT32_MAX \<and> list_all narrow_string xs"

lemma strings_size_append:
  "strings_size (xs @ ys) + 7 = strings_size xs + strings_size ys"
  by (simp add: strings_size_def lp_size_def)

lemma strings_size_ge: "7 \<le> strings_size xs"
  by (simp add: strings_size_def lp_size_def)

lemma length_le_payload: "length s \<le> length (payload (entry_of_string s)) + 20"
proof (cases "lpStringToInt64 s")
  case None
  then show ?thesis by (simp add: entry_of_string_def)
next
  case (Some v)
  then have "length s < 21" by (auto simp: lpStringToInt64_def split: if_splits)
  then show ?thesis by simp
qed

lemma lp_fits_length: "lp_fits new (xs @ [s] @ ys) \<Longrightarrow> length s + 5 < 4294967296"
proof -
  assume "lp_fits new (xs @ [s] @ ys)"
  then have "strings_size [s] \<le> UINT32_MAX"
    using strings_size_append [of xs "[s] @ ys"] strings_size_append [of "[s]" ys]
      strings_size_ge [of xs] strings_size_ge [of ys] by (simp add: lp_fits_def)
  then have "length (payload (entry_of_string s)) + 8 \<le> UINT32_MAX"
    using lpEncodeBacklenBytes_bounds [of "length (payload (entry_of_string s))"]
    by (simp add: strings_size_def lp_size_def length_entry_bytes)
  show ?thesis
  proof (cases "lpStringToInt64 s")
    case None
    with \<open>length (payload (entry_of_string s)) + 8 \<le> UINT32_MAX\<close> show ?thesis
      by (simp add: entry_of_string_def str_header_length split: if_splits)
  next
    case (Some v)
    then have "length s < 21" by (auto simp: lpStringToInt64_def split: if_splits)
    then show ?thesis by simp
  qed
qed

lemma lp_pop_Cons:
  assumes "lp_strings lp (x # xs)" "lp_fits new (x # xs)"
  shows "\<exists>lp'. lp_pop new lp = Some (Some (x, Some lp')) \<and> lp_strings lp' xs"
proof -
  let ?es = "map entry_of_string (x # xs)"
  have rep: "lp_rep lp ?es" using assms(1) by (simp add: lp_strings_def)
  have del: "delete_nth 0 ?es = map entry_of_string xs" by (simp add: delete_nth_def)
  have "lpFirst lp = Some (Some (lp_off ?es 0))"
    using assms(2) by (subst lpFirst_rep [OF rep]) (auto simp: lp_ptr_def lp_fits_def narrow_string_def)
  moreover have "lp_value_string lp (lp_off ?es 0) = Some x"
    using lp_strings_value [OF assms(1), of 0] by simp
  moreover have "\<exists>lp' q. lpDelete new lp (lp_off ?es 0) = Some (Some (lp', q)) \<and> lp_strings lp' xs"
  proof -
    have "strings_size xs \<le> UINT32_MAX"
      using strings_size_append [of "[x]" xs] strings_size_ge [of "[x]"] assms(2)
      by (simp add: lp_fits_def)
    then have "new (lp_size (delete_nth 0 ?es)) \<noteq> None" "allocator_ok new"
      using assms(2) unfolding del strings_size_def [symmetric] by (auto simp: lp_fits_def)
    from lpDelete_rep [OF rep _ this(2,1)] show ?thesis
      by (auto simp: del lp_strings_def simp del: list.map)
  qed
  ultimately show ?thesis by (auto simp: lp_pop_def)
qed

interpretation lp: string_list lp_strings lp_fits "lp_push False" "lp_push True" lp_pop
proof
  show "lp_fits new xs \<and> lp_fits new ys" if "lp_fits new (xs @ ys)" for new xs ys
    using that strings_size_append [of xs ys] strings_size_ge [of xs] strings_size_ge [of ys]
    by (simp add: lp_fits_def)
next
  fix lp xs new s
  assume a: "lp_strings lp xs" "lp_fits new (xs @ [s])"
  then have "length s + 5 < 4294967296" using lp_fits_length [of new xs s "[]"] by simp
  with lpAppend_strings [OF a(1) this, of new] a(2)
  show "\<exists>l'. lp_push False new lp s = Some (Some l') \<and> lp_strings l' (xs @ [s])"
    by (auto simp: lp_fits_def lp_push_def Let_def)
next
  fix lp xs new s
  assume a: "lp_strings lp xs" "lp_fits new (s # xs)"
  then have "length s + 5 < 4294967296" using lp_fits_length [of new "[]" s xs] by simp
  with lpPrepend_strings [OF a(1) this, of new] a(2)
  show "\<exists>l'. lp_push True new lp s = Some (Some l') \<and> lp_strings l' (s # xs)"
    by (auto simp: lp_fits_def lp_push_def Let_def list_all_iff)
next
  fix lp new
  assume "lp_strings lp []"
  then show "lp_pop new lp = Some None"
    using lpFirst_rep [of lp "[]"] by (simp add: lp_pop_def lp_strings_def lp_ptr_def)
qed (rule lp_pop_Cons)

end
