(* ===== verification/Std_Map.thy ===== *)
theory Std_Map
  imports Prelude
begin

text \<open>
  \<open>std::map\<close> as the association list of its elements in key order, with the three
  operations the sources use to change one. Iteration order is list order.
\<close>

type_synonym ('k, 'v) std_map = "('k \<times> 'v) list"

text \<open>\<open>m[k] = v\<close>\<close>

fun map_put :: "'k::linorder \<Rightarrow> 'v \<Rightarrow> ('k, 'v) std_map \<Rightarrow> ('k, 'v) std_map" where
  "map_put k v [] = [(k, v)]"
| "map_put k v ((k', v') # m) =
     (if k < k' then (k, v) # (k', v') # m
      else if k = k' then (k, v) # m
      else (k', v') # map_put k v m)"

text \<open>\<open>m.emplace(k, v)\<close>: no change when the key is there.\<close>

definition map_emplace :: "'k::linorder \<Rightarrow> 'v \<Rightarrow> ('k, 'v) std_map \<Rightarrow> ('k, 'v) std_map" where
  "map_emplace k v m = (if k \<in> fst ` set m then m else map_put k v m)"

text \<open>\<open>m.erase(it)\<close>\<close>

definition map_erase :: "'k \<Rightarrow> ('k, 'v) std_map \<Rightarrow> ('k, 'v) std_map" where
  "map_erase k m = filter (\<lambda>(k', v). k' \<noteq> k) m"

abbreviation map_ok :: "('k::linorder, 'v) std_map \<Rightarrow> bool" where
  "map_ok m \<equiv> sorted_wrt (<) (map fst m)"

section \<open>Lemmas\<close>

lemma map_put_fst: "fst ` set (map_put k v m) = insert k (fst ` set m)"
  by (induction m rule: map_put.induct) auto

lemma map_put_set:
  "map_ok m \<Longrightarrow> set (map_put k v m) = insert (k, v) {(k', v') \<in> set m. k' \<noteq> k}"
  by (induction m rule: map_put.induct) (auto simp: image_iff)

lemma map_put_ok: "map_ok m \<Longrightarrow> map_ok (map_put k v m)"
proof (induction m rule: map_put.induct)
  case (2 k v k' v' m)
  have "fst ` set (map_put k v m) = insert k (fst ` set m)" by (rule map_put_fst)
  with 2 show ?case by (auto simp: image_iff)
qed simp

lemma map_erase_ok: "map_ok m \<Longrightarrow> map_ok (map_erase k m)"
  by (induction m) (auto simp: map_erase_def)

lemma map_of_map_put: "map_ok m \<Longrightarrow> map_of (map_put k v m) = (map_of m)(k \<mapsto> v)"
  by (induction m rule: map_put.induct) auto

lemma map_of_map_erase: "map_of (map_erase k m) = (map_of m)(k := None)"
  by (induction m) (auto simp: map_erase_def)

lemma map_erase_id: "k \<notin> fst ` set m \<Longrightarrow> map_erase k m = m"
  by (induction m) (auto simp: map_erase_def)

text \<open>A key strictly between two parts of a map lands between them.\<close>

lemma map_put_between:
  assumes "\<forall>x \<in> fst ` set xs. x < k" "\<forall>y \<in> fst ` set ys. k < y"
  shows "map_put k v (xs @ ys) = xs @ (k, v) # ys"
  using assms
proof (induction xs)
  case Nil
  then show ?case by (cases ys) auto
qed auto

lemma map_put_replace:
  assumes "\<forall>x \<in> fst ` set xs. x < k"
  shows "map_put k v (xs @ (k, w) # ys) = xs @ (k, v) # ys"
  using assms by (induction xs) auto

text \<open>A map is determined by its bindings.\<close>

lemma map_ok_distinct: "map_ok m \<Longrightarrow> distinct (map fst m)"
  by (simp add: strict_sorted_iff)

lemma map_ok_unique:
  assumes "map_ok m" "map_ok m'" "map_of m = map_of m'"
  shows "m = m'"
proof -
  have "set m = set m'"
    using assms by (metis map_ok_distinct map_of_inject_set)
  moreover have "sorted (map fst m)" "sorted (map fst m')"
    using assms(1,2) by (simp_all add: strict_sorted_iff)
  ultimately show ?thesis
    using assms(1,2) map_ok_distinct
    by (intro map_sorted_distinct_set_unique [of fst]) (auto simp: distinct_map)
qed


end
