(* ===== verification/RadixTree.thy ===== *)
theory RadixTree
  imports Std_Map "HOL-Library.Sublist"
begin

text \<open>
  \<open>src/src/radix-tree.h\<close> and \<open>src/src/radix-tree.cpp\<close>: the index of a stream. The order on
  keys is that of \<open>std::string\<close>: lexicographic on unsigned bytes. The theorems relate the
  tree to the list of its bindings: \<open>insert\<close> updates the finite map, \<open>search\<close> reads it, and
  \<open>rangeSearch\<close>, with its pruning, returns exactly the bindings of the interval in key order.
\<close>

section \<open>Definitions\<close>

datatype RadixTreeNode =
  RadixTreeNode (data: string) (children: "(string \<times> RadixTreeNode) list") (isDataPresent: bool)

definition empty_node :: RadixTreeNode where
  "empty_node = RadixTreeNode '''' [] False"

definition leaf :: "string \<Rightarrow> RadixTreeNode" where
  "leaf v = RadixTreeNode v [] True"

fun matchedLength :: "string \<Rightarrow> string \<Rightarrow> nat" where
  "matchedLength (x # new_key) (y # existing_key) =
     (if x \<noteq> y then 0 else Suc (matchedLength new_key existing_key))"
| "matchedLength _ _ = 0"

text \<open>The loop of \<open>insertImpl\<close> that looks for the longest match, with its early exit.\<close>

fun best_match ::
  "string \<Rightarrow> (string \<times> 'n) list \<Rightarrow> nat \<Rightarrow> (string \<times> 'n) option \<Rightarrow> nat \<times> (string \<times> 'n) option" where
  "best_match key [] bestMatchedLength best_it = (bestMatchedLength, best_it)"
| "best_match key ((k, c) # cs) bestMatchedLength best_it =
     (let len = matchedLength key k
      in if bestMatchedLength < len
         then (if len = length key then (len, Some (k, c)) else best_match key cs len (Some (k, c)))
         else best_match key cs bestMatchedLength best_it)"

text \<open>The node that replaces a child whose key is longer than the match.\<close>

definition split_node :: "string \<Rightarrow> string \<Rightarrow> RadixTreeNode \<Rightarrow> nat \<Rightarrow> string \<Rightarrow> RadixTreeNode" where
  "split_node key old_key old_child n v =
     (let cs = map_emplace (drop n old_key) old_child []
      in if n = length key then RadixTreeNode v cs True
         else RadixTreeNode '''' (map_emplace (drop n key) (leaf v) cs) False)"

function insertImpl :: "RadixTreeNode \<Rightarrow> string \<Rightarrow> string \<Rightarrow> RadixTreeNode" where
  "insertImpl (RadixTreeNode d cs p) key v =
     (if key = [] then RadixTreeNode v cs True
      else case best_match key cs 0 None of
        (n, best_it) \<Rightarrow>
          if n = 0 then RadixTreeNode d (map_put key (leaf v) cs) p
          else (case best_it of
              None \<Rightarrow> RadixTreeNode d (map_put key (leaf v) cs) p
            | Some (k, c) \<Rightarrow>
                if n = length k
                then RadixTreeNode d (map_put k (insertImpl c (drop n key) v) cs) p
                else RadixTreeNode d
                  (map_emplace (take n key) (split_node key k c n v) (map_erase k cs)) p))"
  by pat_completeness auto
termination
  by (relation "measure (\<lambda>(node, key, v). length key)") auto

declare insertImpl.simps [simp del]

text \<open>\<open>RadixTree\<close> holds a pointer to the root, null before the first insertion.\<close>

definition insert_tree :: "RadixTreeNode option \<Rightarrow> string \<Rightarrow> string \<Rightarrow> RadixTreeNode option" where
  "insert_tree root key v =
     Some (insertImpl (case root of None \<Rightarrow> empty_node | Some r \<Rightarrow> r) key v)"

text \<open>The loop of \<open>search\<close>; a child matches when its key is a prefix of what remains.\<close>

lemma child_size: "(k, c) \<in> set (children node) \<Longrightarrow> size c < size node"
  by (cases node) (auto simp: less_Suc_eq_le intro: size_list_estimation')

lemma find_in_set: "find P xs = Some x \<Longrightarrow> P x \<and> x \<in> set xs"
  by (induction xs) (auto split: if_splits)

lemma find_child_size: "find P (children node) = Some (k, c) \<Longrightarrow> size c < size node"
  by (rule child_size [of k]) (simp add: find_in_set)

function search_loop :: "RadixTreeNode \<Rightarrow> string \<Rightarrow> string" where
  "search_loop node remaining_key =
     (if remaining_key = [] then (if isDataPresent node then data node else '''')
      else case find (\<lambda>(k, c). matchedLength remaining_key k = length k) (children node) of
        None \<Rightarrow> ''''
      | Some (k, c) \<Rightarrow> search_loop c (drop (matchedLength remaining_key k) remaining_key))"
  by pat_completeness auto
termination
  by (relation "measure (\<lambda>(node, key). size node)") (auto intro: find_child_size)

declare search_loop.simps [simp del]

definition search_tree :: "RadixTreeNode option \<Rightarrow> string \<Rightarrow> string" where
  "search_tree root key = (case root of None \<Rightarrow> '''' | Some node \<Rightarrow> search_loop node key)"

text \<open>
  \<open>rangeSearchImpl\<close> and its loop over the children: an early \<open>return\<close> drops the rest.
\<close>

fun rangeSearchImpl ::
  "string \<Rightarrow> string \<Rightarrow> (string \<times> string) list \<Rightarrow> RadixTreeNode \<Rightarrow> string \<Rightarrow> bool \<Rightarrow> (string \<times> string) list"
and rangeSearch_children ::
  "string \<Rightarrow> string \<Rightarrow> (string \<times> string) list \<Rightarrow> (string \<times> RadixTreeNode) list \<Rightarrow> string \<Rightarrow> bool \<Rightarrow>
     (string \<times> string) list" where
  "rangeSearchImpl startKey endKey result (RadixTreeNode d cs p) currentKey isExclusive =
     rangeSearch_children startKey endKey
       (if p \<and> startKey \<le> currentKey \<and> currentKey \<le> endKey \<and> \<not> (isExclusive \<and> currentKey = startKey)
        then result @ [(currentKey, d)] else result)
       cs currentKey isExclusive"
| "rangeSearch_children startKey endKey result [] currentKey isExclusive = result"
| "rangeSearch_children startKey endKey result ((key, child) # cs) currentKey isExclusive =
     (let newKey = currentKey @ key in
      if endKey < newKey then result
      else
        let isPrefixStillExists =
          (length newKey \<le> length startKey \<and> take (length newKey) startKey = newKey)
        in if newKey \<le> startKey \<and> \<not> isPrefixStillExists
           then rangeSearch_children startKey endKey result cs currentKey isExclusive
           else rangeSearch_children startKey endKey
             (rangeSearchImpl startKey endKey result child newKey isExclusive) cs currentKey isExclusive)"

definition rangeSearch ::
  "RadixTreeNode option \<Rightarrow> string \<Rightarrow> string \<Rightarrow> (string \<times> string) list \<Rightarrow> bool \<Rightarrow> (string \<times> string) list" where
  "rangeSearch root startKey endKey result isExclusive =
     (case root of
        None \<Rightarrow> result
      | Some node \<Rightarrow> rangeSearchImpl startKey endKey result node '''' isExclusive)"

section \<open>Bindings and invariant\<close>

text \<open>The bindings of a tree, in the order of a depth-first walk.\<close>

fun entries :: "RadixTreeNode \<Rightarrow> (string \<times> string) list" where
  "entries (RadixTreeNode d cs p) =
     (if p then [([], d)] else []) @
     concat (map (\<lambda>x. map (\<lambda>(s, v). (fst x @ s, v)) (entries (snd x))) cs)"

definition entries_cs :: "(string \<times> RadixTreeNode) list \<Rightarrow> (string \<times> string) list" where
  "entries_cs cs = concat (map (\<lambda>x. map (\<lambda>(s, v). (fst x @ s, v)) (entries (snd x))) cs)"

lemma entries_node: "entries (RadixTreeNode d cs p) = (if p then [([], d)] else []) @ entries_cs cs"
  by (simp add: entries_cs_def)

text \<open>Edges are not empty and those of a node differ in their first character, in order.\<close>

abbreviation hd_less :: "string \<times> 'n \<Rightarrow> string \<times> 'n \<Rightarrow> bool" where
  "hd_less x y \<equiv> hd (fst x) < hd (fst y)"

fun radix_inv :: "RadixTreeNode \<Rightarrow> bool" where
  "radix_inv (RadixTreeNode d cs p) \<longleftrightarrow>
     sorted_wrt hd_less cs \<and> list_all (\<lambda>x. fst x \<noteq> [] \<and> radix_inv (snd x)) cs"

declare entries.simps [simp del] radix_inv.simps [simp del]

abbreviation edges_ok :: "(string \<times> 'n) list \<Rightarrow> bool" where
  "edges_ok cs \<equiv> sorted_wrt hd_less cs \<and> list_all (\<lambda>x. fst x \<noteq> []) cs"

lemma radix_inv_node:
  "radix_inv (RadixTreeNode d cs p) \<longleftrightarrow> edges_ok cs \<and> list_all (\<lambda>x. radix_inv (snd x)) cs"
  by (auto simp: radix_inv.simps list_all_iff)

section \<open>Strings in lexicographic order\<close>

lemma Nil_less: "[] < (xs :: string) \<longleftrightarrow> xs \<noteq> []"
  by (cases xs) auto

lemma le_append: "(xs :: string) \<le> xs @ ys"
  by (induction xs) auto

lemma append_less_append [simp]: "(xs :: string) @ ys < xs @ zs \<longleftrightarrow> ys < zs"
  by (induction xs) auto

lemma hd_less_append: "(k :: string) \<noteq> [] \<Longrightarrow> k' \<noteq> [] \<Longrightarrow> hd k < hd k' \<Longrightarrow> k @ s < k' @ t"
  by (cases k; cases k') auto

lemma less_not_prefix: "(k :: string) < s \<Longrightarrow> \<not> prefix k s \<Longrightarrow> k @ t < s"
proof (induction k arbitrary: s)
  case (Cons c k)
  then show ?case by (cases s) auto
qed simp

lemma prefix_take: "(length k \<le> length s \<and> take (length k) s = k) \<longleftrightarrow> prefix k s"
  by (metis append_take_drop_id prefix_def append_eq_conv_conj le_add1 length_append)

section \<open>Matching\<close>

lemma matchedLength_le: "matchedLength a b \<le> length a \<and> matchedLength a b \<le> length b"
  by (induction a b rule: matchedLength.induct) auto

lemma matchedLength_take: "take (matchedLength a b) a = take (matchedLength a b) b"
  by (induction a b rule: matchedLength.induct) auto

lemma matchedLength_prefix: "matchedLength a b = length b \<longleftrightarrow> prefix b a"
  by (induction a b rule: matchedLength.induct) auto

lemma matchedLength_pos: "a \<noteq> [] \<Longrightarrow> b \<noteq> [] \<Longrightarrow> 0 < matchedLength a b \<longleftrightarrow> hd a = hd b"
  by (cases a; cases b) auto

lemma matchedLength_diff:
  "matchedLength a b < length a \<Longrightarrow> matchedLength a b < length b \<Longrightarrow>
     hd (drop (matchedLength a b) a) \<noteq> hd (drop (matchedLength a b) b)"
  by (induction a b rule: matchedLength.induct) auto

text \<open>With distinct first characters at most one edge matches, and the loop finds it.\<close>

lemma best_match_none:
  "list_all (\<lambda>x. fst x \<noteq> [] \<and> hd (fst x) \<noteq> hd key) cs \<Longrightarrow> key \<noteq> [] \<Longrightarrow>
     best_match key cs n it = (n, it)"
  by (induction cs) (auto simp: matchedLength_pos [of key, THEN iffD1] Let_def
      dest: matchedLength_pos [of key, THEN iffD1, rotated 2])

lemma best_match_one:
  assumes "edges_ok (xs @ (k, c) # ys)" "key \<noteq> []" "hd k = hd key"
  shows "best_match key (xs @ (k, c) # ys) 0 None = (matchedLength key k, Some (k, c))"
  using assms
proof (induction xs)
  case Nil
  then have "list_all (\<lambda>x. fst x \<noteq> [] \<and> hd (fst x) \<noteq> hd key) ys" by (auto simp: list_all_iff)
  with Nil matchedLength_pos [of key k] show ?case by (auto simp: best_match_none Let_def)
next
  case (Cons x xs)
  then have "hd (fst x) \<noteq> hd key" by auto
  with Cons matchedLength_pos [of key "fst x"] show ?case by (cases x) auto
qed

section \<open>Lookup\<close>

lemma map_of_prefix:
  "map_of (map (\<lambda>(s, v). (k @ s, v)) es) q =
     (if prefix k q then map_of es (drop (length k) q) else None)"
  by (induction es) (auto simp: prefix_def)

lemma entries_cs_simps [simp]:
  "entries_cs [] = []"
  "entries_cs (x # cs) = map (\<lambda>(s, v). (fst x @ s, v)) (entries (snd x)) @ entries_cs cs"
  "entries_cs (xs @ ys) = entries_cs xs @ entries_cs ys"
  by (simp_all add: entries_cs_def)

lemma entries_cs_other:
  "list_all (\<lambda>x. fst x \<noteq> [] \<and> hd (fst x) \<noteq> hd q) cs \<Longrightarrow> map_of (entries_cs cs) q = None"
  by (induction cs) (auto simp: map_add_def map_of_prefix prefix_def split: option.splits)

lemma entries_cs_Nil: "list_all (\<lambda>x. fst x \<noteq> []) cs \<Longrightarrow> map_of (entries_cs cs) [] = None"
  by (induction cs) (auto simp: map_add_def map_of_prefix split: option.splits)

lemma edges_around:
  assumes "edges_ok (xs @ (k, c) # ys)"
  shows "list_all (\<lambda>x. fst x \<noteq> [] \<and> hd (fst x) < hd k) xs"
    "list_all (\<lambda>x. fst x \<noteq> [] \<and> hd k < hd (fst x)) ys" "k \<noteq> []"
  using assms by (auto simp: sorted_wrt_append list_all_iff)

text \<open>A lookup under one edge depends on the child behind it alone.\<close>

lemma entries_cs_at:
  assumes "edges_ok (xs @ (k, c) # ys)" "hd q = hd k"
  shows "map_of (entries_cs (xs @ (k, c) # ys)) q =
    (if prefix k q then map_of (entries c) (drop (length k) q) else None)"
proof -
  have "list_all (\<lambda>x. fst x \<noteq> [] \<and> hd (fst x) \<noteq> hd q) xs"
    "list_all (\<lambda>x. fst x \<noteq> [] \<and> hd (fst x) \<noteq> hd q) ys"
    using edges_around [OF assms(1)] assms(2) by (auto elim!: list.pred_mono_strong)
  then have "map_of (entries_cs xs) q = None" "map_of (entries_cs ys) q = None"
    by (simp_all add: entries_cs_other)
  then show ?thesis by (auto simp: map_add_def map_of_prefix split: option.splits)
qed

lemma entries_cs_skip:
  assumes "k \<noteq> []" "hd q \<noteq> hd k"
  shows "map_of (entries_cs (xs @ (k, c) # ys)) q = map_of (entries_cs (xs @ ys)) q"
proof -
  have "\<not> prefix k q" using assms by (cases k; cases q) auto
  then show ?thesis by (simp add: map_add_def map_of_prefix split: option.splits)
qed

section \<open>Insertion\<close>

lemma edges_split_none:
  assumes "edges_ok cs" "list_all (\<lambda>x. hd (fst x) \<noteq> c) cs"
  obtains xs ys where "cs = xs @ ys" "list_all (\<lambda>x. hd (fst x) < c) xs"
    "list_all (\<lambda>x. c < hd (fst x)) ys"
proof -
  have "\<exists>xs ys. cs = xs @ ys \<and> list_all (\<lambda>x. hd (fst x) < c) xs \<and> list_all (\<lambda>x. c < hd (fst x)) ys"
    using assms
  proof (induction cs)
    case (Cons x cs)
    then obtain xs ys where s: "cs = xs @ ys" "list_all (\<lambda>x. hd (fst x) < c) xs"
      "list_all (\<lambda>x. c < hd (fst x)) ys" by auto
    show ?case
    proof (cases "hd (fst x) < c")
      case True
      with s show ?thesis by (intro exI [of _ "x # xs"] exI [of _ ys]) auto
    next
      case False
      with Cons.prems have "list_all (\<lambda>x. c < hd (fst x)) (x # cs)" by (auto simp: list_all_iff)
      then show ?thesis by (intro exI [of _ "[]"] exI [of _ "x # cs"]) auto
    qed
  qed simp
  with that show thesis by blast
qed

lemma hd_lessI: "k \<noteq> [] \<Longrightarrow> k' \<noteq> [] \<Longrightarrow> hd k < hd k' \<Longrightarrow> (k :: 'a::linorder list) < k'"
  by (cases k; cases k') auto

lemma put_between_edges:
  assumes "list_all (\<lambda>x. fst x \<noteq> [] \<and> hd (fst x) < hd k) xs"
    "list_all (\<lambda>x. fst x \<noteq> [] \<and> hd k < hd (fst x)) ys" "k \<noteq> []"
  shows "map_put k v (xs @ ys) = xs @ (k, v) # ys" "map_emplace k v (xs @ ys) = xs @ (k, v) # ys"
    "map_put k v (xs @ (k, w) # ys) = xs @ (k, v) # ys" "map_erase k (xs @ (k, w) # ys) = xs @ ys"
proof -
  have x: "\<forall>x \<in> fst ` set xs. x < k"
    using assms by (auto simp: list_all_iff Ball_def split_paired_All intro!: hd_lessI)
  have y: "\<forall>y \<in> fst ` set ys. k < y"
    using assms by (auto simp: list_all_iff Ball_def split_paired_All intro!: hd_lessI)
  from x y show "map_put k v (xs @ ys) = xs @ (k, v) # ys" by (rule map_put_between)
  then show "map_emplace k v (xs @ ys) = xs @ (k, v) # ys"
    using x y by (force simp: map_emplace_def)
  show "map_put k v (xs @ (k, w) # ys) = xs @ (k, v) # ys" using x by (rule map_put_replace)
  have "map_erase k xs = xs" "map_erase k ys = ys" using x y by (auto intro!: map_erase_id)
  then show "map_erase k (xs @ (k, w) # ys) = xs @ ys" by (simp add: map_erase_def)
qed

text \<open>What \<open>insertImpl\<close> does at a node, for a key that is not empty.\<close>

lemma insertImpl_cases [consumes 2, case_names New Old]:
  assumes "edges_ok cs" "key \<noteq> []"
  obtains (New) xs ys where "cs = xs @ ys"
      "list_all (\<lambda>x. hd (fst x) < hd key) xs" "list_all (\<lambda>x. hd key < hd (fst x)) ys"
      "insertImpl (RadixTreeNode d cs p) key v = RadixTreeNode d (xs @ (key, leaf v) # ys) p"
  | (Old) xs k c ys where "cs = xs @ (k, c) # ys" "hd k = hd key" "0 < matchedLength key k"
      "insertImpl (RadixTreeNode d cs p) key v =
        RadixTreeNode d (xs @ (if matchedLength key k = length k
          then (k, insertImpl c (drop (matchedLength key k) key) v)
          else (take (matchedLength key k) key, split_node key k c (matchedLength key k) v)) # ys) p"
proof (cases "list_all (\<lambda>x. hd (fst x) \<noteq> hd key) cs")
  case True
  with assms(1) obtain xs ys where s: "cs = xs @ ys" "list_all (\<lambda>x. hd (fst x) < hd key) xs"
    "list_all (\<lambda>x. hd key < hd (fst x)) ys" by (rule edges_split_none)
  have "best_match key cs 0 None = (0, None)"
    using assms True by (intro best_match_none) (auto simp: list_all_iff)
  moreover have "map_put key (leaf v) cs = xs @ (key, leaf v) # ys"
    unfolding s(1) using assms s by (intro put_between_edges) (auto simp: list_all_iff)
  ultimately show thesis using assms(2) s by (intro New) (auto simp: insertImpl.simps)
next
  case False
  then obtain k c where "(k, c) \<in> set cs" and h: "hd k = hd key" by (auto simp: list_all_iff)
  then obtain xs ys where s: "cs = xs @ (k, c) # ys" by (auto dest: split_list)
  note e = edges_around [OF assms(1) [unfolded s]]
  let ?n = "matchedLength key k"
  have b: "best_match key cs 0 None = (?n, Some (k, c))"
    unfolding s using assms s h by (intro best_match_one) auto
  have n: "0 < ?n" using matchedLength_pos [of key k] assms(2) e(3) h by simp
  have "hd (take ?n key) = hd k" "take ?n key \<noteq> []" using n h assms(2) by (auto simp: hd_take)
  with e have "map_emplace (take ?n key) z (xs @ ys) = xs @ (take ?n key, z) # ys" for z
    by (intro put_between_edges) auto
  with b n s assms(2) put_between_edges [OF e] show thesis
    by (intro Old [of xs k c ys]) (auto simp: insertImpl.simps h)
qed

lemma leaf_simps [simp]: "entries (leaf v) = [([], v)]" "radix_inv (leaf v)"
  by (simp_all add: leaf_def entries_node radix_inv_node)

lemma edges_ok_put:
  "list_all (\<lambda>x. fst x \<noteq> [] \<and> hd (fst x) < hd k) xs \<Longrightarrow>
   list_all (\<lambda>x. fst x \<noteq> [] \<and> hd k < hd (fst x)) ys \<Longrightarrow>
   sorted_wrt hd_less xs \<Longrightarrow> sorted_wrt hd_less ys \<Longrightarrow> k \<noteq> [] \<Longrightarrow> edges_ok (xs @ (k, c) # ys)"
  by (fastforce simp: sorted_wrt_append list_all_iff)

lemma split_node_shape:
  assumes "n = matchedLength key k" "n < length k"
  shows "(\<exists>cs. split_node key k c n v = RadixTreeNode (if n = length key then v else []) cs (n = length key) \<and>
      (n = length key \<and> cs = [(drop n k, c)] \<or>
       n < length key \<and> hd (drop n k) < hd (drop n key) \<and> cs = [(drop n k, c), (drop n key, leaf v)] \<or>
       n < length key \<and> hd (drop n key) < hd (drop n k) \<and> cs = [(drop n key, leaf v), (drop n k, c)]))"
proof (cases "n = length key")
  case True
  then show ?thesis by (simp add: split_node_def map_emplace_def)
next
  case False
  with assms matchedLength_le [of key k] have n: "n < length key" by simp
  with assms matchedLength_diff [of key k] have ne: "hd (drop n k) \<noteq> hd (drop n key)" by auto
  have nn: "drop n k \<noteq> []" "drop n key \<noteq> []" using n assms by auto
  from ne consider "hd (drop n k) < hd (drop n key)" | "hd (drop n key) < hd (drop n k)" by fastforce
  then show ?thesis
  proof cases
    case 1
    with nn have "drop n k < drop n key" by (simp add: hd_lessI)
    then have "drop n key \<noteq> drop n k" "\<not> drop n key < drop n k" by auto
    with False n 1 show ?thesis by (simp add: split_node_def map_emplace_def Let_def)
  next
    case 2
    with nn have "drop n key < drop n k" by (simp add: hd_lessI)
    then have "drop n key \<noteq> drop n k" "drop n key < drop n k" by auto
    with False n 2 show ?thesis by (simp add: split_node_def map_emplace_def Let_def)
  qed
qed

lemma split_node_inv:
  assumes "n = matchedLength key k" "n < length k" "radix_inv c"
  shows "radix_inv (split_node key k c n v)"
proof -
  from split_node_shape [OF assms(1,2)] obtain cs where
    "split_node key k c n v = RadixTreeNode (if n = length key then v else []) cs (n = length key)"
    "n = length key \<and> cs = [(drop n k, c)] \<or>
     n < length key \<and> hd (drop n k) < hd (drop n key) \<and> cs = [(drop n k, c), (drop n key, leaf v)] \<or>
     n < length key \<and> hd (drop n key) < hd (drop n k) \<and> cs = [(drop n key, leaf v), (drop n k, c)]"
    by blast
  with assms(2,3) show ?thesis by (auto simp: radix_inv_node)
qed

lemma split_node_lookup:
  assumes "n = matchedLength key k" "n < length k"
  shows "map_of (entries (split_node key k c n v)) q =
    (if q = drop n key then Some v
     else if prefix (drop n k) q then map_of (entries c) (drop (length k - n) q) else None)"
proof -
  from split_node_shape [OF assms] obtain cs where
    e: "split_node key k c n v = RadixTreeNode (if n = length key then v else []) cs (n = length key)"
    and cs: "n = length key \<and> cs = [(drop n k, c)] \<or>
     n < length key \<and> hd (drop n k) < hd (drop n key) \<and> cs = [(drop n k, c), (drop n key, leaf v)] \<or>
     n < length key \<and> hd (drop n key) < hd (drop n k) \<and> cs = [(drop n key, leaf v), (drop n k, c)]"
    by blast
  have ne: "drop n k \<noteq> []" using assms(2) by simp
  show ?thesis
  proof (cases "n = length key")
    case True
    with cs ne show ?thesis unfolding e by (auto simp: entries_node map_of_prefix)
  next
    case False
    with cs have d: "hd (drop n k) \<noteq> hd (drop n key)" "n < length key" by auto
    have "\<not> prefix (drop n k) q" if "q = drop n key"
      using d(1) ne that by (auto simp: prefix_def hd_append)
    with cs False ne d show ?thesis
      unfolding e by (auto simp: entries_node map_of_prefix map_add_def prefix_def split: option.splits)
  qed
qed

lemma insertImpl_inv: "radix_inv node \<Longrightarrow> radix_inv (insertImpl node key v)"
proof (induction node key v rule: insertImpl.induct)
  case (1 d cs p key v)
  show ?case
  proof (cases "key = []")
    case True
    with 1 show ?thesis by (simp add: insertImpl.simps radix_inv_node)
  next
    case False
    from 1 have e: "edges_ok cs" and ch: "list_all (\<lambda>x. radix_inv (snd x)) cs"
      by (simp_all add: radix_inv_node)
    from e False show ?thesis
    proof (cases rule: insertImpl_cases [where d = d and p = p and v = v])
      case (New xs ys)
      have "edges_ok (xs @ (key, leaf v) # ys)"
        using e New False by (intro edges_ok_put) (auto simp: sorted_wrt_append list_all_iff)
      with New ch show ?thesis by (simp add: radix_inv_node)
    next
      case (Old xs k c ys)
      let ?n = "matchedLength key k"
      note ea = edges_around [OF e [unfolded Old(1)]]
      have so: "sorted_wrt hd_less xs" "sorted_wrt hd_less ys" using e Old(1) by (auto simp: sorted_wrt_append)
      have b: "best_match key cs 0 None = (?n, Some (k, c))"
        unfolding Old(1) using e False Old by (intro best_match_one) auto
      have c: "radix_inv c" using ch Old(1) by simp
      show ?thesis
      proof (cases "?n = length k")
        case True
        have "radix_inv (insertImpl c (drop ?n key) v)"
          using "1.IH" [OF False b [symmetric] _ refl refl] Old(3) True c by auto
        with ea so ch True Old(4) show ?thesis
          by (simp add: radix_inv_node edges_ok_put Old(1) del: list_all_append)
             (simp add: Old(1))
      next
        case nf: False
        with matchedLength_le [of key k] have "?n < length k" by simp
        from split_node_inv [OF refl this c] have "radix_inv (split_node key k c ?n v)" .
        moreover have "edges_ok (xs @ (take ?n key, split_node key k c ?n v) # ys)"
          using ea so Old(2,3) False by (intro edges_ok_put) (auto simp: hd_take)
        ultimately show ?thesis using nf ch Old(1,4) by (simp add: radix_inv_node)
      qed
    qed
  qed
qed

abbreviation lookup :: "RadixTreeNode \<Rightarrow> string \<rightharpoonup> string" where
  "lookup node \<equiv> map_of (entries node)"

lemma lookup_node:
  "list_all (\<lambda>x. fst x \<noteq> []) cs \<Longrightarrow>
     lookup (RadixTreeNode d cs p) q =
       (if q = [] then (if p then Some d else None) else map_of (entries_cs cs) q)"
  by (auto simp: entries_node entries_cs_Nil)

text \<open>The edge a key falls under, before and after it grew or was split.\<close>

lemma split_edge_lookup:
  assumes "n = matchedLength key k" "n < length k"
  shows "(if prefix (take n key) q then lookup (split_node key k c n v) (drop n q) else None) =
    (if q = key then Some v else if prefix k q then lookup c (drop (length k) q) else None)"
proof -
  have t: "take n key = take n k" "n \<le> length key"
    using matchedLength_take [of key k] matchedLength_le [of key k] assms(1) by simp_all
  show ?thesis
  proof (cases "prefix (take n key) q")
    case True
    then obtain r where q: "q = take n key @ r" by (auto simp: prefix_def)
    have d: "drop n q = r" using q t(2) by simp
    have "q = key \<longleftrightarrow> r = drop n key" unfolding q by (metis append_take_drop_id same_append_eq)
    moreover have "prefix k q \<longleftrightarrow> prefix (drop n k) r"
      unfolding q t(1) by (metis append_take_drop_id same_prefix_prefix)
    moreover have "drop (length k) q = drop (length k - n) r"
      using assms(2) t(2) by (simp add: q)
    ultimately show ?thesis using True d by (simp add: split_node_lookup [OF assms])
  next
    case False
    then have "q \<noteq> key" "\<not> prefix k q"
      using t take_is_prefix [of n k] take_is_prefix [of n key] prefix_order.trans by metis+
    with False show ?thesis by simp
  qed
qed

lemma grow_edge_lookup:
  assumes "matchedLength key k = length k"
  shows "(if prefix k q then ((lookup c)(drop (length k) key \<mapsto> v)) (drop (length k) q) else None) =
    (if q = key then Some v else if prefix k q then lookup c (drop (length k) q) else None)"
proof -
  have "prefix k key" using assms by (simp add: matchedLength_prefix)
  then show ?thesis by (auto simp: prefix_def)
qed

lemma lookup_new_edge:
  assumes "edges_ok (xs @ ys)" "edges_ok (xs @ (key, leaf v) # ys)" "key \<noteq> []"
  shows "lookup (RadixTreeNode d (xs @ (key, leaf v) # ys) p) = (lookup (RadixTreeNode d (xs @ ys) p))(key \<mapsto> v)"
proof
  fix q
  have "map_of (entries_cs (xs @ ys)) q = None" if "hd q = hd key"
    using edges_around [OF assms(2)] that
    by (intro entries_cs_other) (auto elim!: list.pred_mono_strong)
  then show "lookup (RadixTreeNode d (xs @ (key, leaf v) # ys) p) q =
      ((lookup (RadixTreeNode d (xs @ ys) p))(key \<mapsto> v)) q"
    using assms entries_cs_at [OF assms(2), of q] entries_cs_skip [OF assms(3), of q xs "leaf v" ys]
    by (cases "hd q = hd key") (auto simp: lookup_node prefix_def simp del: entries_cs_simps)
qed

lemma lookup_replace_edge:
  assumes e: "edges_ok (xs @ (k, c) # ys)" and e': "edges_ok (xs @ (k', c') # ys)"
    and h: "hd k = hd key" "hd k' = hd key" "key \<noteq> []"
    and step: "\<And>q. (if prefix k' q then lookup c' (drop (length k') q) else None) =
      (if q = key then Some v else if prefix k q then lookup c (drop (length k) q) else None)"
  shows "lookup (RadixTreeNode d (xs @ (k', c') # ys) p) =
    (lookup (RadixTreeNode d (xs @ (k, c) # ys) p))(key \<mapsto> v)"
proof
  fix q
  have "k \<noteq> []" "k' \<noteq> []" using e e' by auto
  then show "lookup (RadixTreeNode d (xs @ (k', c') # ys) p) q =
      ((lookup (RadixTreeNode d (xs @ (k, c) # ys) p))(key \<mapsto> v)) q"
    using e e' h step [of q] entries_cs_at [OF e', of q] entries_cs_skip [of k' q xs c' ys]
      entries_cs_at [OF e, of q] entries_cs_skip [of k q xs c ys]
    by (cases "hd q = hd key"; cases "q = []") (auto simp: lookup_node)
qed

lemma insertImpl_lookup:
  "radix_inv node \<Longrightarrow> lookup (insertImpl node key v) = (lookup node)(key \<mapsto> v)"
proof (induction node key v rule: insertImpl.induct)
  case (1 d cs p key v)
  from 1 have e: "edges_ok cs" and ch: "list_all (\<lambda>x. radix_inv (snd x)) cs"
    by (simp_all add: radix_inv_node)
  have inv: "radix_inv (insertImpl (RadixTreeNode d cs p) key v)"
    using 1 by (intro insertImpl_inv)
  show ?case
  proof (cases "key = []")
    case True
    with e show ?thesis by (intro ext) (simp add: insertImpl.simps lookup_node)
  next
    case False
    from e False show ?thesis
    proof (cases rule: insertImpl_cases [where d = d and p = p and v = v])
      case (New xs ys)
      from inv New(4) have "edges_ok (xs @ (key, leaf v) # ys)" by (simp add: radix_inv_node)
      with e False show ?thesis unfolding New(4) unfolding New(1) by (intro lookup_new_edge)
    next
      case (Old xs k c ys)
      let ?n = "matchedLength key k"
      have b: "best_match key cs 0 None = (?n, Some (k, c))"
        unfolding Old(1) using e False Old by (intro best_match_one) auto
      have c: "radix_inv c" using ch Old(1) by simp
      show ?thesis
      proof (cases "?n = length k")
        case True
        have il: "lookup (insertImpl c (drop ?n key) v) = (lookup c)(drop ?n key \<mapsto> v)"
          using "1.IH" [OF False b [symmetric] _ refl refl] Old(3) True c by auto
        have step: "(if prefix k q then lookup (insertImpl c (drop ?n key) v) (drop (length k) q) else None) =
          (if q = key then Some v else if prefix k q then lookup c (drop (length k) q) else None)" for q
          unfolding il unfolding True by (rule grow_edge_lookup [OF True])
        from inv Old(4) True have "edges_ok (xs @ (k, insertImpl c (drop ?n key) v) # ys)"
          by (simp add: radix_inv_node)
        from lookup_replace_edge [OF e [unfolded Old(1)] this Old(2,2) False step] True show ?thesis
          unfolding Old(4) unfolding Old(1) by simp
      next
        case nf: False
        with matchedLength_le [of key k] have n: "?n < length k" "?n \<le> length key" by simp_all
        have lt: "length (take ?n key) = ?n" using n(2) by simp
        have "hd (take ?n key) = hd key" using Old(3) False by (simp add: hd_take)
        moreover from inv Old(4) nf have "edges_ok (xs @ (take ?n key, split_node key k c ?n v) # ys)"
          by (simp add: radix_inv_node)
        moreover have "(if prefix (take ?n key) q
            then lookup (split_node key k c ?n v) (drop (length (take ?n key)) q) else None) =
          (if q = key then Some v else if prefix k q then lookup c (drop (length k) q) else None)" for q
          unfolding lt by (rule split_edge_lookup [OF refl n(1)])
        ultimately show ?thesis
          using lookup_replace_edge [OF e [unfolded Old(1)] _ Old(2) _ False] nf
          unfolding Old(4) unfolding Old(1) by simp
      qed
    qed
  qed
qed

section \<open>Search\<close>

lemma find_prefix_edge:
  assumes "edges_ok cs" "q \<noteq> []"
  shows "(case find (\<lambda>(k, c). matchedLength q k = length k) cs of
      None \<Rightarrow> map_of (entries_cs cs) q = None
    | Some (k, c) \<Rightarrow> prefix k q \<and> map_of (entries_cs cs) q = lookup c (drop (length k) q))"
proof (cases "find (\<lambda>(k, c). matchedLength q k = length k) cs")
  case None
  then have "\<forall>x \<in> set cs. \<not> prefix (fst x) q"
    by (auto simp: find_None_iff matchedLength_prefix)
  then have "map_of (entries_cs cs) q = None"
    by (induction cs) (auto simp: map_add_def map_of_prefix split: option.splits)
  with None show ?thesis by simp
next
  case (Some x)
  obtain k c where x: "x = (k, c)" by (cases x)
  from find_in_set [OF Some] have k: "prefix k q" "(k, c) \<in> set cs"
    by (auto simp: x matchedLength_prefix)
  then obtain xs ys where cs: "cs = xs @ (k, c) # ys" by (auto dest: split_list)
  have "k \<noteq> []" using assms(1) cs by auto
  with k(1) have "hd q = hd k" by (auto simp: prefix_def)
  with entries_cs_at [OF assms(1) [unfolded cs], of q] k(1)
  have "map_of (entries_cs cs) q = lookup c (drop (length k) q)" unfolding cs by simp
  with k(1) show ?thesis by (simp add: Some x)
qed

lemma search_loop_lookup:
  "radix_inv node \<Longrightarrow> search_loop node q = (case lookup node q of None \<Rightarrow> '''' | Some v \<Rightarrow> v)"
proof (induction node q rule: search_loop.induct)
  case (1 node q)
  obtain d cs p where node: "node = RadixTreeNode d cs p" by (cases node)
  from 1(2) have e: "edges_ok cs" "list_all (\<lambda>x. radix_inv (snd x)) cs"
    by (simp_all add: node radix_inv_node)
  show ?case
  proof (cases "q = []")
    case True
    with e show ?thesis by (subst search_loop.simps) (simp add: node lookup_node)
  next
    case False
    show ?thesis
    proof (cases "find (\<lambda>(k, c). matchedLength q k = length k) cs")
      case None
      with find_prefix_edge [OF e(1) False] False e show ?thesis
        by (subst search_loop.simps) (simp add: node lookup_node)
    next
      case (Some x)
      obtain k c where x: "x = (k, c)" by (cases x)
      have c: "(k, c) \<in> set cs" "prefix k q" "matchedLength q k = length k"
        using find_in_set [OF Some] by (auto simp: x matchedLength_prefix)
      have "radix_inv c" using c(1) e(2) by (auto simp: list_all_iff)
      then have "search_loop c (drop (matchedLength q k) q) =
          (case lookup c (drop (matchedLength q k) q) of None \<Rightarrow> '''' | Some v \<Rightarrow> v)"
        using Some by (intro 1(1) [OF False, of x]) (simp_all add: node x)
      with find_prefix_edge [OF e(1) False] False e Some x c(3) show ?thesis
        by (subst search_loop.simps) (simp add: node lookup_node)
    qed
  qed
qed

section \<open>Order of the bindings\<close>

lemma entries_cs_nonempty: "list_all (\<lambda>x. fst x \<noteq> []) cs \<Longrightarrow> (k, v) \<in> set (entries_cs cs) \<Longrightarrow> k \<noteq> []"
  by (induction cs) auto

lemma entries_cs_hd:
  "list_all (\<lambda>x. fst x \<noteq> []) cs \<Longrightarrow> (k, v) \<in> set (entries_cs cs) \<Longrightarrow> \<exists>x \<in> set cs. hd k = hd (fst x)"
  by (induction cs) (auto simp: hd_append)

lemma entries_sorted: "radix_inv node \<Longrightarrow> map_ok (entries node)"
proof (induction node)
  case (RadixTreeNode d cs p)
  from RadixTreeNode.prems have e: "edges_ok cs" and ch: "list_all (\<lambda>x. radix_inv (snd x)) cs"
    by (simp_all add: radix_inv_node)
  have "map_ok (entries_cs cs)" if "edges_ok cs" "\<forall>x \<in> set cs. map_ok (entries (snd x))" for cs
    using that
  proof (induction cs)
    case (Cons x cs)
    have "k @ s < k'" if "fst x = k" "(k', v') \<in> set (entries_cs cs)" for k s k' v'
    proof -
      from entries_cs_hd [OF _ that(2)] Cons.prems(1) obtain y where "y \<in> set cs" "hd k' = hd (fst y)"
        by auto
      with Cons.prems(1) that entries_cs_nonempty [OF _ that(2)] hd_less_append [of k k' s "[]"] show ?thesis
        by auto
    qed
    moreover have "map_ok (map (\<lambda>(s, v). (fst x @ s, v)) (entries (snd x)))"
      using Cons.prems(2) by (simp add: sorted_wrt_map case_prod_beta)
    ultimately show ?case using Cons by (auto simp: sorted_wrt_append)
  qed simp
  moreover have "\<forall>x \<in> set cs. map_ok (entries (snd x))"
    using RadixTreeNode.IH ch by (auto simp: list_all_iff prod_set_simps)
  ultimately show ?case
    using e entries_cs_nonempty [of cs] by (auto simp: entries_node Nil_less)
qed

section \<open>Range search\<close>

abbreviation in_range :: "string \<Rightarrow> string \<Rightarrow> bool \<Rightarrow> string \<Rightarrow> bool" where
  "in_range startKey endKey isExclusive k \<equiv>
     startKey \<le> k \<and> k \<le> endKey \<and> \<not> (isExclusive \<and> k = startKey)"

text \<open>The bindings below a node, under the path that leads to it.\<close>

definition at_path :: "string \<Rightarrow> (string \<times> string) list \<Rightarrow> (string \<times> string) list" where
  "at_path cur es = map (\<lambda>(s, v). (cur @ s, v)) es"

lemma at_path_append: "at_path cur (xs @ ys) = at_path cur xs @ at_path cur ys"
  by (simp add: at_path_def)

lemma at_path_under: "at_path cur (map (\<lambda>(s, v). (k @ s, v)) es) = at_path (cur @ k) es"
  by (simp add: at_path_def case_prod_beta)

text \<open>The two prunings: nothing below a small edge, nothing behind a large one.\<close>

lemma at_path_below:
  assumes "k \<le> s" "\<not> prefix k s"
  shows "filter (\<lambda>x. in_range s e ex (fst x)) (at_path k es) = []"
proof -
  have "k < s" using assms by (metis order.order_iff_strict prefix_order.refl)
  with assms(2) have "k @ t < s" for t by (rule less_not_prefix [rotated])
  then show ?thesis by (auto simp: at_path_def filter_empty_conv simp flip: not_less)
qed

lemma at_path_above:
  assumes "e < cur @ k" "edges_ok ((k, c) # cs)"
  shows "filter (\<lambda>x. in_range s e ex (fst x)) (at_path cur (entries_cs ((k, c) # cs))) = []"
proof -
  have "e < cur @ q" if "(q, v) \<in> set (entries_cs ((k, c) # cs))" for q v
  proof -
    have "k \<le> q"
    proof (cases "(q, v) \<in> set (entries_cs cs)")
      case True
      with assms(2) obtain y where "y \<in> set cs" "hd q = hd (fst y)" using entries_cs_hd [OF _ True] by auto
      with assms(2) entries_cs_nonempty [OF _ True] hd_less_append [of k q "[]" "[]"] show ?thesis by auto
    next
      case False
      with that show ?thesis by (auto simp: le_append)
    qed
    then have "cur @ k \<le> cur @ q" by (auto simp: le_less)
    with assms(1) show ?thesis by simp
  qed
  then show ?thesis by (fastforce simp: at_path_def filter_empty_conv)
qed

lemma rangeSearchImpl_filter:
  "radix_inv node \<Longrightarrow>
     rangeSearchImpl s e res node cur ex = res @ filter (\<lambda>x. in_range s e ex (fst x)) (at_path cur (entries node))"
  "edges_ok cs \<Longrightarrow> list_all (\<lambda>x. radix_inv (snd x)) cs \<Longrightarrow>
     rangeSearch_children s e res cs cur ex =
       res @ filter (\<lambda>x. in_range s e ex (fst x)) (at_path cur (entries_cs cs))"
proof (induction s e res node cur ex and s e res cs cur ex
    rule: rangeSearchImpl_rangeSearch_children.induct)
  case (1 s e res d cs p cur ex)
  then show ?case by (auto simp: entries_node radix_inv_node at_path_def)
next
  case (2 s e res cur ex)
  then show ?case by (simp add: at_path_def)
next
  case (3 s e res k c cs cur ex)
  let ?new = "cur @ k"
  have cs: "edges_ok cs" "list_all (\<lambda>x. radix_inv (snd x)) cs" "radix_inv c" using 3(4,5) by auto
  have split: "at_path cur (entries_cs ((k, c) # cs)) = at_path ?new (entries c) @ at_path cur (entries_cs cs)"
    by (simp add: at_path_append at_path_under)
  consider (above) "e < ?new" | (below) "\<not> e < ?new" "?new \<le> s" "\<not> prefix ?new s"
    | (inside) "\<not> e < ?new" "\<not> (?new \<le> s \<and> \<not> prefix ?new s)" by blast
  then show ?case
  proof cases
    case above
    with at_path_above [OF above 3(4)] show ?thesis by (simp add: Let_def)
  next
    case below
    with 3(1) [OF refl _ refl _ cs(1,2)] at_path_below [OF below(2,3)] show ?thesis
      unfolding split by (simp add: Let_def prefix_take del: length_append)
  next
    case inside
    with 3(2,3) [OF refl _ refl] cs show ?thesis
      unfolding split by (auto simp: Let_def prefix_take simp del: length_append)
  qed
qed

lemma rangeSearch_filter:
  assumes "case root of None \<Rightarrow> True | Some node \<Rightarrow> radix_inv node"
  shows "rangeSearch root s e res ex =
    res @ filter (\<lambda>x. in_range s e ex (fst x)) (case root of None \<Rightarrow> [] | Some node \<Rightarrow> entries node)"
  using assms by (auto simp: rangeSearch_def rangeSearchImpl_filter at_path_def split: option.splits)


section \<open>The interface the streams rely on\<close>

locale range_index =
  fixes inv :: "'t \<Rightarrow> bool"
    and bindings :: "'t \<Rightarrow> (string \<times> string) list"
    and emp :: 't
    and ins :: "'t \<Rightarrow> string \<Rightarrow> string \<Rightarrow> 't"
    and get :: "'t \<Rightarrow> string \<Rightarrow> string"
    and range :: "'t \<Rightarrow> string \<Rightarrow> string \<Rightarrow> (string \<times> string) list \<Rightarrow> bool \<Rightarrow> (string \<times> string) list"
  assumes emp_inv: "inv emp" and emp_bindings: "bindings emp = []"
    and bindings_ok: "inv t \<Longrightarrow> map_ok (bindings t)"
    and ins_inv: "inv t \<Longrightarrow> inv (ins t k v)"
    and ins_map: "inv t \<Longrightarrow> map_of (bindings (ins t k v)) = (map_of (bindings t))(k \<mapsto> v)"
    and get_map: "inv t \<Longrightarrow> get t k = (case map_of (bindings t) k of None \<Rightarrow> '''' | Some v \<Rightarrow> v)"
    and range_filter: "inv t \<Longrightarrow>
      range t s e res ex = res @ filter (\<lambda>x. in_range s e ex (fst x)) (bindings t)"
begin

lemma bindings_ins: "inv t \<Longrightarrow> bindings (ins t k v) = map_put k v (bindings t)"
  by (intro map_ok_unique) (simp_all add: bindings_ok ins_inv map_put_ok ins_map map_of_map_put)

text \<open>A key above all the others is appended, as in a log.\<close>

lemma bindings_ins_last:
  "inv t \<Longrightarrow> \<forall>x \<in> fst ` set (bindings t). x < k \<Longrightarrow> bindings (ins t k v) = bindings t @ [(k, v)]"
  using map_put_between [of "bindings t" k "[]" v] by (simp add: bindings_ins)

lemma get_ins: "inv t \<Longrightarrow> get (ins t k v) q = (if q = k then v else get t q)"
  by (simp add: get_map ins_inv ins_map)

lemma range_all:
  "inv t \<Longrightarrow> \<forall>x \<in> fst ` set (bindings t). s \<le> x \<and> x \<le> e \<Longrightarrow> range t s e [] False = bindings t"
  by (simp add: range_filter filter_id_conv)

end

definition tree_inv :: "RadixTreeNode option \<Rightarrow> bool" where
  "tree_inv root = (case root of None \<Rightarrow> True | Some node \<Rightarrow> radix_inv node)"

definition tree_entries :: "RadixTreeNode option \<Rightarrow> (string \<times> string) list" where
  "tree_entries root = (case root of None \<Rightarrow> [] | Some node \<Rightarrow> entries node)"

lemma empty_node_simps [simp]: "radix_inv empty_node" "entries empty_node = []"
  by (simp_all add: empty_node_def radix_inv_node entries_node)

interpretation radix: range_index tree_inv tree_entries None insert_tree search_tree rangeSearch
proof
  fix root k v s e ex and res :: "(string \<times> string) list"
  assume inv: "tree_inv root"
  then show "map_ok (tree_entries root)"
    by (auto simp: tree_inv_def tree_entries_def entries_sorted split: option.splits)
  from inv show "tree_inv (insert_tree root k v)"
    by (auto simp: tree_inv_def insert_tree_def insertImpl_inv split: option.splits)
  from inv show "map_of (tree_entries (insert_tree root k v)) = (map_of (tree_entries root))(k \<mapsto> v)"
    by (auto simp: tree_inv_def tree_entries_def insert_tree_def insertImpl_lookup split: option.splits)
  from inv show "search_tree root k = (case map_of (tree_entries root) k of None \<Rightarrow> '''' | Some v \<Rightarrow> v)"
    by (auto simp: tree_inv_def tree_entries_def search_tree_def search_loop_lookup split: option.splits)
  from inv show "rangeSearch root s e res ex = res @ filter (\<lambda>x. in_range s e ex (fst x)) (tree_entries root)"
    by (simp add: rangeSearch_filter tree_inv_def tree_entries_def)
qed (simp_all add: tree_inv_def tree_entries_def)


end
