(* ===== verification/Stream_Db.thy ===== *)
theory Stream_Db
  imports Utils RadixTree
begin

text \<open>
  \<open>src/src/stream.h\<close> and \<open>src/src/stream.cpp\<close>: stream identifiers, their big-endian keys
  and the stream object over the radix tree. \<open>time_since_epoch_millisec()\<close> is the argument
  \<open>now\<close>. A stream represents a log of identified entries: \<open>insert\<close> appends or rejects, and
  \<open>xrangeData\<close> returns the entries of the interval in identifier order.
\<close>

section \<open>Definitions\<close>

datatype StreamErrorType = OK | INVALID_ID_FORMAT | ID_NOT_GREATER_THAN_LAST | NOT_GREATER_THAN_ZERO

datatype StreamID = StreamID (ms: u64) (seq: u64)

definition isGreater :: "StreamID \<Rightarrow> StreamID \<Rightarrow> bool" where
  "isGreater s other =
     (if ms other < ms s then True
      else if ms s < ms other then False
      else seq other < seq s)"

definition toString :: "StreamID \<Rightarrow> string" where
  "toString s = nat_to_string (unat (ms s)) @ ''-'' @ nat_to_string (unat (seq s))"

text \<open>The low eight bits, stored into a \<open>char\<close>.\<close>

definition low_char :: "u64 \<Rightarrow> char" where
  "low_char w = char_of (unat (w AND 0xFF))"

definition toBinary :: "StreamID \<Rightarrow> string" where
  "toBinary s =
     [low_char (drop_bit 56 (ms s)), low_char (drop_bit 48 (ms s)),
      low_char (drop_bit 40 (ms s)), low_char (drop_bit 32 (ms s)),
      low_char (drop_bit 24 (ms s)), low_char (drop_bit 16 (ms s)),
      low_char (drop_bit 8 (ms s)), low_char (ms s),
      low_char (drop_bit 56 (seq s)), low_char (drop_bit 48 (seq s)),
      low_char (drop_bit 40 (seq s)), low_char (drop_bit 32 (seq s)),
      low_char (drop_bit 24 (seq s)), low_char (drop_bit 16 (seq s)),
      low_char (drop_bit 8 (seq s)), low_char (seq s)]"

definition uchar :: "string \<Rightarrow> nat \<Rightarrow> u64" where
  "uchar s i = of_nat (of_char (s ! i))"

definition fromBinary :: "string \<Rightarrow> StreamID option" where
  "fromBinary s = do {
     assert_that (16 \<le> length s);
     Some (StreamID
       (push_bit 56 (uchar s 0) OR push_bit 48 (uchar s 1) OR push_bit 40 (uchar s 2) OR
        push_bit 32 (uchar s 3) OR push_bit 24 (uchar s 4) OR push_bit 16 (uchar s 5) OR
        push_bit 8 (uchar s 6) OR uchar s 7)
       (push_bit 56 (uchar s 8) OR push_bit 48 (uchar s 9) OR push_bit 40 (uchar s 10) OR
        push_bit 32 (uchar s 11) OR push_bit 24 (uchar s 12) OR push_bit 16 (uchar s 13) OR
        push_bit 8 (uchar s 14) OR uchar s 15)) }"

text \<open>
  The stream: a pointer to its tree, null before the first insertion, whose own root
  pointer may be null.
\<close>

record Stream =
  radixTreePtr :: "RadixTreeNode option option"
  lastInsertStreamID :: StreamID

definition new_stream :: Stream where
  "new_stream = \<lparr>radixTreePtr = None, lastInsertStreamID = StreamID 0 0\<rparr>"

abbreviation dash :: "char \<Rightarrow> bool" where "dash c \<equiv> c = CHR ''-''"

definition fromString :: "u64 \<Rightarrow> Stream \<Rightarrow> string \<Rightarrow> StreamID option" where
  "fromString now st str =
     (if str = ''*'' then
        Some (StreamID now (if ms (lastInsertStreamID st) = now then 1 else 0))
      else if \<not> list_ex dash str then None
      else
        let msStr = takeWhile (\<lambda>c. \<not> dash c) str;
            seqStr = tl (dropWhile (\<lambda>c. \<not> dash c) str);
            (ok, ms_val) = convert_positive_string_to_number msStr
        in if \<not> ok then None
           else if seqStr = ''*'' then
             Some (StreamID ms_val
               (if ms (lastInsertStreamID st) = ms_val then seq (lastInsertStreamID st) + 1 else 0))
           else
             let (ok, seq_val) = convert_positive_string_to_number seqStr
             in if \<not> ok then None else Some (StreamID ms_val seq_val))"

definition insert_stream ::
  "u64 \<Rightarrow> Stream \<Rightarrow> string \<Rightarrow> string \<Rightarrow> StreamErrorType \<times> string \<times> Stream" where
  "insert_stream now st streamId v =
     (case fromString now st streamId of
        None \<Rightarrow> (INVALID_ID_FORMAT, '''', st)
      | Some sid \<Rightarrow>
          if ms sid = 0 \<and> seq sid = 0 then (NOT_GREATER_THAN_ZERO, '''', st)
          else
            let last = lastInsertStreamID st
            in if (ms last \<noteq> 0 \<or> seq last \<noteq> 0) \<and> \<not> isGreater sid last
               then (ID_NOT_GREATER_THAN_LAST, '''', st)
               else
                 let binaryKey = toBinary sid;
                     tree = (case radixTreePtr st of None \<Rightarrow> None | Some t \<Rightarrow> t)
                 in (OK, toString sid,
                     st\<lparr>radixTreePtr := Some (insert_tree tree binaryKey v),
                        lastInsertStreamID := sid\<rparr>))"

definition fromStringForSearch :: "string \<Rightarrow> bool \<Rightarrow> StreamID option" where
  "fromStringForSearch str isEndKey =
     (if str = ''-'' then Some (StreamID 0 0)
      else if str = ''+'' then Some (StreamID (- 1) (- 1))
      else
        let str = (if list_ex dash str then str
                   else if \<not> isEndKey then str @ ''-0''
                   else str @ ''-'' @ nat_to_string UINT64_MAX);
            (okm, msVal) = convert_positive_string_to_number (takeWhile (\<lambda>c. \<not> dash c) str);
            (oks, seqVal) = convert_positive_string_to_number (tl (dropWhile (\<lambda>c. \<not> dash c) str))
        in if \<not> okm then None else if \<not> oks then None else Some (StreamID msVal seqVal))"

text \<open>The result vector, or \<open>None\<close> where the function returns \<open>false\<close>.\<close>

definition xrangeData :: "Stream \<Rightarrow> string \<Rightarrow> string \<Rightarrow> bool \<Rightarrow> (string \<times> string) list option" where
  "xrangeData st startStreamId endStreamId isExclusive = do {
     start \<leftarrow> fromStringForSearch startStreamId False;
     stop \<leftarrow> fromStringForSearch endStreamId True;
     tree \<leftarrow> radixTreePtr st;
     Some (rangeSearch tree (toBinary start) (toBinary stop) [] isExclusive) }"

section \<open>Order of identifiers\<close>

instantiation StreamID :: linorder
begin

definition less_StreamID :: "StreamID \<Rightarrow> StreamID \<Rightarrow> bool" where
  "less_StreamID a b \<longleftrightarrow> isGreater b a"

definition less_eq_StreamID :: "StreamID \<Rightarrow> StreamID \<Rightarrow> bool" where
  "less_eq_StreamID a b \<longleftrightarrow> a = b \<or> isGreater b a"

instance
  by standard
    (auto simp: less_StreamID_def less_eq_StreamID_def isGreater_def StreamID.expand split: if_splits)

end

lemma less_StreamID_iff:
  "StreamID m s < StreamID m' s' \<longleftrightarrow> unat m < unat m' \<or> m = m' \<and> unat s < unat s'"
  by (auto simp: less_StreamID_def isGreater_def word_less_nat_alt word_unat_eq_iff)

section \<open>Big-endian keys\<close>

text \<open>The \<open>k\<close> low base-256 digits of a number, most significant first.\<close>

fun be :: "nat \<Rightarrow> nat \<Rightarrow> string" where
  "be 0 n = []"
| "be (Suc k) n = be k (n div 256) @ [char_of (n mod 256)]"

lemma length_be [simp]: "length (be k n) = k"
  by (induction k arbitrary: n) simp_all

lemma snoc_less_snoc:
  "length xs = length ys \<Longrightarrow> xs @ [a] < ys @ [b] \<longleftrightarrow> xs < ys \<or> xs = ys \<and> a < (b :: char)"
  by (induction xs ys rule: list_induct2) auto

lemma append_less_append_eq_length:
  "length xs = length ys \<Longrightarrow> (xs :: string) @ us < ys @ vs \<longleftrightarrow> xs < ys \<or> xs = ys \<and> us < vs"
  by (induction xs ys rule: list_induct2) auto

lemma char_of_less: "(char_of a :: char) < char_of b \<longleftrightarrow> a mod 256 < b mod (256 :: nat)"
  by (simp add: less_char_def)

lemma char_of_inject: "(char_of a :: char) = char_of b \<longleftrightarrow> a mod 256 = b mod (256 :: nat)"
  by (metis of_char_of char_of_mod_256)

lemma div_mod_eq_iff: "m = n \<longleftrightarrow> m div 256 = n div 256 \<and> m mod 256 = n mod (256::nat)"
  by (metis div_mult_mod_eq)

lemma div_mod_less_iff:
  "m < n \<longleftrightarrow> m div 256 < n div 256 \<or> m div 256 = n div 256 \<and> m mod 256 < n mod (256::nat)"
proof -
  have "m = 256 * (m div 256) + m mod 256" "n = 256 * (n div 256) + n mod 256"
    "m mod 256 < 256" "n mod 256 < 256" by simp_all
  then show ?thesis by linarith
qed

lemma be_inject: "m < 256 ^ k \<Longrightarrow> n < 256 ^ k \<Longrightarrow> be k m = be k n \<longleftrightarrow> m = n"
proof (induction k arbitrary: m n)
  case (Suc k)
  then have "m div 256 < 256 ^ k" "n div 256 < 256 ^ k" by (auto simp: less_mult_imp_div_less)
  with Suc.IH [of "m div 256" "n div 256"] show ?case
    using div_mod_eq_iff [of m n] by (simp add: char_of_inject)
qed simp

lemma be_less: "m < 256 ^ k \<Longrightarrow> n < 256 ^ k \<Longrightarrow> be k m < be k n \<longleftrightarrow> m < n"
proof (induction k arbitrary: m n)
  case (Suc k)
  then have d: "m div 256 < 256 ^ k" "n div 256 < 256 ^ k" by (auto simp: less_mult_imp_div_less)
  from Suc.IH [OF d] d show ?case
    by (simp add: snoc_less_snoc be_inject char_of_less div_mod_less_iff [of m n])
qed simp

lemma unat_u64_less: "unat (w :: u64) < 256 ^ 8"
proof -
  have "unat w < 2 ^ LENGTH(64)" by (rule unsigned_less)
  then show ?thesis by simp
qed

lemma be8_less: "be 8 (unat v) < be 8 (unat w) \<longleftrightarrow> unat v < unat (w :: u64)" for v :: u64
  by (intro be_less unat_u64_less)

lemma be8_eq: "be 8 (unat v) = be 8 (unat w) \<longleftrightarrow> v = (w :: u64)" for v :: u64
  using be_inject [OF unat_u64_less unat_u64_less, of v w] by (simp add: word_unat_eq_iff)

lemma low_char_drop: "low_char (drop_bit n w) = char_of (unat w div 2 ^ n mod 256)"
proof -
  have "unat (drop_bit n w AND 0xFF) = unat (take_bit 8 (drop_bit n w))"
    by (simp add: take_bit_eq_mask mask_eq_exp_minus_1)
  also have "\<dots> = unat w div 2 ^ n mod 256"
    by (simp only: unsigned_take_bit_eq unat_drop_bit_eq) (simp add: take_bit_eq_mod drop_bit_eq_div)
  finally show ?thesis by (simp add: low_char_def)
qed

lemma toBinary_be: "toBinary (StreamID m s) = be 8 (unat m) @ be 8 (unat s)"
proof -
  have eight: "(8::nat) = Suc (Suc (Suc (Suc (Suc (Suc (Suc (Suc 0)))))))" by simp
  have "be 8 n = [char_of (n div 2 ^ 56 mod 256), char_of (n div 2 ^ 48 mod 256),
      char_of (n div 2 ^ 40 mod 256), char_of (n div 2 ^ 32 mod 256), char_of (n div 2 ^ 24 mod 256),
      char_of (n div 2 ^ 16 mod 256), char_of (n div 2 ^ 8 mod 256), char_of (n mod 256)]" for n
    by (simp only: eight be.simps append_Nil append_Cons) (simp add: div_mult2_eq [symmetric])
  moreover have "low_char w = char_of (unat w mod 256)" for w
    using low_char_drop [of 0 w] by simp
  ultimately show ?thesis
    by (simp add: toBinary_def unat_drop_bit_eq char_of_inject) (simp add: drop_bit_eq_div)
qed

lemma toBinary_less [simp]: "toBinary a < toBinary b \<longleftrightarrow> a < b"
proof -
  obtain m s m' s' where "a = StreamID m s" "b = StreamID m' s'" by (cases a; cases b)
  then show ?thesis
    by (simp add: toBinary_be append_less_append_eq_length be8_less be8_eq less_StreamID_iff)
qed

lemma toBinary_eq [simp]: "toBinary a = toBinary b \<longleftrightarrow> a = b"
  by (metis toBinary_less less_irrefl linorder_neqE)

lemma toBinary_le [simp]: "toBinary a \<le> toBinary b \<longleftrightarrow> a \<le> b"
  by (auto simp: le_less)


text \<open>Reassembly of a 64-bit word from its bytes, most significant first.\<close>

lemma push_take_drop_byte:
  fixes w :: u64
  shows "push_bit (n + 8) (drop_bit (n + 8) w) OR push_bit n (take_bit 8 (drop_bit n w)) =
    push_bit n (drop_bit n w)"
proof (rule bit_word_eqI)
  fix k
  show "bit (push_bit (n + 8) (drop_bit (n + 8) w) OR push_bit n (take_bit 8 (drop_bit n w))) k =
      bit (push_bit n (drop_bit n w)) k"
    by (cases "n + 8 \<le> k") (auto simp: bit_simps)
qed

lemma join_bytes:
  fixes w :: u64
  shows "push_bit 56 (take_bit 8 (drop_bit 56 w)) OR push_bit 48 (take_bit 8 (drop_bit 48 w)) OR
    push_bit 40 (take_bit 8 (drop_bit 40 w)) OR push_bit 32 (take_bit 8 (drop_bit 32 w)) OR
    push_bit 24 (take_bit 8 (drop_bit 24 w)) OR push_bit 16 (take_bit 8 (drop_bit 16 w)) OR
    push_bit 8 (take_bit 8 (drop_bit 8 w)) OR take_bit 8 w = w"
proof -
  have top: "push_bit 56 (take_bit 8 (drop_bit 56 w)) = push_bit 56 (drop_bit 56 w)"
    by (rule bit_word_eqI) (auto simp: bit_simps)
  show ?thesis
    using push_take_drop_byte [of 48 w] push_take_drop_byte [of 40 w] push_take_drop_byte [of 32 w]
      push_take_drop_byte [of 24 w] push_take_drop_byte [of 16 w] push_take_drop_byte [of 8 w]
      push_take_drop_byte [of 0 w]
    by (simp add: top or.assoc [symmetric] del: take_bit_drop_bit)
qed

lemma low_char_byte: "of_nat (of_char (low_char w)) = (take_bit 8 w :: u64)"
proof -
  have "w AND 0xFF = take_bit 8 w" by (simp add: take_bit_eq_mask mask_eq_exp_minus_1)
  moreover have "unat (take_bit 8 w) < 256"
    using take_bit_nat_less_exp [of 8 "unat w"] by (simp add: unsigned_take_bit_eq)
  ultimately show ?thesis by (simp add: low_char_def)
qed

lemma fromBinary_toBinary: "fromBinary (toBinary s) = Some s"
  using join_bytes [of "ms s"] join_bytes [of "seq s"]
  by (cases s) (simp add: fromBinary_def toBinary_def uchar_def low_char_byte del: take_bit_drop_bit)

section \<open>Streams as logs\<close>

definition stream_tree :: "Stream \<Rightarrow> RadixTreeNode option" where
  "stream_tree st = (case radixTreePtr st of None \<Rightarrow> None | Some t \<Rightarrow> t)"

definition key_entries :: "(StreamID \<times> string) list \<Rightarrow> (string \<times> string) list" where
  "key_entries log = map (\<lambda>(i, v). (toBinary i, v)) log"

definition stream_rep :: "Stream \<Rightarrow> (StreamID \<times> string) list \<Rightarrow> bool" where
  "stream_rep st log \<longleftrightarrow>
     tree_inv (stream_tree st) \<and> tree_entries (stream_tree st) = key_entries log \<and>
     (radixTreePtr st = None \<longleftrightarrow> log = []) \<and>
     lastInsertStreamID st = (if log = [] then StreamID 0 0 else fst (last log)) \<and>
     sorted_wrt (<) (StreamID 0 0 # map fst log)"

lemma new_stream_rep: "stream_rep new_stream []"
  by (simp add: stream_rep_def new_stream_def stream_tree_def tree_inv_def tree_entries_def
      key_entries_def)

lemma StreamID_zero_less: "StreamID 0 0 < i \<longleftrightarrow> \<not> (ms i = 0 \<and> seq i = 0)"
  by (cases i) (auto simp: less_StreamID_iff unat_gt_0)

lemma fst_key_entries: "fst ` set (key_entries log) = toBinary ` fst ` set log"
  by (force simp: key_entries_def)

lemma stream_rep_last:
  assumes "stream_rep st log"
  shows "\<forall>x \<in> set log. fst x \<le> lastInsertStreamID st" "StreamID 0 0 \<le> lastInsertStreamID st"
    "StreamID 0 0 = lastInsertStreamID st \<longleftrightarrow> log = []"
proof -
  show "\<forall>x \<in> set log. fst x \<le> lastInsertStreamID st" "StreamID 0 0 \<le> lastInsertStreamID st"
    "StreamID 0 0 = lastInsertStreamID st \<longleftrightarrow> log = []"
    using assms by (cases log rule: rev_cases; fastforce simp: stream_rep_def sorted_wrt_append)+
qed

text \<open>An accepted identifier is above the last one, and the entry goes to the end of the log.\<close>

lemma insert_stream_append:
  assumes rep: "stream_rep st log" and sid: "lastInsertStreamID st < sid"
  shows "stream_rep (st\<lparr>radixTreePtr := Some (insert_tree (stream_tree st) (toBinary sid) v),
      lastInsertStreamID := sid\<rparr>) (log @ [(sid, v)])"
proof -
  have inv: "tree_inv (stream_tree st)" using rep by (simp add: stream_rep_def)
  have "fst x < sid" if "x \<in> set log" for x
    using stream_rep_last(1) [OF rep] that sid by (auto intro: le_less_trans)
  then have "\<forall>x \<in> fst ` set (tree_entries (stream_tree st)). x < toBinary sid"
    using rep by (auto simp: stream_rep_def fst_key_entries)
  from radix.bindings_ins_last [OF inv this]
  have "tree_entries (insert_tree (stream_tree st) (toBinary sid) v) = key_entries (log @ [(sid, v)])"
    using rep by (simp add: stream_rep_def key_entries_def)
  moreover have "StreamID 0 0 < sid" using stream_rep_last(2) [OF rep] sid by simp
  ultimately show ?thesis
    using rep radix.ins_inv [OF inv] \<open>\<And>x. x \<in> set log \<Longrightarrow> fst x < sid\<close>
    by (auto simp: stream_rep_def stream_tree_def sorted_wrt_append)
qed

text \<open>Every outcome of an insertion.\<close>

lemma insert_stream_cases:
  assumes rep: "stream_rep st log"
  shows "insert_stream now st streamId v =
    (case fromString now st streamId of
       None \<Rightarrow> (INVALID_ID_FORMAT, '''', st)
     | Some sid \<Rightarrow>
         if sid = StreamID 0 0 then (NOT_GREATER_THAN_ZERO, '''', st)
         else if sid \<le> lastInsertStreamID st then (ID_NOT_GREATER_THAN_LAST, '''', st)
         else (OK, toString sid,
           st\<lparr>radixTreePtr := Some (insert_tree (stream_tree st) (toBinary sid) v),
              lastInsertStreamID := sid\<rparr>))"
proof (cases "fromString now st streamId")
  case None
  then show ?thesis by (simp add: insert_stream_def)
next
  case (Some sid)
  have z: "(ms i = 0 \<and> seq i = 0) \<longleftrightarrow> i = StreamID 0 0" for i by (cases i) auto
  have "\<not> isGreater sid (lastInsertStreamID st) \<longleftrightarrow> sid \<le> lastInsertStreamID st"
    by (simp add: less_StreamID_def [symmetric] not_less)
  moreover have "sid \<le> lastInsertStreamID st \<Longrightarrow> sid \<noteq> StreamID 0 0 \<Longrightarrow> lastInsertStreamID st \<noteq> StreamID 0 0"
    by (metis StreamID_zero_less z leD)
  ultimately show ?thesis
    using Some by (auto simp: insert_stream_def Let_def stream_tree_def z simp flip: de_Morgan_conj)
qed

lemma xrangeData_rep:
  assumes "stream_rep st log" "fromStringForSearch s False = Some start"
    "fromStringForSearch e True = Some stop" "log \<noteq> []"
  shows "xrangeData st s e ex = Some (key_entries
    (filter (\<lambda>(i, v). start \<le> i \<and> i \<le> stop \<and> \<not> (ex \<and> i = start)) log))"
proof -
  from assms(1,4) obtain t where t: "radixTreePtr st = Some t" "tree_inv t" "tree_entries t = key_entries log"
    by (auto simp: stream_rep_def stream_tree_def)
  have "filter (\<lambda>x. in_range (toBinary start) (toBinary stop) ex (fst x)) (key_entries log) =
      key_entries (filter (\<lambda>(i, v). start \<le> i \<and> i \<le> stop \<and> \<not> (ex \<and> i = start)) log)"
    by (induction log) (auto simp: key_entries_def)
  with t assms(2,3) show ?thesis by (simp add: xrangeData_def radix.range_filter)
qed


section \<open>Reading identifiers\<close>

lemma digits_no_dash [simp]: "list_all isdigit s \<Longrightarrow> CHR ''-'' \<notin> set s"
  by (auto simp: list_all_iff)

lemma split_dash:
  assumes "CHR ''-'' \<notin> set a"
  shows "takeWhile (\<lambda>c. \<not> dash c) (a @ CHR ''-'' # b) = a"
    "tl (dropWhile (\<lambda>c. \<not> dash c) (a @ CHR ''-'' # b)) = b"
  using assms by (subst takeWhile_append2 dropWhile_append2; auto)+

lemma digits_dash_neq:
  "list_all isdigit a \<Longrightarrow> a @ CHR ''-'' # b \<noteq> ''*''" "b \<noteq> [] \<Longrightarrow> a @ CHR ''-'' # b \<noteq> ''-''"
  "a @ CHR ''-'' # b \<noteq> ''+''"
  by (cases a; auto)+

lemma digits_neq_star: "list_all isdigit a \<Longrightarrow> a \<noteq> ''*''"
  by (auto simp: isdigit_def)

text \<open>A full identifier, both parts as decimal digits, is read with the value of each part.\<close>

lemma fromString_full:
  assumes "list_all isdigit a" "list_all isdigit b"
  shows "fromString now st (a @ ''-'' @ b) =
    Some (StreamID (of_nat (digits_value 0 a)) (of_nat (digits_value 0 b)))"
  using assms
  by (simp add: fromString_def split_dash digits_dash_neq digits_neq_star convert_positive_digits)

lemma fromStringForSearch_full:
  assumes "list_all isdigit a" "list_all isdigit b" "b \<noteq> []"
  shows "fromStringForSearch (a @ ''-'' @ b) isEnd =
    Some (StreamID (of_nat (digits_value 0 a)) (of_nat (digits_value 0 b)))"
  using assms
  by (simp add: fromStringForSearch_def split_dash digits_dash_neq convert_positive_digits)

text \<open>A bare millisecond part covers all its sequence numbers.\<close>

lemma fromStringForSearch_ms:
  assumes "list_all isdigit a"
  shows "fromStringForSearch a False = Some (StreamID (of_nat (digits_value 0 a)) 0)"
    "fromStringForSearch a True = Some (StreamID (of_nat (digits_value 0 a)) (- 1))"
proof -
  have n: "a \<noteq> ''-''" "a \<noteq> ''+''" "\<not> list_ex dash a"
    using assms by (auto simp: isdigit_def list_ex_iff list_all_iff)
  have z: "convert_positive_string_to_number ''0'' = (True, 0)"
    using convert_positive_nat_to_string [of 0] by (simp add: nat_to_string_small)
  have "(of_nat UINT64_MAX :: u64) = - 1" by simp
  with n assms z show "fromStringForSearch a False = Some (StreamID (of_nat (digits_value 0 a)) 0)"
    "fromStringForSearch a True = Some (StreamID (of_nat (digits_value 0 a)) (- 1))"
    by (simp_all add: fromStringForSearch_def split_dash convert_positive_digits del: of_nat_numeral)
qed

lemma fromStringForSearch_toString: "fromStringForSearch (toString i) isEnd = Some i"
  using fromStringForSearch_full [of "nat_to_string (unat (ms i))" "nat_to_string (unat (seq i))" isEnd]
  by (simp add: toString_def)

lemma fromString_toString: "fromString now st (toString i) = Some i"
  using fromString_full [of "nat_to_string (unat (ms i))" "nat_to_string (unat (seq i))" now st]
  by (simp add: toString_def)

text \<open>The automatic sequence number.\<close>

lemma fromString_auto_seq:
  assumes "list_all isdigit a"
  shows "fromString now st (a @ ''-*'') =
    Some (StreamID (of_nat (digits_value 0 a))
      (if ms (lastInsertStreamID st) = of_nat (digits_value 0 a)
       then seq (lastInsertStreamID st) + 1 else 0))"
  using assms by (simp add: fromString_def split_dash digits_dash_neq convert_positive_digits)

text \<open>The fully automatic identifier never gets past sequence number 1 within a millisecond.\<close>

lemma insert_stream_star_rejected:
  assumes "stream_rep st log" "lastInsertStreamID st = StreamID now k" "k \<noteq> 0"
  shows "insert_stream now st ''*'' v = (ID_NOT_GREATER_THAN_LAST, '''', st)"
proof -
  have "StreamID now 1 \<noteq> StreamID 0 0" by simp
  moreover have "StreamID now 1 \<le> StreamID now k"
  proof (cases "k = 1")
    case False
    have "0 < unat k" using assms(3) by (simp add: unat_gt_0)
    moreover have "unat k \<noteq> unat (1 :: u64)" using False by (simp only: word_unat_eq_iff [symmetric]) simp
    ultimately show ?thesis by (simp add: le_less less_StreamID_iff)
  qed simp
  ultimately show ?thesis
    using assms(2) by (simp add: insert_stream_cases [OF assms(1)] fromString_def)
qed


end
