(* ===== verification/SortedSet.thy ===== *)
theory SortedSet
  imports Prelude "HOL-Library.Product_Lexorder"
begin

text \<open>
  \<open>src/src/sortedset.h\<close> and \<open>src/src/sortedset.cpp\<close>: a member-to-score hash map beside the
  ordered set of score/member pairs and a counter. The code only compares and copies
  scores, so their type is any linear order (a \<open>double\<close> that is not a NaN). The theorems:
  the three fields stay consistent, and every query agrees with the finite map from
  members to scores, ranks and ranges following the order by score, then member.
\<close>

section \<open>Definitions\<close>

record 'd SortedSet =
  hashMap :: "string \<rightharpoonup> 'd"
  sets :: "('d \<times> string) list"
  length' :: u64
  isGeo :: bool

definition new_sorted_set :: "'d SortedSet" where
  "new_sorted_set = \<lparr>hashMap = (\<lambda>_. None), sets = [], length' = 0, isGeo = False\<rparr>"

text \<open>\<open>std::set\<close> as its ordered list: \<open>insert\<close> of a present element changes nothing.\<close>

fun set_insert :: "'a::linorder \<Rightarrow> 'a list \<Rightarrow> 'a list" where
  "set_insert x [] = [x]"
| "set_insert x (y # ys) =
     (if x < y then x # y # ys else if x = y then y # ys else y # set_insert x ys)"

definition set_erase :: "'a \<Rightarrow> 'a list \<Rightarrow> 'a list" where
  "set_erase x xs = filter (\<lambda>y. y \<noteq> x) xs"

definition insert_zset :: "'d::linorder SortedSet \<Rightarrow> string \<Rightarrow> 'd \<Rightarrow> bool \<times> 'd SortedSet" where
  "insert_zset z key score =
     (let (alreadyExists, z1) =
        (case hashMap z key of
           Some oldScore \<Rightarrow>
             (True, z\<lparr>sets := set_erase (oldScore, key) (sets z),
                      hashMap := (hashMap z)(key := None),
                      length' := length' z - 1\<rparr>)
         | None \<Rightarrow> (False, z))
      in (alreadyExists,
          z1\<lparr>hashMap := (hashMap z1)(key \<mapsto> score),
             sets := set_insert (score, key) (sets z1),
             length' := length' z1 + 1\<rparr>))"

definition remove_zset :: "'d::linorder SortedSet \<Rightarrow> string \<Rightarrow> bool \<times> 'd SortedSet" where
  "remove_zset z member =
     (case hashMap z member of
        None \<Rightarrow> (False, z)
      | Some score \<Rightarrow>
          (True, z\<lparr>hashMap := (hashMap z)(member := None),
                   sets := set_erase (score, member) (sets z),
                   length' := length' z - 1\<rparr>))"

definition rank_zset :: "'d::linorder SortedSet \<Rightarrow> string \<Rightarrow> nat option" where
  "rank_zset z member =
     (case hashMap z member of
        None \<Rightarrow> None
      | Some score \<Rightarrow>
          if (score, member) \<in> set (sets z)
          then Some (length (takeWhile (\<lambda>x. x \<noteq> (score, member)) (sets z))) else None)"

definition score_zset :: "'d SortedSet \<Rightarrow> string \<Rightarrow> 'd option" where
  "score_zset z member = hashMap z member"

definition size_zset :: "'d SortedSet \<Rightarrow> u64" where
  "size_zset z = length' z"

text \<open>The loop of \<open>range\<close> from the iterator at \<open>start\<close>: \<open>stop - start + 1\<close> steps or to the end.\<close>

definition range_zset :: "'d SortedSet \<Rightarrow> int \<Rightarrow> int \<Rightarrow> string list" where
  "range_zset z start stop =
     (let sz = int (length (sets z)) in
      if sz = 0 then []
      else
        let start = (if start < 0 then sz + start else start);
            stop = (if stop < 0 then sz + stop else stop);
            start = (if start < 0 then 0 else start);
            stop = (if sz \<le> stop then sz - 1 else stop)
        in if stop < start then []
           else map snd (take (nat (stop - start + 1)) (drop (nat start) (sets z))))"

text \<open>
  Iteration over the hash map: its order is unspecified, so the walk is the argument
  \<open>iter\<close>, which lists the bindings of a map.
\<close>

definition getAllWithScores ::
  "((string \<rightharpoonup> 'd) \<Rightarrow> (string \<times> 'd) list) \<Rightarrow> 'd SortedSet \<Rightarrow> (string \<times> 'd) list" where
  "getAllWithScores iter z = iter (hashMap z)"

section \<open>Ordered sets\<close>

lemma set_set_insert [simp]: "set (set_insert x xs) = insert x (set xs)"
  by (induction xs) auto

lemma set_insert_sorted: "sorted_wrt (<) xs \<Longrightarrow> sorted_wrt (<) (set_insert x xs)"
  by (induction xs) auto

lemma length_set_insert: "x \<notin> set xs \<Longrightarrow> length (set_insert x xs) = Suc (length xs)"
  by (induction xs) auto

lemma set_set_erase [simp]: "set (set_erase x xs) = set xs - {x}"
  by (auto simp: set_erase_def)

lemma set_erase_sorted: "sorted_wrt (<) xs \<Longrightarrow> sorted_wrt (<) (set_erase x xs)"
  by (simp add: set_erase_def sorted_wrt_filter)

lemma length_set_erase:
  "sorted_wrt (<) (xs :: 'a::linorder list) \<Longrightarrow> x \<in> set xs \<Longrightarrow> length xs = Suc (length (set_erase x xs))"
proof (induction xs)
  case (Cons y ys)
  show ?case
  proof (cases "x = y")
    case True
    with Cons.prems have "set_erase x ys = ys" by (auto simp: set_erase_def filter_id_conv)
    with True show ?thesis by (simp add: set_erase_def)
  next
    case False
    with Cons show ?thesis by (auto simp: set_erase_def)
  qed
qed simp

text \<open>The position of an element of an ordered list is the number of smaller ones.\<close>

lemma takeWhile_sorted:
  "sorted_wrt (<) (xs :: 'a::linorder list) \<Longrightarrow> x \<in> set xs \<Longrightarrow>
     takeWhile (\<lambda>y. y \<noteq> x) xs = filter (\<lambda>y. y < x) xs"
proof (induction xs)
  case (Cons y ys)
  show ?case
  proof (cases "x = y")
    case True
    with Cons.prems have "filter (\<lambda>y. y < x) ys = []" by (auto simp: filter_empty_conv)
    with True show ?thesis by simp
  next
    case False
    with Cons show ?thesis by auto
  qed
qed simp

lemma nth_takeWhile_neq: "x \<in> set xs \<Longrightarrow> xs ! length (takeWhile (\<lambda>y. y \<noteq> x) xs) = x \<and>
    length (takeWhile (\<lambda>y. y \<noteq> x) xs) < length xs"
  by (induction xs) auto

section \<open>The interface of a scored set\<close>

text \<open>
  What the sorted set commands rely on: a finite map from members to scores, listed in
  the order of scores and, for equal scores, of members.
\<close>

locale scored_set =
  fixes inv :: "'z \<Rightarrow> bool"
    and smap :: "'z \<Rightarrow> string \<rightharpoonup> 'd::linorder"
    and listing :: "'z \<Rightarrow> ('d \<times> string) list"
    and emp :: 'z
    and add :: "'z \<Rightarrow> string \<Rightarrow> 'd \<Rightarrow> bool \<times> 'z"
    and del :: "'z \<Rightarrow> string \<Rightarrow> bool \<times> 'z"
    and rank :: "'z \<Rightarrow> string \<Rightarrow> nat option"
  assumes emp_inv: "inv emp" and emp_map: "smap emp = (\<lambda>_. None)"
    and listing_sorted: "inv z \<Longrightarrow> sorted_wrt (<) (listing z)"
    and listing_set: "inv z \<Longrightarrow> set (listing z) = {(s, m). smap z m = Some s}"
    and add_inv: "inv z \<Longrightarrow> inv (snd (add z m s))"
    and add_map: "inv z \<Longrightarrow> smap (snd (add z m s)) = (smap z)(m \<mapsto> s)"
    and add_flag: "inv z \<Longrightarrow> fst (add z m s) \<longleftrightarrow> smap z m \<noteq> None"
    and del_inv: "inv z \<Longrightarrow> inv (snd (del z m))"
    and del_map: "inv z \<Longrightarrow> smap (snd (del z m)) = (smap z)(m := None)"
    and del_flag: "inv z \<Longrightarrow> fst (del z m) \<longleftrightarrow> smap z m \<noteq> None"
    and rank_listing: "inv z \<Longrightarrow> rank z m =
      map_option (\<lambda>s. length (filter (\<lambda>y. y < (s, m)) (listing z))) (smap z m)"
begin

lemma listing_distinct: "inv z \<Longrightarrow> distinct (listing z)"
  using listing_sorted [of z] by (simp add: strict_sorted_iff)

text \<open>The rank of a member counts the pairs below its own.\<close>

lemma rank_card:
  assumes "inv z" "smap z m = Some s"
  shows "rank z m = Some (card {(s', m'). smap z m' = Some s' \<and> (s', m') < (s, m)})"
proof -
  have "length (filter (\<lambda>y. y < (s, m)) (listing z)) = card (set (filter (\<lambda>y. y < (s, m)) (listing z)))"
    by (rule distinct_card [symmetric]) (simp add: listing_distinct assms(1))
  also have "set (filter (\<lambda>y. y < (s, m)) (listing z)) = {(s', m'). smap z m' = Some s' \<and> (s', m') < (s, m)}"
    using listing_set [OF assms(1)] by auto
  finally show ?thesis using assms by (simp add: rank_listing)
qed

lemma rank_None: "inv z \<Longrightarrow> rank z m = None \<longleftrightarrow> smap z m = None"
  by (simp add: rank_listing)

text \<open>Different members have different ranks.\<close>

lemma rank_inject:
  assumes "inv z" "rank z m = Some i" "rank z m' = Some i"
  shows "m = m'"
proof -
  from assms obtain s s' where s: "smap z m = Some s" "smap z m' = Some s'"
    using rank_None by (metis option.exhaust option.distinct(1))
  have eq: "length (filter (\<lambda>y. y < (s, m)) (listing z)) = length (filter (\<lambda>y. y < (s', m')) (listing z))"
    using assms s by (simp add: rank_listing)
  have in_l: "(s, m) \<in> set (listing z)" "(s', m') \<in> set (listing z)"
    using s listing_set [OF assms(1)] by auto
  have so: "sorted_wrt (<) (listing z)" using assms(1) by (rule listing_sorted)
  have nth: "listing z ! length (filter (\<lambda>y. y < (s, m)) (listing z)) = (s, m)"
    using nth_takeWhile_neq [OF in_l(1)] takeWhile_sorted [OF so in_l(1)] by simp
  have "listing z ! length (filter (\<lambda>y. y < (s', m')) (listing z)) = (s', m')"
    using nth_takeWhile_neq [OF in_l(2)] takeWhile_sorted [OF so in_l(2)] by simp
  with nth [unfolded eq] show ?thesis by simp
qed

lemma del_add: "inv z \<Longrightarrow> smap z m = None \<Longrightarrow> smap (snd (del (snd (add z m s)) m)) = smap z"
  by (simp add: del_map add_map add_inv fun_upd_idem)

end

section \<open>The sorted set provides it\<close>

definition zset_inv :: "'d::linorder SortedSet \<Rightarrow> bool" where
  "zset_inv z \<longleftrightarrow> sorted_wrt (<) (sets z) \<and> set (sets z) = {(s, m). hashMap z m = Some s} \<and>
     length' z = of_nat (length (sets z))"

lemma zset_inv_mem: "zset_inv z \<Longrightarrow> hashMap z m = Some s \<Longrightarrow> (s, m) \<in> set (sets z)"
  by (simp add: zset_inv_def)

lemma remove_zset_inv: "zset_inv z \<Longrightarrow> zset_inv (snd (remove_zset z m))"
proof (cases "hashMap z m")
  case (Some s)
  assume inv: "zset_inv z"
  have "length (sets z) = Suc (length (set_erase (s, m) (sets z)))"
    using inv zset_inv_mem [OF inv Some] by (intro length_set_erase) (auto simp: zset_inv_def)
  then have "length' z - 1 = of_nat (length (set_erase (s, m) (sets z)))"
    using inv by (simp add: zset_inv_def)
  with Some inv show ?thesis
    by (auto simp: remove_zset_def zset_inv_def set_erase_sorted)
qed (simp add: remove_zset_def)

text \<open>An insertion is a removal followed by the insertion of a new member.\<close>

lemma insert_zset_new:
  assumes "zset_inv z" "hashMap z m = None"
  shows "zset_inv (snd (insert_zset z m s))"
proof -
  have "(s, m) \<notin> set (sets z)" using assms by (simp add: zset_inv_def)
  then have "length (set_insert (s, m) (sets z)) = Suc (length (sets z))" by (rule length_set_insert)
  with assms show ?thesis
    by (auto simp: insert_zset_def zset_inv_def set_insert_sorted)
qed

lemma insert_zset_remove:
  "snd (insert_zset z m s) = snd (insert_zset (snd (remove_zset z m)) m s)"
  by (cases "hashMap z m") (simp_all add: insert_zset_def remove_zset_def)

lemma insert_zset_inv: "zset_inv z \<Longrightarrow> zset_inv (snd (insert_zset z m s))"
  by (subst insert_zset_remove, rule insert_zset_new, erule remove_zset_inv)
    (simp add: remove_zset_def split: option.splits)

interpretation zset: scored_set "zset_inv :: 'd::linorder SortedSet \<Rightarrow> bool" hashMap sets new_sorted_set
  insert_zset remove_zset rank_zset
proof
  fix z :: "'d SortedSet" and m s
  assume inv: "zset_inv z"
  show "rank_zset z m = map_option (\<lambda>s. length (filter (\<lambda>y. y < (s, m)) (sets z))) (hashMap z m)"
    using inv zset_inv_mem [OF inv, of m] takeWhile_sorted [of "sets z"]
    by (auto simp: rank_zset_def zset_inv_def split: option.splits)
  show "sorted_wrt (<) (sets z)" "set (sets z) = {(s, m). hashMap z m = Some s}"
    using inv by (simp_all add: zset_inv_def)
  show "zset_inv (snd (insert_zset z m s))" "zset_inv (snd (remove_zset z m))"
    using inv by (rule insert_zset_inv, rule remove_zset_inv)
  show "hashMap (snd (insert_zset z m s)) = (hashMap z)(m \<mapsto> s)"
    "fst (insert_zset z m s) \<longleftrightarrow> hashMap z m \<noteq> None"
    by (simp_all add: insert_zset_def split: option.splits)
  show "hashMap (snd (remove_zset z m)) = (hashMap z)(m := None)"
    "fst (remove_zset z m) \<longleftrightarrow> hashMap z m \<noteq> None"
    by (auto simp: remove_zset_def split: option.splits)
qed (simp_all add: zset_inv_def new_sorted_set_def)

lemma size_zset_card:
  assumes "zset_inv z"
  shows "size_zset z = of_nat (card (dom (hashMap z)))"
proof -
  have "dom (hashMap z) = snd ` set (sets z)" using assms by (force simp: zset_inv_def)
  moreover have "inj_on snd (set (sets z))" using assms by (auto simp: zset_inv_def inj_on_def)
  moreover have "distinct (sets z)" using assms by (simp add: zset_inv_def strict_sorted_iff)
  moreover have "length (sets z) = card (set (sets z))"
    using \<open>distinct (sets z)\<close> by (rule distinct_card [symmetric])
  moreover have "length' z = of_nat (length (sets z))" using assms by (simp add: zset_inv_def)
  ultimately show ?thesis by (simp add: card_image size_zset_def)
qed

section \<open>Ranges\<close>

text \<open>The indices a range denotes, clamped to the set.\<close>

definition clamp_range :: "nat \<Rightarrow> int \<Rightarrow> int \<Rightarrow> nat list" where
  "clamp_range n start stop =
     filter (\<lambda>i. (if start < 0 then int n + start else start) \<le> int i \<and>
                 int i \<le> (if stop < 0 then int n + stop else stop)) [0..<n]"

lemma filter_between_upt:
  "b < n \<Longrightarrow> filter (\<lambda>i. a \<le> i \<and> i \<le> b) [0..<n] = [a..<Suc b]"
proof (induction n)
  case (Suc n)
  show ?case
  proof (cases "b = n")
    case True
    have "filter (\<lambda>i. a \<le> i \<and> i \<le> n) [0..<k] = [a..<k]" if "k \<le> n" for k
      using that by (induction k) auto
    with True show ?thesis by (auto simp: less_Suc_eq_le)
  next
    case False
    with Suc show ?thesis by auto
  qed
qed simp

lemma range_zset_clamp:
  "range_zset z start stop = map (\<lambda>i. snd (sets z ! i)) (clamp_range (length (sets z)) start stop)"
proof -
  define n where "n = length (sets z)"
  define a where "a = (if start < 0 then max 0 (int n + start) else start)"
  define b where "b = min (int n - 1) (if stop < 0 then int n + stop else stop)"
  have c: "clamp_range n start stop = filter (\<lambda>i. a \<le> int i \<and> int i \<le> b) [0..<n]"
    unfolding clamp_range_def by (rule filter_cong) (auto simp: a_def b_def)
  have r: "range_zset z start stop =
      (if b < a then [] else map snd (take (nat (b - a + 1)) (drop (nat a) (sets z))))"
  proof (cases "sets z = []")
    case True
    then show ?thesis by (simp add: range_zset_def a_def b_def n_def)
  next
    case False
    then have "0 < int n" by (simp add: n_def)
    then show ?thesis
      by (auto simp: range_zset_def Let_def a_def b_def n_def [symmetric] max_def min_def)
  qed
  show ?thesis
  proof (cases "b < a")
    case True
    then have "clamp_range n start stop = []" unfolding c by (auto simp: filter_empty_conv)
    with True show ?thesis by (simp add: r n_def)
  next
    case False
    have a0: "0 \<le> a" by (simp add: a_def)
    have bn: "b < int n" by (simp add: b_def)
    have "filter (\<lambda>i. a \<le> int i \<and> int i \<le> b) [0..<n] = filter (\<lambda>i. nat a \<le> i \<and> i \<le> nat b) [0..<n]"
      using a0 False by (intro filter_cong) auto
    also have "\<dots> = [nat a..<Suc (nat b)]" using bn a0 False by (intro filter_between_upt) auto
    finally have "clamp_range n start stop = [nat a..<Suc (nat b)]" by (simp add: c)
    moreover have "take (nat (b - a + 1)) (drop (nat a) (sets z)) = map ((!) (sets z)) [nat a..<Suc (nat b)]"
      using a0 bn False by (intro nth_equalityI) (auto simp: n_def simp del: upt_Suc)
    ultimately show ?thesis using False by (simp add: r n_def)
  qed
qed

end
