(* ===== verification/Command.thy ===== *)
theory Command
  imports Utils Complex_Main
begin

text \<open>
  \<open>src/src/parser/command.h\<close>: the commands with their fields, the predicate that decides
  whether a command is propagated, its serialisation and its printed name. Floating point
  fields are reals; \<open>std::to_string\<close> on \<open>double\<close> is the parameter \<open>dtos\<close>. The field
  \<open>bytes_processed\<close> of the base class is returned by the parser beside the command.
\<close>

section \<open>Definitions\<close>

datatype (plugins only: code size) CommandType =
    ECHO | PING | SET | GET | TYPE_CMD | RPUSH | LPUSH | LRANGE | LLEN | LPOP | BLPOP
  | XADD | XRANGE | XREAD | INCR | UNKNOWN | MULTI | EXEC | DISCARD | INFO | REPLCONF | PSYNC
  | WAIT | GETCONFIG | KEYS | SUBSCRIBE | PUBLISH | UNSUBSCRIBE | ZADD | ZRANK | ZRANGE
  | ZCARD | ZSCORE | ZREM | GEOADD | GEOPOS | GEODIST | GEOSEARCH | ACL_WHOAMI | ACL_GETUSER
  | ACL_SETUSER | AUTH

datatype ReplConfType = LISTENING_PORT | CAPA | GETACK | ACK

text \<open>The arguments follow the declaration order of the fields, the key first.\<close>

datatype (plugins only: code size) Command =
    UnSubscribeCommand string
  | GeoAddCommand string real real real string bool
  | GeoPosCommand string "string list"
  | GeoDistCommand string string string
  | GeoSearchCommand string real real real
  | ZaddCommand string "(real \<times> string) list"
  | SubscribeCommand string
  | PublishCommand string string
  | UnknowCommand
  | PingCommand
  | EchoCommand string
  | ACLWhoamiCommand
  | ACLGetUserCommand string
  | ACLSetUserCommand string "string option" "string list"
  | AuthCommand string string
  | SetCommand string string "u64 option" "u64 option"
  | GetCommand string
  | TypeCommand string
  | IncrCommand string
  | RpushCommand string "string list"
  | LpushCommand string "string list"
  | LrangeCommand string int int
  | LlenCommand string
  | LpopCommand string "nat option"
  | BlpopCommand "string list" real
  | XaddCommand string string "(string \<times> string) list"
  | XrangeCommand string string string
  | XreadCommand "real option" "string list" "string list"
  | MultiCommand
  | ExecCommand
  | DiscardCommand
  | InfoCommand bool
  | ReplConfCommand ReplConfType string string int
  | PsyncCommand string int
  | WaitCommand u64 u64
  | GetConfigCommand "string list"
  | KeysCommand string
  | ZrankCommand string string
  | ZrangeCommand string int int
  | ZcardCommand string
  | ZscoreCommand string string
  | ZremCommand string "string list"

primrec cmd_type :: "Command \<Rightarrow> CommandType" where
  "cmd_type (UnSubscribeCommand _) = UNSUBSCRIBE"
| "cmd_type (GeoAddCommand _ _ _ _ _ _) = GEOADD"
| "cmd_type (GeoPosCommand _ _) = GEOPOS"
| "cmd_type (GeoDistCommand _ _ _) = GEODIST"
| "cmd_type (GeoSearchCommand _ _ _ _) = GEOSEARCH"
| "cmd_type (ZaddCommand _ _) = ZADD"
| "cmd_type (SubscribeCommand _) = SUBSCRIBE"
| "cmd_type (PublishCommand _ _) = PUBLISH"
| "cmd_type UnknowCommand = UNKNOWN"
| "cmd_type PingCommand = PING"
| "cmd_type (EchoCommand _) = ECHO"
| "cmd_type ACLWhoamiCommand = ACL_WHOAMI"
| "cmd_type (ACLGetUserCommand _) = ACL_GETUSER"
| "cmd_type (ACLSetUserCommand _ _ _) = ACL_SETUSER"
| "cmd_type (AuthCommand _ _) = AUTH"
| "cmd_type (SetCommand _ _ _ _) = SET"
| "cmd_type (GetCommand _) = GET"
| "cmd_type (TypeCommand _) = TYPE_CMD"
| "cmd_type (IncrCommand _) = INCR"
| "cmd_type (RpushCommand _ _) = RPUSH"
| "cmd_type (LpushCommand _ _) = LPUSH"
| "cmd_type (LrangeCommand _ _ _) = LRANGE"
| "cmd_type (LlenCommand _) = LLEN"
| "cmd_type (LpopCommand _ _) = LPOP"
| "cmd_type (BlpopCommand _ _) = BLPOP"
| "cmd_type (XaddCommand _ _ _) = XADD"
| "cmd_type (XrangeCommand _ _ _) = XRANGE"
| "cmd_type (XreadCommand _ _ _) = XREAD"
| "cmd_type MultiCommand = MULTI"
| "cmd_type ExecCommand = EXEC"
| "cmd_type DiscardCommand = DISCARD"
| "cmd_type (InfoCommand _) = INFO"
| "cmd_type (ReplConfCommand _ _ _ _) = REPLCONF"
| "cmd_type (PsyncCommand _ _) = PSYNC"
| "cmd_type (WaitCommand _ _) = WAIT"
| "cmd_type (GetConfigCommand _) = GETCONFIG"
| "cmd_type (KeysCommand _) = KEYS"
| "cmd_type (ZrankCommand _ _) = ZRANK"
| "cmd_type (ZrangeCommand _ _ _) = ZRANGE"
| "cmd_type (ZcardCommand _) = ZCARD"
| "cmd_type (ZscoreCommand _ _) = ZSCORE"
| "cmd_type (ZremCommand _ _) = ZREM"

definition is_write_command :: "Command \<Rightarrow> bool" where
  "is_write_command cmd \<longleftrightarrow>
     (case cmd of
        GeoAddCommand _ _ _ _ _ _ \<Rightarrow> True
      | ZaddCommand _ _ \<Rightarrow> True
      | ACLSetUserCommand _ _ _ \<Rightarrow> True
      | SetCommand _ _ _ _ \<Rightarrow> True
      | IncrCommand _ \<Rightarrow> True
      | RpushCommand _ _ \<Rightarrow> True
      | LpushCommand _ _ \<Rightarrow> True
      | LpopCommand _ _ \<Rightarrow> True
      | XaddCommand _ _ _ \<Rightarrow> True
      | ZremCommand _ _ \<Rightarrow> True
      | _ \<Rightarrow> False)"

text \<open>\<open>static_cast<int64_t>\<close> of a floating point number drops the fraction.\<close>

definition trunc_real :: "real \<Rightarrow> int" where
  "trunc_real r = (if r < 0 then \<lceil>r\<rceil> else \<lfloor>r\<rfloor>)"

text \<open>The array header and one bulk string, written as \<open>to_resp\<close> concatenates them.\<close>

abbreviation arr :: "nat \<Rightarrow> string" where
  "arr n \<equiv> ''*'' @ nat_to_string n @ CRLF"

text \<open>The overrides of \<open>to_resp\<close>, one per struct, and the virtual call.\<close>

definition GeoAddCommand_to_resp :: "(real \<Rightarrow> string) \<Rightarrow> string \<Rightarrow> real \<Rightarrow> real \<Rightarrow> real \<Rightarrow> string \<Rightarrow> bool \<Rightarrow> string" where
  "GeoAddCommand_to_resp dtos key lon lat score mem bad =
     arr 5 @ bulk ''GEOADD'' @ bulk key @ bulk (dtos lon) @ bulk (dtos lat) @ bulk mem"

definition GeoPosCommand_to_resp :: "string \<Rightarrow> (string list) \<Rightarrow> string" where
  "GeoPosCommand_to_resp key members =
     arr 2 @ bulk ''GEOPOS'' @ bulk key @ bulks members"

definition GeoDistCommand_to_resp :: "string \<Rightarrow> string \<Rightarrow> string \<Rightarrow> string" where
  "GeoDistCommand_to_resp key member1 member2 =
     arr 4 @ bulk ''GEODIST'' @ bulk key @ bulk member1 @ bulk member2"

definition ZaddCommand_to_resp :: "(real \<Rightarrow> string) \<Rightarrow> string \<Rightarrow> ((real \<times> string) list) \<Rightarrow> string" where
  "ZaddCommand_to_resp dtos key sms =
     arr (2 + length sms * 2) @ bulk ''ZADD'' @ bulk key @
     concat (map (\<lambda>(s, m). bulk (dtos s) @ bulk m) sms)"

definition PingCommand_to_resp :: "string" where
  "PingCommand_to_resp =
     arr 1 @ bulk ''PING''"

definition EchoCommand_to_resp :: "string \<Rightarrow> string" where
  "EchoCommand_to_resp message =
     arr 2 @ bulk ''ECHO'' @ bulk message"

definition ACLWhoamiCommand_to_resp :: "string" where
  "ACLWhoamiCommand_to_resp =
     arr 2 @ bulk ''ACL'' @ bulk ''WHOAMI''"

definition ACLGetUserCommand_to_resp :: "string \<Rightarrow> string" where
  "ACLGetUserCommand_to_resp u =
     arr 2 @ bulk ''ACL'' @ bulk ''GETUSER''"

definition ACLSetUserCommand_to_resp :: "string \<Rightarrow> (string option) \<Rightarrow> (string list) \<Rightarrow> string" where
  "ACLSetUserCommand_to_resp u p fs =
     arr 2 @ bulk ''ACL'' @ bulk ''SETUSER''"

definition AuthCommand_to_resp :: "string \<Rightarrow> string \<Rightarrow> string" where
  "AuthCommand_to_resp u p =
     arr 3 @ bulk ''AUTH''"

definition SetCommand_to_resp :: "string \<Rightarrow> string \<Rightarrow> (u64 option) \<Rightarrow> (u64 option) \<Rightarrow> string" where
  "SetCommand_to_resp key v ex px =
     arr (3 + (if ex = None then 0 else 2) + (if px = None then 0 else 2)) @
     bulk ''SET'' @ bulk key @ bulk v @
     (case ex of None \<Rightarrow> [] | Some n \<Rightarrow> bulk ''EX'' @ bulk (nat_to_string (unat n))) @
     (case px of None \<Rightarrow> [] | Some n \<Rightarrow> bulk ''PX'' @ bulk (nat_to_string (unat n)))"

definition GetCommand_to_resp :: "string \<Rightarrow> string" where
  "GetCommand_to_resp key =
     arr 2 @ bulk ''GET'' @ bulk key"

definition TypeCommand_to_resp :: "string \<Rightarrow> string" where
  "TypeCommand_to_resp key =
     arr 2 @ bulk ''TYPE'' @ bulk key"

definition IncrCommand_to_resp :: "string \<Rightarrow> string" where
  "IncrCommand_to_resp key =
     arr 2 @ bulk ''INCR'' @ bulk key"

definition RpushCommand_to_resp :: "string \<Rightarrow> (string list) \<Rightarrow> string" where
  "RpushCommand_to_resp key vs =
     arr (2 + length vs) @ bulk ''RPUSH'' @ bulk key @ bulks vs"

definition LpushCommand_to_resp :: "string \<Rightarrow> (string list) \<Rightarrow> string" where
  "LpushCommand_to_resp key vs =
     arr (2 + length vs) @ bulk ''LPUSH'' @ bulk key @ bulks vs"

definition LrangeCommand_to_resp :: "string \<Rightarrow> int \<Rightarrow> int \<Rightarrow> string" where
  "LrangeCommand_to_resp key start stop =
     arr 4 @ bulk ''LRANGE'' @ bulk key @ bulk (int_to_string start) @ bulk (int_to_string stop)"

definition LlenCommand_to_resp :: "string \<Rightarrow> string" where
  "LlenCommand_to_resp key =
     arr 2 @ bulk ''LLEN'' @ bulk key"

definition LpopCommand_to_resp :: "string \<Rightarrow> (nat option) \<Rightarrow> string" where
  "LpopCommand_to_resp key count =
     arr (if count = None then 2 else 3) @ bulk ''LPOP'' @ bulk key @
     (case count of None \<Rightarrow> [] | Some n \<Rightarrow> bulk (nat_to_string n))"

definition BlpopCommand_to_resp :: "(string list) \<Rightarrow> real \<Rightarrow> string" where
  "BlpopCommand_to_resp keys timeout =
     arr (1 + length keys + 1) @ bulk ''BLPOP'' @ bulks keys @
     bulk (int_to_string (trunc_real timeout))"

definition XaddCommand_to_resp :: "string \<Rightarrow> string \<Rightarrow> ((string \<times> string) list) \<Rightarrow> string" where
  "XaddCommand_to_resp key stream_id fvs =
     arr (3 + length fvs * 2) @ bulk ''XADD'' @ bulk key @ bulk stream_id @
     concat (map (\<lambda>(f, v). bulk f @ bulk v) fvs)"

definition XrangeCommand_to_resp :: "string \<Rightarrow> string \<Rightarrow> string \<Rightarrow> string" where
  "XrangeCommand_to_resp key start stop =
     arr 4 @ bulk ''XRANGE'' @ bulk key @ bulk start @ bulk stop"

definition XreadCommand_to_resp :: "(real option) \<Rightarrow> (string list) \<Rightarrow> (string list) \<Rightarrow> string" where
  "XreadCommand_to_resp block keys ids =
     arr (2 + length keys + length ids + (if block = None then 0 else 2)) @ bulk ''XREAD'' @
     (case block of None \<Rightarrow> []
     | Some t \<Rightarrow> bulk ''BLOCK'' @ bulk (int_to_string (trunc_real t))) @
     bulk ''STREAMS'' @ bulks keys @ bulks ids"

definition MultiCommand_to_resp :: "string" where
  "MultiCommand_to_resp =
     arr 1 @ bulk ''MULTI''"

definition ExecCommand_to_resp :: "string" where
  "ExecCommand_to_resp =
     arr 1 @ bulk ''EXEC''"

definition DiscardCommand_to_resp :: "string" where
  "DiscardCommand_to_resp =
     arr 1 @ bulk ''DISCARD''"

definition InfoCommand_to_resp :: "bool \<Rightarrow> string" where
  "InfoCommand_to_resp isRepl =
     (if isRepl then arr 2 @ bulk ''INFO'' @ bulk ''replication'' else arr 1 @ bulk ''INFO'')"

definition ReplConfCommand_to_resp :: "ReplConfType \<Rightarrow> string \<Rightarrow> string \<Rightarrow> int \<Rightarrow> string" where
  "ReplConfCommand_to_resp sub port capa ack =
     (if sub = ACK then
     arr 3 @ bulk ''REPLCONF'' @ bulk ''ACK'' @ bulk (int_to_string ack)
     else if sub = GETACK then arr 3 @ bulk ''REPLCONF'' @ bulk ''GETACK'' @ bulk ''*''
     else arr 3 @ bulk ''REPLCONF'' @
     (if port \<noteq> [] then bulk ''listening-port'' @ bulk port
     else if capa \<noteq> [] then bulk ''capa'' @ bulk capa
     else []))"

definition PsyncCommand_to_resp :: "string \<Rightarrow> int \<Rightarrow> string" where
  "PsyncCommand_to_resp repl_id off =
     arr 3 @ bulk ''PSYNC'' @ bulk repl_id @ bulk (int_to_string off)"

definition WaitCommand_to_resp :: "u64 \<Rightarrow> u64 \<Rightarrow> string" where
  "WaitCommand_to_resp num_replica timeout =
     arr 3 @ bulk ''WAIT'' @ bulk (nat_to_string (unat num_replica)) @
     bulk (nat_to_string (unat timeout))"

definition ZrankCommand_to_resp :: "string \<Rightarrow> string \<Rightarrow> string" where
  "ZrankCommand_to_resp key mem =
     arr 3 @ bulk ''ZRANK'' @ bulk key @ bulk mem"

definition ZrangeCommand_to_resp :: "string \<Rightarrow> int \<Rightarrow> int \<Rightarrow> string" where
  "ZrangeCommand_to_resp key start stop =
     arr 4 @ bulk ''ZRANGE'' @ bulk key @ bulk (int_to_string start) @ bulk (int_to_string stop)"

definition ZcardCommand_to_resp :: "string \<Rightarrow> string" where
  "ZcardCommand_to_resp key =
     arr 2 @ bulk ''ZCARD'' @ bulk key"

definition ZscoreCommand_to_resp :: "string \<Rightarrow> string \<Rightarrow> string" where
  "ZscoreCommand_to_resp key mem =
     arr 3 @ bulk ''ZSCORE'' @ bulk key @ bulk mem"

definition ZremCommand_to_resp :: "string \<Rightarrow> (string list) \<Rightarrow> string" where
  "ZremCommand_to_resp key members =
     arr (2 + length members) @ bulk ''ZREM'' @ bulk key @ bulks members"

definition to_resp :: "(real \<Rightarrow> string) \<Rightarrow> Command \<Rightarrow> string" where
  "to_resp dtos cmd =
     (case cmd of
        GeoAddCommand key lon lat score mem bad \<Rightarrow> GeoAddCommand_to_resp dtos key lon lat score mem bad
      | GeoPosCommand key members \<Rightarrow> GeoPosCommand_to_resp key members
      | GeoDistCommand key member1 member2 \<Rightarrow> GeoDistCommand_to_resp key member1 member2
      | ZaddCommand key sms \<Rightarrow> ZaddCommand_to_resp dtos key sms
      | PingCommand \<Rightarrow> PingCommand_to_resp
      | EchoCommand message \<Rightarrow> EchoCommand_to_resp message
      | ACLWhoamiCommand \<Rightarrow> ACLWhoamiCommand_to_resp
      | ACLGetUserCommand u \<Rightarrow> ACLGetUserCommand_to_resp u
      | ACLSetUserCommand u p fs \<Rightarrow> ACLSetUserCommand_to_resp u p fs
      | AuthCommand u p \<Rightarrow> AuthCommand_to_resp u p
      | SetCommand key v ex px \<Rightarrow> SetCommand_to_resp key v ex px
      | GetCommand key \<Rightarrow> GetCommand_to_resp key
      | TypeCommand key \<Rightarrow> TypeCommand_to_resp key
      | IncrCommand key \<Rightarrow> IncrCommand_to_resp key
      | RpushCommand key vs \<Rightarrow> RpushCommand_to_resp key vs
      | LpushCommand key vs \<Rightarrow> LpushCommand_to_resp key vs
      | LrangeCommand key start stop \<Rightarrow> LrangeCommand_to_resp key start stop
      | LlenCommand key \<Rightarrow> LlenCommand_to_resp key
      | LpopCommand key count \<Rightarrow> LpopCommand_to_resp key count
      | BlpopCommand keys timeout \<Rightarrow> BlpopCommand_to_resp keys timeout
      | XaddCommand key stream_id fvs \<Rightarrow> XaddCommand_to_resp key stream_id fvs
      | XrangeCommand key start stop \<Rightarrow> XrangeCommand_to_resp key start stop
      | XreadCommand block keys ids \<Rightarrow> XreadCommand_to_resp block keys ids
      | MultiCommand \<Rightarrow> MultiCommand_to_resp
      | ExecCommand \<Rightarrow> ExecCommand_to_resp
      | DiscardCommand \<Rightarrow> DiscardCommand_to_resp
      | InfoCommand isRepl \<Rightarrow> InfoCommand_to_resp isRepl
      | ReplConfCommand sub port capa ack \<Rightarrow> ReplConfCommand_to_resp sub port capa ack
      | PsyncCommand repl_id off \<Rightarrow> PsyncCommand_to_resp repl_id off
      | WaitCommand num_replica timeout \<Rightarrow> WaitCommand_to_resp num_replica timeout
      | ZrankCommand key mem \<Rightarrow> ZrankCommand_to_resp key mem
      | ZrangeCommand key start stop \<Rightarrow> ZrangeCommand_to_resp key start stop
      | ZcardCommand key \<Rightarrow> ZcardCommand_to_resp key
      | ZscoreCommand key mem \<Rightarrow> ZscoreCommand_to_resp key mem
      | ZremCommand key members \<Rightarrow> ZremCommand_to_resp key members
      | _ \<Rightarrow> [])"

lemmas to_resp_defs = to_resp_def
  GeoAddCommand_to_resp_def GeoPosCommand_to_resp_def GeoDistCommand_to_resp_def
  ZaddCommand_to_resp_def PingCommand_to_resp_def EchoCommand_to_resp_def
  ACLWhoamiCommand_to_resp_def ACLGetUserCommand_to_resp_def ACLSetUserCommand_to_resp_def
  AuthCommand_to_resp_def SetCommand_to_resp_def GetCommand_to_resp_def
  TypeCommand_to_resp_def IncrCommand_to_resp_def RpushCommand_to_resp_def
  LpushCommand_to_resp_def LrangeCommand_to_resp_def LlenCommand_to_resp_def
  LpopCommand_to_resp_def BlpopCommand_to_resp_def XaddCommand_to_resp_def
  XrangeCommand_to_resp_def XreadCommand_to_resp_def MultiCommand_to_resp_def
  ExecCommand_to_resp_def DiscardCommand_to_resp_def InfoCommand_to_resp_def
  ReplConfCommand_to_resp_def PsyncCommand_to_resp_def WaitCommand_to_resp_def
  ZrankCommand_to_resp_def ZrangeCommand_to_resp_def ZcardCommand_to_resp_def
  ZscoreCommand_to_resp_def ZremCommand_to_resp_def

definition commandTypeToString :: "CommandType \<Rightarrow> string" where
  "commandTypeToString t =
     (case t of
        ECHO \<Rightarrow> ''echo'' | PING \<Rightarrow> ''ping'' | SET \<Rightarrow> ''set'' | GET \<Rightarrow> ''get''
      | TYPE_CMD \<Rightarrow> ''type'' | RPUSH \<Rightarrow> ''rpush'' | LPUSH \<Rightarrow> ''lpush'' | LRANGE \<Rightarrow> ''lrange''
      | LLEN \<Rightarrow> ''llen'' | LPOP \<Rightarrow> ''lpop'' | BLPOP \<Rightarrow> ''blpop'' | XADD \<Rightarrow> ''xadd''
      | XRANGE \<Rightarrow> ''xrange'' | XREAD \<Rightarrow> ''xread'' | INCR \<Rightarrow> ''incr'' | UNKNOWN \<Rightarrow> ''unknown''
      | MULTI \<Rightarrow> ''multi'' | EXEC \<Rightarrow> ''exec'' | DISCARD \<Rightarrow> ''discard'' | INFO \<Rightarrow> ''info''
      | REPLCONF \<Rightarrow> ''replconf'' | PSYNC \<Rightarrow> ''psync'' | WAIT \<Rightarrow> ''wait''
      | GETCONFIG \<Rightarrow> ''getconfig'' | KEYS \<Rightarrow> ''keys'' | SUBSCRIBE \<Rightarrow> ''subscribe''
      | UNSUBSCRIBE \<Rightarrow> ''unsubscribe'' | ZADD \<Rightarrow> ''zadd'' | ZRANK \<Rightarrow> ''zrank''
      | ZRANGE \<Rightarrow> ''zrange'' | ZCARD \<Rightarrow> ''zcard'' | ZSCORE \<Rightarrow> ''zscore'' | ZREM \<Rightarrow> ''zrem''
      | GEOPOS \<Rightarrow> ''geopos'' | GEODIST \<Rightarrow> ''geodist'' | GEOSEARCH \<Rightarrow> ''geosearch''
      | ACL_WHOAMI \<Rightarrow> ''acl_whoami'' | ACL_GETUSER \<Rightarrow> ''acl_getuser''
      | ACL_SETUSER \<Rightarrow> ''acl_setuser'' | _ \<Rightarrow> ''unknown'')"

end
