(* ===== verification/Db_State.thy ===== *)
theory Db_State
  imports List_Store Stream_Db SortedSet Command
begin

text \<open>
  The state the database works on: \<open>src/src/models/client.h\<close>, \<open>src/src/models/user.h\<close>,
  \<open>src/src/models/redisObject.h\<close>, the members of \<open>DB\<close> in \<open>src/src/db/db.h\<close> and the access
  control list of \<open>src/src/acl.cpp\<close>. Clients are shared objects: the model names them by
  their identity and keeps them in a heap, so a \<open>weak_ptr\<close> is a name that may have no
  object any more. A user is named by the user name, since the list never replaces an
  entry. The clocks, the allocator, the iteration order of hash maps, the formatting of
  floating point numbers and SHA-256 are the environment, an argument of the handlers.
  \<open>current_write_position\<close> is only ever set to zero and never read, so it is left out.
\<close>

section \<open>Clients and users\<close>

type_synonym cid = nat

record User =
  username :: string
  passwords :: "string list"
  user_flags :: "string list"
  is_enabled :: bool
  nopass :: bool

definition new_user :: "string \<Rightarrow> User" where
  "new_user name =
     \<lparr>username = name, passwords = [], user_flags = [], is_enabled = True, nopass = False\<rparr>"

record Client =
  read_buffer :: string
  write_buffer :: string
  flags :: u64
  queued_commands :: "Command list"
  fd :: int
  isslave :: bool
  replica_offset :: int
  total_subscribed_channels :: u64
  user :: "string option"
  is_authenticated :: bool

definition new_client :: "int \<Rightarrow> Client" where
  "new_client n =
     \<lparr>read_buffer = [], write_buffer = [], flags = 0, queued_commands = [], fd = n, isslave = False,
      replica_offset = 0, total_subscribed_channels = 0, user = None, is_authenticated = False\<rparr>"

abbreviation MULTI_FLAG :: u64 where "MULTI_FLAG \<equiv> 1"
abbreviation DIRTY_FLAG :: u64 where "DIRTY_FLAG \<equiv> 2"
abbreviation PUBSUB_FLAG :: u64 where "PUBSUB_FLAG \<equiv> 4"

definition resetFlags :: "Client \<Rightarrow> Client" where
  "resetFlags c = c\<lparr>flags := 0\<rparr>"

definition addTransactionFlags :: "Client \<Rightarrow> Client" where
  "addTransactionFlags c = c\<lparr>flags := flags c OR MULTI_FLAG\<rparr>"

definition isClientOnTransaction :: "Client \<Rightarrow> bool" where
  "isClientOnTransaction c \<longleftrightarrow> flags c AND MULTI_FLAG \<noteq> 0"

definition isClientOnPubSub :: "Client \<Rightarrow> bool" where
  "isClientOnPubSub c \<longleftrightarrow> flags c AND PUBSUB_FLAG \<noteq> 0"

definition setClientDirty :: "Client \<Rightarrow> Client" where
  "setClientDirty c = c\<lparr>flags := flags c OR DIRTY_FLAG\<rparr>"

definition setClientPubSub :: "Client \<Rightarrow> Client" where
  "setClientPubSub c = c\<lparr>flags := flags c OR PUBSUB_FLAG\<rparr>"

section \<open>The database\<close>

text \<open>
  An object of the store: the encoding type with the one pointer that is used with it. The
  list pointer can be null, after a failed allocation.
\<close>

datatype RedisObject =
    STRING string
  | LIST_PACK "byte list option"
  | STREAM Stream
  | SORTED_SET "real SortedSet"

text \<open>
  Points of the steady clock in nanoseconds; \<open>None\<close> is \<open>time_point::max()\<close>. Conversions of
  durations are in signed 64-bit arithmetic, where an overflow is undefined: a fault.
\<close>

type_synonym time = int

definition chk64 :: "int \<Rightarrow> int option" where
  "chk64 v = (if int64_range v then Some v else None)"

definition later :: "time \<Rightarrow> int \<Rightarrow> int \<Rightarrow> time option" where
  "later now unit count = do { d \<leftarrow> chk64 (count * unit); chk64 (now + d) }"

record BlockedClient =
  blocked_cid :: cid
  blocked_fd :: int
  timeout_at :: "time option"

record BlockedXreadClient = BlockedClient +
  stream_id :: string
  stream_key :: string

definition is_expired :: "time \<Rightarrow> 'a BlockedClient_scheme \<Rightarrow> bool" where
  "is_expired now b \<longleftrightarrow> (case timeout_at b of None \<Rightarrow> False | Some t \<Rightarrow> t \<le> now)"

record DB =
  store :: "string \<rightharpoonup> RedisObject"
  expiration :: "string \<rightharpoonup> time"
  blocked_keys :: "string \<rightharpoonup> BlockedClient list"
  blocked_xread_keys :: "string \<rightharpoonup> BlockedXreadClient list"
  watching_keys :: "string \<rightharpoonup> (cid \<times> int) list"
  pubsub_clients :: "string \<rightharpoonup> cid list"

text \<open>The database with what its handlers reach through pointers.\<close>

record state = DB +
  clients :: "cid \<rightharpoonup> Client"
  users :: "string \<rightharpoonup> User"

record ClientContext =
  client :: cid
  client_fd :: int
  isBlocked :: bool
  unblocked_client_fd :: int
  ctx_command :: "Command option"
  ready_to_write_clients :: "cid list"

definition new_context :: "cid \<Rightarrow> int \<Rightarrow> ClientContext" where
  "new_context c n =
     \<lparr>client = c, client_fd = n, isBlocked = False, unblocked_client_fd = - 1, ctx_command = None,
      ready_to_write_clients = []\<rparr>"

record env =
  steady_now :: time
  system_now :: time
  epoch_ms :: u64
  alloc :: allocator
  fixed :: "nat \<Rightarrow> real \<Rightarrow> string"
  key_order :: "(string \<rightharpoonup> RedisObject) \<Rightarrow> string list"
  member_order :: "(string \<rightharpoonup> real) \<Rightarrow> (string \<times> real) list"
  sha256 :: "string \<Rightarrow> byte list"
  config_dir :: string

text \<open>A handler may fault; otherwise it returns the new state and context.\<close>

type_synonym step = "(state \<times> ClientContext) option"

section \<open>Writing to clients\<close>

definition update_client :: "cid \<Rightarrow> (Client \<Rightarrow> Client) \<Rightarrow> state \<Rightarrow> state" where
  "update_client c f s = s\<lparr>clients := (clients s)(c := map_option f (clients s c))\<rparr>"

definition write_to :: "cid \<Rightarrow> (string \<Rightarrow> string) \<Rightarrow> state \<Rightarrow> state" where
  "write_to c f = update_client c (\<lambda>cl. cl\<lparr>write_buffer := f (write_buffer cl)\<rparr>)"

text \<open>The current client of a context.\<close>

abbreviation respond :: "ClientContext \<Rightarrow> (string \<Rightarrow> string) \<Rightarrow> state \<Rightarrow> state" where
  "respond c \<equiv> write_to (client c)"

definition mark_watching_clients_dirty :: "string \<Rightarrow> state \<Rightarrow> state" where
  "mark_watching_clients_dirty key s =
     (case watching_keys s key of
        None \<Rightarrow> s
      | Some ws \<Rightarrow> fold (\<lambda>w. update_client (fst w) setClientDirty) ws s)"

section \<open>Access control\<close>

text \<open>\<open>ACLManager\<close>: its constructor, \<open>getUser\<close>, \<open>addUser\<close> and \<open>setUser\<close> on the user map.\<close>

definition ACLManager :: "string \<rightharpoonup> User" where
  "ACLManager = [''default'' \<mapsto> (new_user ''default'')\<lparr>nopass := True, user_flags := [''nopass'']\<rparr>]"

definition getUser :: "(string \<rightharpoonup> User) \<Rightarrow> string \<Rightarrow> User option" where
  "getUser us name = us name"

definition addUser :: "(string \<rightharpoonup> User) \<Rightarrow> User \<Rightarrow> (string \<rightharpoonup> User)" where
  "addUser us u = us(username u \<mapsto> u)"

definition setUser :: "(string \<rightharpoonup> User) \<Rightarrow> string \<Rightarrow> string \<Rightarrow> string list \<Rightarrow> (string \<rightharpoonup> User)" where
  "setUser us name hashedPassword fs =
     (let u = (case us name of None \<Rightarrow> new_user name | Some u \<Rightarrow> u);
          u = (if hashedPassword = [] then u else u\<lparr>passwords := [hashedPassword], nopass := False\<rparr>)
      in us(name \<mapsto> u\<lparr>user_flags := fs\<rparr>))"

section \<open>Lemmas on the heap of clients\<close>

lemma clients_update_client [simp]:
  "clients (update_client c f s) x = (if x = c then map_option f (clients s c) else clients s x)"
  by (simp add: update_client_def)

lemma update_client_fields [simp]:
  "store (update_client c f s) = store s" "expiration (update_client c f s) = expiration s"
  "blocked_keys (update_client c f s) = blocked_keys s"
  "blocked_xread_keys (update_client c f s) = blocked_xread_keys s"
  "watching_keys (update_client c f s) = watching_keys s"
  "pubsub_clients (update_client c f s) = pubsub_clients s" "users (update_client c f s) = users s"
  by (simp_all add: update_client_def)

lemma write_to_fields [simp]:
  "store (write_to c f s) = store s" "expiration (write_to c f s) = expiration s"
  "blocked_keys (write_to c f s) = blocked_keys s"
  "blocked_xread_keys (write_to c f s) = blocked_xread_keys s"
  "watching_keys (write_to c f s) = watching_keys s"
  "pubsub_clients (write_to c f s) = pubsub_clients s" "users (write_to c f s) = users s"
  by (simp_all add: write_to_def)

lemma clients_write_to [simp]:
  "clients (write_to c f s) x =
     (if x = c then map_option (\<lambda>cl. cl\<lparr>write_buffer := f (write_buffer cl)\<rparr>) (clients s c) else clients s x)"
  by (simp add: write_to_def)

lemma fold_update_client_fields [simp]:
  "store (fold (\<lambda>w. update_client (g w) (f w)) ws s) = store s"
  "expiration (fold (\<lambda>w. update_client (g w) (f w)) ws s) = expiration s"
  "blocked_keys (fold (\<lambda>w. update_client (g w) (f w)) ws s) = blocked_keys s"
  "blocked_xread_keys (fold (\<lambda>w. update_client (g w) (f w)) ws s) = blocked_xread_keys s"
  "watching_keys (fold (\<lambda>w. update_client (g w) (f w)) ws s) = watching_keys s"
  "pubsub_clients (fold (\<lambda>w. update_client (g w) (f w)) ws s) = pubsub_clients s"
  "users (fold (\<lambda>w. update_client (g w) (f w)) ws s) = users s"
  by (induction ws arbitrary: s) simp_all

lemma mark_dirty_fields [simp]:
  "store (mark_watching_clients_dirty k s) = store s"
  "expiration (mark_watching_clients_dirty k s) = expiration s"
  "blocked_keys (mark_watching_clients_dirty k s) = blocked_keys s"
  "blocked_xread_keys (mark_watching_clients_dirty k s) = blocked_xread_keys s"
  "watching_keys (mark_watching_clients_dirty k s) = watching_keys s"
  "pubsub_clients (mark_watching_clients_dirty k s) = pubsub_clients s"
  "users (mark_watching_clients_dirty k s) = users s"
  by (simp_all add: mark_watching_clients_dirty_def split: option.split)

lemma setClientDirty_idem [simp]: "setClientDirty (setClientDirty c) = setClientDirty c"
  by (simp add: setClientDirty_def or.assoc)

text \<open>Marking changes the flags of the clients that watch the key, and nothing else.\<close>

lemma clients_mark_dirty:
  "clients (mark_watching_clients_dirty k s) x =
     (if x \<in> fst ` set (case watching_keys s k of None \<Rightarrow> [] | Some ws \<Rightarrow> ws)
      then map_option setClientDirty (clients s x) else clients s x)"
proof -
  have "clients (fold (\<lambda>w. update_client (fst w) setClientDirty) ws s) x =
      (if x \<in> fst ` set ws then map_option setClientDirty (clients s x) else clients s x)" for ws :: "(cid \<times> int) list"
    by (induction ws arbitrary: s) (auto simp: option.map_comp comp_def)
  then show ?thesis by (simp add: mark_watching_clients_dirty_def split: option.split)
qed

lemma setClientDirty_simps [simp]:
  "write_buffer (setClientDirty c) = write_buffer c"
  "queued_commands (setClientDirty c) = queued_commands c" "fd (setClientDirty c) = fd c"
  "isClientOnTransaction (setClientDirty c) = isClientOnTransaction c"
  "isClientOnPubSub (setClientDirty c) = isClientOnPubSub c"
  by (simp_all add: setClientDirty_def isClientOnTransaction_def isClientOnPubSub_def
      bit.conj_disj_distrib2)

text \<open>The reply a client has got: what was appended to its write buffer.\<close>

definition buffer_of :: "state \<Rightarrow> cid \<Rightarrow> string" where
  "buffer_of s c = (case clients s c of None \<Rightarrow> [] | Some cl \<Rightarrow> write_buffer cl)"

lemma buffer_of_write_to [simp]:
  "buffer_of (write_to c f s) x = (if x = c \<and> clients s c \<noteq> None then f (buffer_of s c) else buffer_of s x)"
  by (auto simp: buffer_of_def split: option.split)

lemma buffer_of_mark_dirty [simp]: "buffer_of (mark_watching_clients_dirty k s) x = buffer_of s x"
  by (auto simp: buffer_of_def clients_mark_dirty split: option.split)

lemma buffer_of_fields [simp]:
  "buffer_of (s\<lparr>store := a\<rparr>) x = buffer_of s x" "buffer_of (s\<lparr>expiration := b\<rparr>) x = buffer_of s x"
  "buffer_of (s\<lparr>blocked_keys := d\<rparr>) x = buffer_of s x"
  "buffer_of (s\<lparr>blocked_xread_keys := e\<rparr>) x = buffer_of s x"
  "buffer_of (s\<lparr>watching_keys := g\<rparr>) x = buffer_of s x"
  "buffer_of (s\<lparr>pubsub_clients := h\<rparr>) x = buffer_of s x" "buffer_of (s\<lparr>users := i\<rparr>) x = buffer_of s x"
  by (simp_all add: buffer_of_def)

text \<open>Setting a password turns \<open>nopass\<close> off and leaves the other users alone.\<close>

lemma setUser_other [simp]: "n \<noteq> name \<Longrightarrow> setUser us name h fs n = us n"
  by (simp add: setUser_def Let_def)

lemma setUser_password:
  "h \<noteq> [] \<Longrightarrow> \<exists>u. setUser us name h fs name = Some u \<and> passwords u = [h] \<and> \<not> nopass u"
  by (simp add: setUser_def Let_def)

end
