(* ===== verification/Db_Strings.thy ===== *)
theory Db_Strings
  imports Db_State
begin

text \<open>
  The handlers on string keys and the small ones: \<open>src/src/db/SET\<close>, \<open>GET_TYPE\<close>, \<open>INCR\<close>,
  \<open>KEYS\<close>, \<open>GET_CONFIG\<close>, and \<open>PING\<close>, \<open>ECHO\<close>, \<open>set\<close>, \<open>setWithExpiry\<close> of \<open>src/src/db/db.cpp\<close>.
  The theorems: a value that was set is read back until its deadline and is gone from
  then on, the deadlines belong to stored keys (without that the lookup would erase a
  past-the-end iterator), and \<open>INCR\<close> counts or reports its error without a change.
\<close>

section \<open>Definitions\<close>

definition handle_ping :: "state \<Rightarrow> ClientContext \<Rightarrow> state" where
  "handle_ping s c =
     (case clients s (client c) of
        None \<Rightarrow> s
      | Some cl \<Rightarrow>
          if isClientOnPubSub cl then respond c (\<lambda>b. encode_bulk_string b ''pong'') s
          else respond c (\<lambda>b. encode_simple_string b ''PONG'') s)"

definition handle_echo :: "state \<Rightarrow> ClientContext \<Rightarrow> string \<Rightarrow> state" where
  "handle_echo s c message = respond c (\<lambda>b. encode_bulk_string b message) s"

abbreviation NS_PER_MS :: int where "NS_PER_MS \<equiv> 1000000"
abbreviation NS_PER_S :: int where "NS_PER_S \<equiv> 1000000000"

definition handle_set ::
  "env \<Rightarrow> state \<Rightarrow> ClientContext \<Rightarrow> string \<Rightarrow> string \<Rightarrow> u64 option \<Rightarrow> u64 option \<Rightarrow> step" where
  "handle_set e s c key value ex px = do {
     exp \<leftarrow> (case ex of
         Some n \<Rightarrow> do { t \<leftarrow> later (steady_now e) NS_PER_S (sint n); Some ((expiration s)(key \<mapsto> t)) }
       | None \<Rightarrow> (case px of
           Some n \<Rightarrow> do { t \<leftarrow> later (steady_now e) NS_PER_MS (sint n); Some ((expiration s)(key \<mapsto> t)) }
         | None \<Rightarrow> Some (expiration s)));
     let s = s\<lparr>expiration := exp, store := (store s)(key \<mapsto> STRING value)\<rparr>;
     let s = mark_watching_clients_dirty key s;
     Some (respond c (\<lambda>b. encode_simple_string b ''OK'') s, c) }"

text \<open>The lookup of \<open>GET\<close> and \<open>TYPE\<close>: \<open>store.erase(it)\<close> at the end of the map is a fault.\<close>

definition expire_key :: "env \<Rightarrow> state \<Rightarrow> string \<Rightarrow> state option" where
  "expire_key e s key =
     (case expiration s key of
        Some t \<Rightarrow>
          if t \<le> steady_now e then
            (if store s key = None then None
             else Some (s\<lparr>store := (store s)(key := None), expiration := (expiration s)(key := None)\<rparr>))
          else Some s
      | None \<Rightarrow> Some s)"

definition handle_get_or_type :: "env \<Rightarrow> state \<Rightarrow> ClientContext \<Rightarrow> bool \<Rightarrow> string \<Rightarrow> step" where
  "handle_get_or_type e s c isTypeCommand key = do {
     s \<leftarrow> expire_key e s key;
     Some (case store s key of
         Some (STRING v) \<Rightarrow>
           if isTypeCommand then respond c (\<lambda>b. encode_simple_string b ''string'') s
           else respond c (\<lambda>b. encode_bulk_string b v) s
       | Some (STREAM _) \<Rightarrow>
           if isTypeCommand then respond c (\<lambda>b. encode_simple_string b ''stream'') s else s
       | Some _ \<Rightarrow> s
       | None \<Rightarrow>
           if isTypeCommand then respond c (\<lambda>b. encode_simple_string b ''none'') s
           else respond c encode_null_bulk_string s, c) }"

text \<open>The characters of a string up to its first NUL, as a \<open>char *\<close> gives them.\<close>

definition c_str :: "string \<Rightarrow> string" where
  "c_str v = takeWhile (\<lambda>x. x \<noteq> CHR 0x00) v"

definition handle_incr :: "state \<Rightarrow> ClientContext \<Rightarrow> string \<Rightarrow> step" where
  "handle_incr s c key =
     (case store s key of
        None \<Rightarrow>
          let s = s\<lparr>store := (store s)(key \<mapsto> STRING ''1'')\<rparr>;
              s = mark_watching_clients_dirty key s
          in Some (respond c (\<lambda>b. encode_integer b 1) s, c)
      | Some (STRING v) \<Rightarrow>
          (case convert_string_to_number (c_str v) of
             Some n \<Rightarrow> do {
               n \<leftarrow> chk64 (n + 1);
               let s = respond c (\<lambda>b. encode_integer b n) s;
               let s = s\<lparr>store := (store s)(key \<mapsto> STRING (int_to_string n))\<rparr>;
               Some (mark_watching_clients_dirty key s, c) }
           | None \<Rightarrow>
               Some (respond c (\<lambda>b. encode_error b ''value is not an integer or out of range'' ''ERR'') s, c))
      | Some _ \<Rightarrow>
          Some (respond c (\<lambda>b. encode_error b ''value is not an integer or out of range'' ''ERR'') s, c))"

text \<open>\<open>KEYS\<close> reads the command of the context, which under \<open>EXEC\<close> is another one.\<close>

definition handleKeys :: "env \<Rightarrow> state \<Rightarrow> ClientContext \<Rightarrow> step" where
  "handleKeys e s c =
     (case ctx_command c of
        None \<Rightarrow> None
      | Some (KeysCommand pattern) \<Rightarrow>
          if pattern = ''*'' then
            let ks = key_order e (store s)
            in Some (respond c (\<lambda>b. foldl encode_bulk_string (encode_array_header b (length ks)) ks) s, c)
          else Some (respond c encode_empty_array s, c)
      | Some _ \<Rightarrow> Some (s, c))"

definition handleGetConfig :: "env \<Rightarrow> state \<Rightarrow> ClientContext \<Rightarrow> step" where
  "handleGetConfig e s c =
     (case ctx_command c of
        None \<Rightarrow> None
      | Some (GetConfigCommand ps) \<Rightarrow>
          Some (fold (\<lambda>p s. if is_equal p ''dir'' then
              respond c (\<lambda>b. encode_bulk_string (encode_bulk_string (encode_array_header b 2) ''dir'')
                (config_dir e)) s else s) ps s, c)
      | Some _ \<Rightarrow> Some (s, c))"

text \<open>\<open>DB::set\<close> and \<open>DB::setWithExpiry\<close>, called when a snapshot is loaded.\<close>

definition set_db :: "state \<Rightarrow> string \<Rightarrow> string \<Rightarrow> state" where
  "set_db s key value =
     s\<lparr>store := (store s)(key \<mapsto> STRING value), expiration := (expiration s)(key := None)\<rparr>"

definition setWithExpiry :: "env \<Rightarrow> state \<Rightarrow> string \<Rightarrow> string \<Rightarrow> u64 \<Rightarrow> state option" where
  "setWithExpiry e s key value expiryTimestampMs = do {
     t \<leftarrow> chk64 (sint expiryTimestampMs * NS_PER_MS);
     d \<leftarrow> chk64 (t - system_now e);
     t \<leftarrow> chk64 (steady_now e + d);
     let s = set_db s key value;
     Some (s\<lparr>expiration := (expiration s)(key \<mapsto> t)\<rparr>) }"

section \<open>Deadlines belong to stored keys\<close>

definition deadlines_ok :: "'a DB_scheme \<Rightarrow> bool" where
  "deadlines_ok s \<longleftrightarrow> (\<forall>k. expiration s k \<noteq> None \<longrightarrow> store s k \<noteq> None)"

lemma expire_key_Some:
  assumes "deadlines_ok s"
  shows "expire_key e s key = Some (if \<exists>t. expiration s key = Some t \<and> t \<le> steady_now e
    then s\<lparr>store := (store s)(key := None), expiration := (expiration s)(key := None)\<rparr> else s)"
  using assms by (auto simp: expire_key_def deadlines_ok_def split: option.split)

lemma expire_key_ok: "deadlines_ok s \<Longrightarrow> expire_key e s key = Some s' \<Longrightarrow> deadlines_ok s'"
  by (auto simp: expire_key_def deadlines_ok_def split: option.splits if_splits)

lemma deadlines_ok_write [simp]:
  "deadlines_ok (write_to c f s) = deadlines_ok s"
  "deadlines_ok (mark_watching_clients_dirty k s) = deadlines_ok s"
  "deadlines_ok (update_client d g s) = deadlines_ok s"
  by (simp_all add: deadlines_ok_def)

lemma handle_set_ok:
  "deadlines_ok s \<Longrightarrow> handle_set e s c key value ex px = Some (s', c') \<Longrightarrow> deadlines_ok s'"
  by (auto simp: handle_set_def deadlines_ok_def Let_def Option.bind_eq_Some_conv split: option.splits)

lemma handle_get_or_type_ok:
  assumes "deadlines_ok s" "handle_get_or_type e s c t key = Some (s', c')"
  shows "deadlines_ok s'"
proof -
  obtain s1 where s1: "expire_key e s key = Some s1"
    using assms(2) by (auto simp: handle_get_or_type_def Option.bind_eq_Some_conv)
  have "deadlines_ok s' = deadlines_ok s1"
    using assms(2) unfolding handle_get_or_type_def s1
    by (cases "store s1 key") (auto split: RedisObject.splits if_splits)
  with expire_key_ok [OF assms(1) s1] show ?thesis by simp
qed

lemma handle_incr_ok: "deadlines_ok s \<Longrightarrow> handle_incr s c key = Some (s', c') \<Longrightarrow> deadlines_ok s'"
  by (auto simp: handle_incr_def deadlines_ok_def Let_def Option.bind_eq_Some_conv
      split: option.splits RedisObject.splits)

text \<open>With that, a lookup never faults.\<close>

lemma handle_get_total: "deadlines_ok s \<Longrightarrow> handle_get_or_type e s c t key \<noteq> None"
  by (simp add: handle_get_or_type_def expire_key_Some)

section \<open>What is set is read\<close>

lemma handle_set_Some:
  assumes "handle_set e s c key value ex px = Some (s', c')"
  shows "store s' = (store s)(key \<mapsto> STRING value)" "c' = c"
    "expiration s' key = (case (ex, px) of
       (Some n, _) \<Rightarrow> Some (steady_now e + sint n * NS_PER_S)
     | (None, Some n) \<Rightarrow> Some (steady_now e + sint n * NS_PER_MS)
     | (None, None) \<Rightarrow> expiration s key)"
    "clients s (client c) \<noteq> None \<Longrightarrow> clients s' (client c) \<noteq> None"
  using assms
  by (auto simp: handle_set_def Let_def later_def chk64_def Option.bind_eq_Some_conv clients_mark_dirty
      split: option.splits if_splits)

text \<open>A client that writes to itself keeps its place in the heap.\<close>

lemma handle_get_reply:
  assumes "handle_get_or_type e s c False key = Some (s', c')" "clients s (client c) \<noteq> None"
    "store s key = Some (STRING v)"
    "case expiration s key of None \<Rightarrow> True | Some t \<Rightarrow> steady_now e < t"
  shows "buffer_of s' (client c) = buffer_of s (client c) @ bulk v" "store s' = store s"
  using assms
  by (auto simp: handle_get_or_type_def expire_key_def resp_simps Option.bind_eq_Some_conv split: option.splits)

lemma handle_get_expired:
  assumes "deadlines_ok s" "clients s (client c) \<noteq> None" "expiration s key = Some t" "t \<le> steady_now e"
  shows "\<exists>s'. handle_get_or_type e s c False key = Some (s', c) \<and> store s' = (store s)(key := None) \<and>
    expiration s' = (expiration s)(key := None) \<and>
    buffer_of s' (client c) = buffer_of s (client c) @ ''$-1'' @ CRLF"
  using assms by (simp add: handle_get_or_type_def expire_key_Some resp_simps)

section \<open>Counting\<close>

lemma c_str_int [simp]: "c_str (int_to_string n) = int_to_string n"
proof -
  have "CHR 0x00 \<notin> set (int_to_string n)"
    using nat_to_string_digits [of "nat n"] nat_to_string_digits [of "nat (- n)"]
    by (auto simp: int_to_string_def list_all_iff isdigit_def)
  then show ?thesis unfolding c_str_def by (subst takeWhile_eq_all_conv) auto
qed

lemma handle_incr_number:
  assumes "store s key = Some (STRING (int_to_string n))" "int64_range n" "n < int INT64_MAX"
    "clients s (client c) \<noteq> None"
  shows "\<exists>s'. handle_incr s c key = Some (s', c) \<and>
    store s' = (store s)(key \<mapsto> STRING (int_to_string (n + 1))) \<and> clients s' (client c) \<noteq> None \<and>
    buffer_of s' (client c) = buffer_of s (client c) @ '':'' @ int_to_string (n + 1) @ CRLF"
  using assms
  by (auto simp: handle_incr_def convert_string_to_number_int_to_string chk64_def int64_range_def Let_def
      clients_mark_dirty resp_simps)

lemma handle_incr_new:
  assumes "store s key = None" "clients s (client c) \<noteq> None"
  shows "\<exists>s'. handle_incr s c key = Some (s', c) \<and>
    store s' = (store s)(key \<mapsto> STRING (int_to_string 1)) \<and> clients s' (client c) \<noteq> None"
proof -
  have "int_to_string 1 = ''1''" by code_simp
  then show ?thesis using assms by (auto simp: handle_incr_def Let_def clients_mark_dirty)
qed

text \<open>\<open>n\<close> calls of \<open>INCR\<close>.\<close>

primrec incr_times :: "nat \<Rightarrow> string \<Rightarrow> state \<times> ClientContext \<Rightarrow> step" where
  "incr_times 0 key sc = Some sc"
| "incr_times (Suc n) key sc = Option.bind (incr_times n key sc) (\<lambda>(s, c). handle_incr s c key)"

lemma incr_times_counts:
  assumes "store s key = None" "clients s (client c) \<noteq> None" "0 < n" "n \<le> INT64_MAX"
  shows "\<exists>s'. incr_times n key (s, c) = Some (s', c) \<and>
    store s' = (store s)(key \<mapsto> STRING (int_to_string (int n))) \<and> clients s' (client c) \<noteq> None"
  using assms(3,4)
proof (induction n)
  case (Suc n)
  show ?case
  proof (cases "n = 0")
    case True
    then show ?thesis using handle_incr_new [OF assms(1,2)] by (simp add: fun_upd_def)
  next
    case False
    then have "0 < n" "n \<le> INT64_MAX" using Suc.prems by simp_all
    with Suc.IH obtain s1 where s1: "incr_times n key (s, c) = Some (s1, c)"
      "store s1 = (store s)(key \<mapsto> STRING (int_to_string (int n)))" "clients s1 (client c) \<noteq> None"
      by blast
    have "int64_range (int n)" "int n < int INT64_MAX" using Suc.prems by (simp_all add: int64_range_def)
    with handle_incr_number [of s1 key "int n" c] s1 show ?thesis by (auto simp: add.commute)
  qed
qed simp

lemma handle_incr_error:
  assumes "case store s key of None \<Rightarrow> False | Some (STRING v) \<Rightarrow> convert_string_to_number (c_str v) = None | Some _ \<Rightarrow> True"
  shows "\<exists>s'. handle_incr s c key = Some (s', c) \<and> store s' = store s \<and> expiration s' = expiration s"
  using assms by (auto simp: handle_incr_def split: option.splits RedisObject.splits)

end
