(* ===== verification/Db_Clients.thy ===== *)
theory Db_Clients
  imports Db_Strings
begin

text \<open>
  The handlers on users and channels: \<open>src/src/db/ACL\<close>, \<open>handle_acl_whoami\<close> of
  \<open>src/src/db/db.cpp\<close> and \<open>src/src/db/PUBSUB\<close>. Most of them cast the command of the context
  without looking at its type, so another command there is a fault. The theorems:
  \<open>AUTH\<close> accepts exactly the enabled users without password or with the password that was
  set; a message goes to every live subscriber once; the subscription counters count the
  entries of the channel lists.
\<close>

section \<open>Definitions\<close>

definition handle_acl_whoami :: "state \<Rightarrow> ClientContext \<Rightarrow> step" where
  "handle_acl_whoami s c = do {
     cl \<leftarrow> clients s (client c);
     name \<leftarrow> (case user cl of None \<Rightarrow> Some ''default'' | Some u \<Rightarrow> map_option username (users s u));
     Some (respond c (\<lambda>b. encode_bulk_string b name) s, c) }"

definition handle_acl_getuser :: "state \<Rightarrow> ClientContext \<Rightarrow> step" where
  "handle_acl_getuser s c =
     (case ctx_command c of
        Some (ACLGetUserCommand _) \<Rightarrow> do {
          cl \<leftarrow> clients s (client c);
          (user_flags, passwords) \<leftarrow> (case user cl of
              None \<Rightarrow> Some ([], [])
            | Some u \<Rightarrow> map_option (\<lambda>u. (user_flags u, passwords u)) (users s u));
          Some (respond c (\<lambda>b.
            let b = encode_array_header b 4;
                b = encode_bulk_string b ''flags'';
                b = encode_bulk_string_array b user_flags;
                b = encode_bulk_string b ''passwords''
            in encode_bulk_string_array b passwords) s, c) }
      | _ \<Rightarrow> None)"

definition handle_acl_setuser :: "env \<Rightarrow> state \<Rightarrow> ClientContext \<Rightarrow> step" where
  "handle_acl_setuser e s c =
     (case ctx_command c of
        Some (ACLSetUserCommand name password _) \<Rightarrow>
          let hashedPassword = (case password of None \<Rightarrow> [] | Some p \<Rightarrow> hash_sha256 (sha256 e) p);
              s = s\<lparr>users := setUser (users s) name hashedPassword []\<rparr>
          in Some (respond c (\<lambda>b. encode_simple_string b ''OK'') s, c)
      | _ \<Rightarrow> None)"

definition wrong_pass :: "ClientContext \<Rightarrow> state \<Rightarrow> state" where
  "wrong_pass c = respond c (\<lambda>b.
     encode_error b ''invalid username-password pair or user is disabled'' ''WRONGPASS'')"

definition log_in :: "ClientContext \<Rightarrow> string \<Rightarrow> state \<Rightarrow> state" where
  "log_in c name s =
     respond c (\<lambda>b. encode_simple_string b ''OK'')
       (update_client (client c) (\<lambda>cl. cl\<lparr>user := Some name, is_authenticated := True\<rparr>) s)"

definition handle_auth :: "env \<Rightarrow> state \<Rightarrow> ClientContext \<Rightarrow> step" where
  "handle_auth e s c =
     (case ctx_command c of
        Some (AuthCommand name password) \<Rightarrow>
          Some (case getUser (users s) name of
              None \<Rightarrow> wrong_pass c s
            | Some u \<Rightarrow>
                if \<not> is_enabled u then wrong_pass c s
                else if nopass u then log_in c name s
                else if list_ex (\<lambda>p. p = hash_sha256 (sha256 e) password) (passwords u) then log_in c name s
                else wrong_pass c s, c)
      | _ \<Rightarrow> None)"

section \<open>Channels\<close>

definition formatError :: "CommandType \<Rightarrow> string" where
  "formatError t = ''Can'' @ [CHR 0x27] @ ''t execute '' @ [CHR 0x27] @ commandTypeToString t @ [CHR 0x27] @
     '': only (P|S)SUBSCRIBE / (P|S)UNSUBSCRIBE / PING / QUIT / RESET are allowed in this context''"

text \<open>\<open>pubsub_clients[channel]\<close>, which makes an empty list of a missing one.\<close>

definition channel :: "'a DB_scheme \<Rightarrow> string \<Rightarrow> cid list" where
  "channel s ch = (case pubsub_clients s ch of None \<Rightarrow> [] | Some xs \<Rightarrow> xs)"

definition message_text :: "string \<Rightarrow> string \<Rightarrow> string \<Rightarrow> string" where
  "message_text ch msg b =
     encode_bulk_string (encode_bulk_string (encode_bulk_string (encode_array_header b 3) ''message'') ch) msg"

fun publish_loop :: "string \<Rightarrow> string \<Rightarrow> cid list \<Rightarrow> state \<Rightarrow> ClientContext \<Rightarrow> int \<Rightarrow> state \<times> ClientContext \<times> int" where
  "publish_loop ch msg [] s c n = (s, c, n)"
| "publish_loop ch msg (x # xs) s c n =
     (let (s, n) = (if clients s x \<noteq> None then (write_to x (message_text ch msg) s, n + 1) else (s, n));
          c = c\<lparr>ready_to_write_clients := ready_to_write_clients c @ [x]\<rparr>
      in publish_loop ch msg xs s c n)"

definition handlePublish :: "state \<Rightarrow> ClientContext \<Rightarrow> step" where
  "handlePublish s c =
     (case ctx_command c of
        Some (PublishCommand ch msg) \<Rightarrow>
          let subscribed_clients = channel s ch;
              s = s\<lparr>pubsub_clients := (pubsub_clients s)(ch \<mapsto> subscribed_clients)\<rparr>;
              (s, c, n) = publish_loop ch msg subscribed_clients s c 0
          in Some (respond c (\<lambda>b. encode_integer b n) s, c)
      | _ \<Rightarrow> None)"

text \<open>
  The search of \<open>UNSUBSCRIBE\<close> for the entry with the descriptor of the client: an entry
  whose client is gone is a null pointer that is followed.
\<close>

fun unsubscribe_loop :: "(cid \<rightharpoonup> Client) \<Rightarrow> int \<Rightarrow> cid list \<Rightarrow> (bool \<times> cid list) option" where
  "unsubscribe_loop h n [] = Some (False, [])"
| "unsubscribe_loop h n (x # xs) =
     (case h x of
        None \<Rightarrow> None
      | Some cl \<Rightarrow>
          if fd cl = n then Some (True, xs)
          else map_option (\<lambda>(f, ys). (f, x # ys)) (unsubscribe_loop h n xs))"

definition channel_reply :: "string \<Rightarrow> string \<Rightarrow> cid \<Rightarrow> state \<Rightarrow> state" where
  "channel_reply verb ch x s =
     update_client x (\<lambda>cl. cl\<lparr>write_buffer :=
       encode_integer (encode_bulk_string (encode_bulk_string (encode_array_header (write_buffer cl) 3) verb) ch)
         (sint (total_subscribed_channels cl))\<rparr>) s"

definition handleUnSubscribe :: "state \<Rightarrow> ClientContext \<Rightarrow> step" where
  "handleUnSubscribe s c =
     (case ctx_command c of
        Some (UnSubscribeCommand ch) \<Rightarrow> do {
          cl \<leftarrow> clients s (client c);
          (found, xs) \<leftarrow> unsubscribe_loop (clients s) (fd cl) (channel s ch);
          let s = s\<lparr>pubsub_clients := (pubsub_clients s)(ch \<mapsto> xs)\<rparr>;
          let s = (if found then update_client (client c)
            (\<lambda>cl. cl\<lparr>total_subscribed_channels := total_subscribed_channels cl - 1\<rparr>) s else s);
          Some (channel_reply ''unsubscribe'' ch (client c) s, c) }
      | _ \<Rightarrow> None)"

definition handleSubscribe :: "state \<Rightarrow> ClientContext \<Rightarrow> step" where
  "handleSubscribe s c =
     (case ctx_command c of
        Some (SubscribeCommand ch) \<Rightarrow>
          let s = s\<lparr>pubsub_clients := (pubsub_clients s)(ch \<mapsto> channel s ch @ [client c])\<rparr>;
              s = update_client (client c) (\<lambda>cl. (setClientPubSub cl)
                \<lparr>total_subscribed_channels := total_subscribed_channels cl + 1\<rparr>) s
          in Some (channel_reply ''subscribe'' ch (client c) s, c)
      | _ \<Rightarrow> None)"

text \<open>The third branch of the code calls the dispatcher with a \<open>PING\<close>.\<close>

definition handlePubSub :: "state \<Rightarrow> ClientContext \<Rightarrow> step" where
  "handlePubSub s c =
     (case ctx_command c of
        None \<Rightarrow> None
      | Some (SubscribeCommand _) \<Rightarrow> handleSubscribe s c
      | Some (UnSubscribeCommand _) \<Rightarrow> handleUnSubscribe s c
      | Some PingCommand \<Rightarrow>
          let s = respond c (\<lambda>b. encode_array_header b 2) s;
              s = handle_ping s c
          in Some (respond c (\<lambda>b. encode_bulk_string b []) s, c)
      | Some cmd \<Rightarrow> Some (respond c (\<lambda>b. encode_error b (formatError (cmd_type cmd)) ''ERR'') s, c))"

section \<open>Users\<close>

text \<open>Who may log in with which password.\<close>

definition may_log_in :: "env \<Rightarrow> (string \<rightharpoonup> User) \<Rightarrow> string \<Rightarrow> string \<Rightarrow> bool" where
  "may_log_in e us name password \<longleftrightarrow>
     (\<exists>u. us name = Some u \<and> is_enabled u \<and> (nopass u \<or> hash_sha256 (sha256 e) password \<in> set (passwords u)))"

lemma handle_auth_iff:
  assumes "ctx_command c = Some (AuthCommand name password)" "clients s (client c) = Some cl"
  shows "handle_auth e s c = Some (if may_log_in e (users s) name password then log_in c name s else wrong_pass c s, c)"
  using assms
  by (cases "users s name") (auto simp: handle_auth_def may_log_in_def getUser_def list_ex_iff)

lemma log_in_simps [simp]:
  "clients (log_in c name s) x = (if x = client c then map_option (\<lambda>cl. cl\<lparr>user := Some name,
     is_authenticated := True, write_buffer := encode_simple_string (write_buffer cl) ''OK''\<rparr>) (clients s x)
   else clients s x)" "users (log_in c name s) = users s" "store (log_in c name s) = store s"
  by (simp_all add: log_in_def option.map_comp comp_def)

lemma wrong_pass_simps [simp]:
  "users (wrong_pass c s) = users s" "store (wrong_pass c s) = store s"
  "map_option user (clients (wrong_pass c s) x) = map_option user (clients s x)"
  "map_option is_authenticated (clients (wrong_pass c s) x) = map_option is_authenticated (clients s x)"
  by (simp_all add: wrong_pass_def option.map_comp comp_def)

lemma hash_not_empty: "sha256 e p \<noteq> [] \<Longrightarrow> hash_sha256 (sha256 e) p \<noteq> []"
  by (cases "sha256 e p") (simp_all add: hash_sha256_def)

lemma setUser_enabled:
  "(\<And>u. us name = Some u \<Longrightarrow> is_enabled u) \<Longrightarrow> setUser us name h fs name = Some u \<Longrightarrow> is_enabled u"
  by (auto simp: setUser_def Let_def new_user_def split: option.splits if_splits)

text \<open>After \<open>ACL SETUSER\<close> with a password, exactly the texts with its digest log in.\<close>

lemma handle_acl_setuser_auth:
  assumes "ctx_command c = Some (ACLSetUserCommand name (Some p) fs)" "sha256 e p \<noteq> []"
    "\<And>u. users s name = Some u \<Longrightarrow> is_enabled u"
  shows "\<exists>s'. handle_acl_setuser e s c = Some (s', c) \<and> store s' = store s \<and>
    (\<forall>q. may_log_in e (users s') name q \<longleftrightarrow> hash_sha256 (sha256 e) q = hash_sha256 (sha256 e) p) \<and>
    (\<forall>n q. n \<noteq> name \<longrightarrow> may_log_in e (users s') n q = may_log_in e (users s) n q)"
proof -
  let ?us = "setUser (users s) name (hash_sha256 (sha256 e) p) []"
  obtain u where u: "?us name = Some u" "passwords u = [hash_sha256 (sha256 e) p]" "\<not> nopass u"
    using setUser_password [OF hash_not_empty [OF assms(2)]] by blast
  have "is_enabled u" using setUser_enabled assms(3) u(1) by blast
  with u show ?thesis using assms(1) by (auto simp: handle_acl_setuser_def may_log_in_def)
qed

section \<open>Channels\<close>

lemma publish_loop_simps:
  assumes "publish_loop ch msg xs s c n = (s', c', n')" "distinct xs"
  shows "clients s' x = (if x \<in> set xs then map_option
      (\<lambda>cl. cl\<lparr>write_buffer := message_text ch msg (write_buffer cl)\<rparr>) (clients s x) else clients s x) \<and>
    store s' = store s \<and> pubsub_clients s' = pubsub_clients s \<and>
    c' = c\<lparr>ready_to_write_clients := ready_to_write_clients c @ xs\<rparr> \<and>
    n' = n + int (length (filter (\<lambda>x. clients s x \<noteq> None) xs))"
  using assms
proof (induction xs arbitrary: s c n)
  case (Cons y xs)
  let ?s = "if clients s y \<noteq> None then write_to y (message_text ch msg) s else s"
  let ?n = "if clients s y \<noteq> None then n + 1 else n"
  have live: "filter (\<lambda>x. clients ?s x \<noteq> None) xs = filter (\<lambda>x. clients s x \<noteq> None) xs"
    by (rule filter_cong) auto
  have "publish_loop ch msg xs ?s (c\<lparr>ready_to_write_clients := ready_to_write_clients c @ [y]\<rparr>) ?n = (s', c', n')"
    using Cons.prems(1) by (auto simp: Let_def split: if_splits)
  from Cons.IH [OF this] Cons.prems(2) show ?case unfolding live by auto
qed simp

lemma handlePublish_delivers:
  assumes "ctx_command c = Some (PublishCommand ch msg)" "clients s (client c) \<noteq> None"
    "distinct (channel s ch)" "client c \<notin> set (channel s ch)"
  shows "\<exists>s' c'. handlePublish s c = Some (s', c') \<and> store s' = store s \<and>
    ready_to_write_clients c' = ready_to_write_clients c @ channel s ch \<and>
    (\<forall>x. buffer_of s' x =
      (if x = client c then encode_integer (buffer_of s x)
         (int (length (filter (\<lambda>y. clients s y \<noteq> None) (channel s ch))))
       else if x \<in> set (channel s ch) \<and> clients s x \<noteq> None then message_text ch msg (buffer_of s x)
       else buffer_of s x))"
proof -
  let ?s = "s\<lparr>pubsub_clients := (pubsub_clients s)(ch \<mapsto> channel s ch)\<rparr>"
  obtain s' c' n' where p: "publish_loop ch msg (channel s ch) ?s c 0 = (s', c', n')"
    by (metis prod_cases3)
  note l = publish_loop_simps [OF p assms(3)]
  have "handlePublish s c = Some (respond c' (\<lambda>b. encode_integer b n') s', c')"
    using assms(1) p by (simp add: handlePublish_def)
  moreover have c': "client c' = client c" using l by simp
  ultimately show ?thesis using l assms(2,4)
    by (auto simp: buffer_of_def split: option.split)
qed

text \<open>
  The counters: each live client has counted its entries in the channel lists. This is
  kept although the lists may hold a client twice and clients that are gone.
\<close>

definition subscriptions :: "'a DB_scheme \<Rightarrow> cid \<Rightarrow> nat" where
  "subscriptions s x = (\<Sum>ch \<in> dom (pubsub_clients s). count_list (channel s ch) x)"

definition counters_ok :: "state \<Rightarrow> bool" where
  "counters_ok s \<longleftrightarrow> finite (dom (pubsub_clients s)) \<and>
     (\<forall>x cl. clients s x = Some cl \<longrightarrow> total_subscribed_channels cl = of_nat (subscriptions s x))"

lemma subscriptions_cong: "pubsub_clients s = pubsub_clients t \<Longrightarrow> subscriptions s x = subscriptions t x"
  by (simp add: subscriptions_def channel_def)

lemma subscriptions_upd:
  assumes "finite (dom (pubsub_clients s))"
  shows "subscriptions (s\<lparr>pubsub_clients := (pubsub_clients s)(ch \<mapsto> xs)\<rparr>) x + count_list (channel s ch) x =
    subscriptions s x + count_list xs x"
proof -
  let ?D = "dom (pubsub_clients s) - {ch}" and ?t = "s\<lparr>pubsub_clients := (pubsub_clients s)(ch \<mapsto> xs)\<rparr>"
  have "subscriptions ?t x = count_list xs x + (\<Sum>k \<in> ?D. count_list (channel ?t k) x)"
    using assms by (simp add: subscriptions_def channel_def sum.insert_remove)
  also have "(\<Sum>k \<in> ?D. count_list (channel ?t k) x) = (\<Sum>k \<in> ?D. count_list (channel s k) x)"
    by (rule sum.cong) (simp_all add: channel_def)
  finally have t: "subscriptions ?t x = count_list xs x + (\<Sum>k \<in> ?D. count_list (channel s k) x)" .
  have "subscriptions s x = count_list (channel s ch) x + (\<Sum>k \<in> ?D. count_list (channel s k) x)"
  proof (cases "ch \<in> dom (pubsub_clients s)")
    case True
    then show ?thesis using assms by (simp add: subscriptions_def sum.remove)
  next
    case False
    then have "channel s ch = []" "?D = dom (pubsub_clients s)" by (auto simp: channel_def domIff)
    then show ?thesis by (simp add: subscriptions_def)
  qed
  with t show ?thesis by simp
qed

lemma handleSubscribe_counters:
  assumes "counters_ok s" "handleSubscribe s c = Some (s', c')"
    and ch: "ctx_command c = Some (SubscribeCommand ch)"
  shows "counters_ok s'"
proof -
  let ?t = "s\<lparr>pubsub_clients := (pubsub_clients s)(ch \<mapsto> channel s ch @ [client c])\<rparr>"
  have fin: "finite (dom (pubsub_clients s))" using assms(1) by (simp add: counters_ok_def)
  have sub: "subscriptions s' x = subscriptions ?t x" for x
    using assms(2) ch by (intro subscriptions_cong) (auto simp: handleSubscribe_def channel_reply_def)
  have n: "subscriptions s' x = subscriptions s x + (if x = client c then 1 else 0)" for x
    using subscriptions_upd [OF fin, of ch "channel s ch @ [client c]" x] unfolding sub by simp
  show ?thesis using assms fin ch n
    by (auto simp: counters_ok_def handleSubscribe_def channel_reply_def setClientPubSub_def)
qed

lemma unsubscribe_loop_count:
  assumes "unsubscribe_loop h n xs = Some (f, ys)" "\<And>y cl. h y = Some cl \<Longrightarrow> (fd cl = n) = (y = z)"
  shows "count_list xs x = count_list ys x + (if f \<and> x = z then 1 else 0)"
  using assms(1)
proof (induction xs arbitrary: f ys)
  case (Cons y xs)
  from Cons.prems obtain cl where cl: "h y = Some cl" by (auto split: option.splits)
  show ?case
  proof (cases "y = z")
    case True
    with Cons.prems cl assms(2) [OF cl] show ?thesis by auto
  next
    case False
    with Cons.prems cl assms(2) [OF cl] obtain ys' where ys: "unsubscribe_loop h n xs = Some (f, ys')" "ys = y # ys'"
      by auto
    from Cons.IH [OF ys(1)] show ?thesis by (simp add: ys(2))
  qed
qed simp

lemma handleUnSubscribe_counters:
  assumes "counters_ok s" "handleUnSubscribe s c = Some (s', c')"
    and ch: "ctx_command c = Some (UnSubscribeCommand ch)"
    and inj: "\<And>x y a b. clients s x = Some a \<Longrightarrow> clients s y = Some b \<Longrightarrow> fd a = fd b \<Longrightarrow> x = y"
  shows "counters_ok s'"
proof -
  from assms(2) ch obtain cl f xs where cl: "clients s (client c) = Some cl"
    and l: "unsubscribe_loop (clients s) (fd cl) (channel s ch) = Some (f, xs)"
    by (auto simp: handleUnSubscribe_def bind_eq_Some_conv)
  let ?t = "s\<lparr>pubsub_clients := (pubsub_clients s)(ch \<mapsto> xs)\<rparr>"
  have fin: "finite (dom (pubsub_clients s))" using assms(1) by (simp add: counters_ok_def)
  have cnt: "count_list (channel s ch) x = count_list xs x + (if f \<and> x = client c then 1 else 0)" for x
  proof (rule unsubscribe_loop_count [OF l])
    show "(fd cl' = fd cl) = (y = client c)" if "clients s y = Some cl'" for y cl'
      using inj [OF that cl] that cl by auto
  qed
  have sub: "subscriptions s' x = subscriptions ?t x" for x
    using assms(2) ch cl l
    by (intro subscriptions_cong) (auto simp: handleUnSubscribe_def channel_reply_def Let_def)
  have n: "subscriptions s' x + (if f \<and> x = client c then 1 else 0) = subscriptions s x" for x
    using subscriptions_upd [OF fin, of ch xs x] cnt [of x] unfolding sub by simp
  have w: "(of_nat (subscriptions s x) :: u64) = of_nat (subscriptions s' x) + (if f \<and> x = client c then 1 else 0)" for x
    unfolding n [symmetric] by simp
  have total: "map_option total_subscribed_channels (clients s' x) =
      map_option (\<lambda>cl. total_subscribed_channels cl - (if f \<and> x = client c then 1 else 0)) (clients s x)" for x
    using assms(2) ch cl l
    by (auto simp: handleUnSubscribe_def channel_reply_def Let_def option.map_comp comp_def)
  have dom: "finite (dom (pubsub_clients s'))"
    using fin assms(2) ch cl l by (auto simp: handleUnSubscribe_def channel_reply_def Let_def)
  show ?thesis unfolding counters_ok_def
  proof (intro conjI allI impI)
    fix x cl' assume "clients s' x = Some cl'"
    with total [of x] obtain cl0 where "clients s x = Some cl0"
      "total_subscribed_channels cl' = total_subscribed_channels cl0 - (if f \<and> x = client c then 1 else 0)"
      by (cases "clients s x") simp_all
    then show "total_subscribed_channels cl' = of_nat (subscriptions s' x)"
      using assms(1) w [of x] by (simp add: counters_ok_def)
  qed (rule dom)
qed


end
