(* ===== verification/Resp_Parser.thy ===== *)
theory Resp_Parser
  imports Utils
begin

text \<open>
  \<open>src/src/parser/parser.cpp\<close>: the tokeniser of the wire protocol, the parser of the
  simple strings of the handshake and the parser of the bulk string sequences that stream
  entries are stored as. The tokeniser works on the read buffer and a position in it,
  both explicit here. Positions may pass the end of the buffer (the code adds two for
  a line end without looking), so reads are guarded by the buffer size as in the code.
  The theorems: a bulk string without a carriage return, or an array header, is read back
  wherever it stands in the buffer, and the position is moved exactly behind it; a stored sequence of bulk strings of any
  content is read back.
\<close>

section \<open>Definitions\<close>

datatype token_type = ARRAY | BULK_STRING | UNKNOWN_TOKEN

record ParsedToken =
  ttype :: token_type
  start_pos :: nat
  end_pos :: nat
  tlength :: u64

abbreviation token :: "token_type \<Rightarrow> nat \<Rightarrow> nat \<Rightarrow> u64 \<Rightarrow> ParsedToken" where
  "token t s e n \<equiv> \<lparr>ttype = t, start_pos = s, end_pos = e, tlength = n\<rparr>"

text \<open>The result, the length read so far and the position of \<open>calculate_length\<close>.\<close>

function calculate_length :: "string \<Rightarrow> nat \<Rightarrow> u64 \<Rightarrow> bool \<times> u64 \<times> nat" where
  "calculate_length buf pos len =
     (if pos < length buf \<and> buf ! pos \<noteq> CR then
        (if isdigit (buf ! pos)
         then calculate_length buf (pos + 1) (len * 10 + of_nat (digit_val (buf ! pos)))
         else (False, len, pos))
      else (True, len, pos + 2))"
  by pat_completeness auto
termination
  by (relation "measure (\<lambda>(buf, pos, len). length buf - pos)") auto

declare calculate_length.simps [simp del]

text \<open>The position of the next carriage return, or the end of the buffer.\<close>

function skip_to_CR :: "string \<Rightarrow> nat \<Rightarrow> nat" where
  "skip_to_CR buf pos =
     (if pos < length buf \<and> buf ! pos \<noteq> CR then skip_to_CR buf (pos + 1) else pos)"
  by pat_completeness auto
termination
  by (relation "measure (\<lambda>(buf, pos). length buf - pos)") auto

declare skip_to_CR.simps [simp del]

definition Parse :: "string \<Rightarrow> nat \<Rightarrow> ParsedToken \<times> nat" where
  "Parse buf pos =
     (if pos < length buf \<and> buf ! pos = CHR ''*'' then
        (case calculate_length buf (pos + 1) 0 of
           (True, len, pos') \<Rightarrow> (token ARRAY 0 0 len, pos')
         | (False, _, pos') \<Rightarrow> (token UNKNOWN_TOKEN 0 0 0, pos'))
      else if pos < length buf \<and> buf ! pos = CHR ''$'' then
        (case calculate_length buf (pos + 1) 0 of
           (True, len, start) \<Rightarrow>
             let stop = skip_to_CR buf start
             in (token BULK_STRING start (stop - 1) len, stop + 2)
         | (False, _, pos') \<Rightarrow> (token UNKNOWN_TOKEN 0 0 0, pos'))
      else (token UNKNOWN_TOKEN 0 0 0, pos))"

text \<open>
  \<open>std::string{data + start_pos, end_pos - start_pos + 1}\<close>. The byte behind the buffer is
  the terminating NUL of \<open>std::string\<close>, which a token that is not a bulk string (both
  positions 0) reads when the buffer is empty.
\<close>

definition token_text :: "string \<Rightarrow> ParsedToken \<Rightarrow> string" where
  "token_text buf t =
     take (end_pos t + 1 - start_pos t) (drop (start_pos t) (buf @ [CHR 0x00]))"

abbreviation is_crlf :: "char \<Rightarrow> bool" where "is_crlf c \<equiv> c = CR \<or> c = LF"

text \<open>
  \<open>parse_simple_string\<close>: the flag and the text, which is also set on some failures.
  \<open>q\<close> is the position behind the text; the tests on the line end are skipped at the end of
  the buffer, and the last one compares the final position with the size.
\<close>

definition parse_simple_string :: "string \<Rightarrow> bool \<times> string" where
  "parse_simple_string raw =
     (case dropWhile is_crlf raw of
        [] \<Rightarrow> (False, '''')
      | c # r \<Rightarrow>
          if c \<noteq> CHR ''+'' then (False, '''')
          else
            let out = takeWhile (\<lambda>x. x \<noteq> CR) r; rest = drop (length out) r
            in if 1 < length rest \<and> rest ! 1 \<noteq> LF then (False, out)
               else (2 \<le> length rest, out))"

text \<open>
  \<open>parse_bulk_string_sequence\<close>: the flag and the strings read, from a position on. The
  length is a \<open>size_t\<close> and the end position wraps around with it, so the loop has no
  bound on arbitrary bytes: not returning is \<open>None\<close>.
\<close>

definition crlf_at :: "string \<Rightarrow> nat \<Rightarrow> bool" where
  "crlf_at raw pos \<longleftrightarrow> pos + 1 < length raw \<and> raw ! pos = CR \<and> raw ! (pos + 1) = LF"

partial_function (option) parse_bulk_string_sequence ::
  "string \<Rightarrow> nat \<Rightarrow> string list \<Rightarrow> (bool \<times> string list) option" where
  "parse_bulk_string_sequence raw pos out =
     (let pos = pos + length (takeWhile is_crlf (drop pos raw)) in
      if length raw \<le> pos then Some (True, out)
      else if raw ! pos \<noteq> CHR ''$'' then Some (False, out)
      else let pos = pos + 1 in
        if length raw \<le> pos \<or> \<not> isdigit (raw ! pos) then Some (False, out)
        else
          let ds = takeWhile (\<lambda>c. c \<noteq> CR) (drop pos raw); r = cpsn_loop ds 0 in
          if \<not> fst r then Some (False, out)
          else let pos = pos + length ds in
            if \<not> crlf_at raw pos then Some (False, out)
            else
              let pos = pos + 2; len = unat (snd r); stop = (pos + len) mod 18446744073709551616 in
              if length raw < stop then Some (False, out)
              else
                let out = out @ [take len (drop pos raw)] in
                if \<not> crlf_at raw stop then Some (False, out)
                else parse_bulk_string_sequence raw (stop + 2) out)"

section \<open>Reading inside a buffer\<close>

lemma calculate_length_digits:
  assumes "list_all isdigit ds"
  shows "calculate_length (pre @ ds @ CR # post) (length pre) n =
    (True, snd (cpsn_loop ds n), length pre + length ds + 2)"
  using assms
proof (induction ds arbitrary: pre n)
  case Nil
  show ?case by (subst calculate_length.simps) (simp add: nth_append)
next
  case (Cons d ds)
  then have "d \<noteq> CR" by auto
  with Cons.prems Cons.IH [of "pre @ [d]" "n * 10 + of_nat (digit_val d)"] show ?case
    by (subst calculate_length.simps) (simp add: nth_append)
qed

lemma skip_to_CR_text:
  assumes "CR \<notin> set s"
  shows "skip_to_CR (pre @ s @ CR # post) (length pre) = length pre + length s"
  using assms
proof (induction s arbitrary: pre)
  case Nil
  show ?case by (subst skip_to_CR.simps) (simp add: nth_append)
next
  case (Cons x s)
  with Cons.IH [of "pre @ [x]"] show ?case by (subst skip_to_CR.simps) (auto simp: nth_append)
qed

lemma cpsn_nat_to_string: "snd (cpsn_loop (nat_to_string n) 0) = of_nat n"
  using convert_positive_nat_to_string [of n] by (simp add: convert_positive_string_to_number_def)

lemma Parse_array:
  "Parse (pre @ (CHR ''*'' # nat_to_string n @ CRLF) @ post) (length pre) =
     (token ARRAY 0 0 (of_nat n), length pre + length (CHR ''*'' # nat_to_string n @ CRLF))"
proof -
  have "calculate_length ((pre @ [CHR ''*'']) @ nat_to_string n @ CR # LF # post) (length (pre @ [CHR ''*''])) 0 =
      (True, of_nat n, length (pre @ [CHR ''*'']) + length (nat_to_string n) + 2)"
    by (subst calculate_length_digits) (simp_all add: cpsn_nat_to_string)
  then show ?thesis by (simp add: Parse_def nth_append)
qed

text \<open>A bulk string is delimited by the next carriage return, not by its length.\<close>

lemma Parse_bulk:
  assumes "CR \<notin> set s"
  shows "Parse (pre @ bulk s @ post) (length pre) =
    (token BULK_STRING (length pre + length (nat_to_string (length s)) + 3)
       (length pre + length (nat_to_string (length s)) + 3 + length s - 1) (of_nat (length s)),
     length pre + length (bulk s))"
proof -
  let ?d = "nat_to_string (length s)"
  have b: "pre @ bulk s @ post = (pre @ ''$'') @ ?d @ CR # LF # s @ CRLF @ post" by (simp add: bulk_def)
  have b': "pre @ bulk s @ post = (pre @ ''$'' @ ?d @ CRLF) @ s @ CR # LF # post" by (simp add: bulk_def)
  have "calculate_length (pre @ bulk s @ post) (length (pre @ ''$'')) 0 =
      (True, of_nat (length s), length (pre @ ''$'') + length ?d + 2)"
    unfolding b by (subst calculate_length_digits) (simp_all add: cpsn_nat_to_string)
  moreover have "skip_to_CR (pre @ bulk s @ post) (length (pre @ ''$'' @ ?d @ CRLF)) =
      length (pre @ ''$'' @ ?d @ CRLF) + length s"
    unfolding b' using assms by (rule skip_to_CR_text)
  moreover have "(pre @ bulk s @ post) ! length pre = CHR ''$''" "length pre < length (pre @ bulk s @ post)"
    by (simp_all add: nth_append bulk_def)
  moreover have "length (bulk s) = length ?d + length s + 5" by (simp add: bulk_def)
  ultimately show ?thesis by (simp add: Parse_def Let_def add.commute add.left_commute numeral_3_eq_3)
qed

text \<open>One bulk string as the command parsers read it: its text, unless the token is another.\<close>

definition next_bulk :: "string \<Rightarrow> nat \<Rightarrow> string option \<times> nat" where
  "next_bulk buf pos =
     (let (t, pos') = Parse buf pos
      in (if ttype t = BULK_STRING then Some (token_text buf t) else None, pos'))"

lemma next_bulk_at [simp]:
  assumes "CR \<notin> set s"
  shows "next_bulk (pre @ bulk s @ post) (length pre) = (Some s, length pre + length (bulk s))"
proof -
  let ?n = "length pre + length (nat_to_string (length s)) + 3"
  have "drop ?n ((pre @ bulk s @ post) @ [CHR 0x00]) = s @ CRLF @ post @ [CHR 0x00]"
    by (simp add: bulk_def numeral_3_eq_3)
  then have "take (?n + length s - 1 + 1 - ?n) (drop ?n ((pre @ bulk s @ post) @ [CHR 0x00])) = s"
    by simp
  then show ?thesis by (simp add: next_bulk_def Parse_bulk [OF assms] token_text_def)
qed

section \<open>Sequences of bulk strings\<close>

lemma parse_bulk_string_sequence_step:
  assumes "length (pre @ bulk s @ post) < 18446744073709551616"
  shows "parse_bulk_string_sequence (pre @ bulk s @ post) (length pre) out =
    parse_bulk_string_sequence (pre @ bulk s @ post) (length (pre @ bulk s)) (out @ [s])"
proof -
  let ?d = "nat_to_string (length s)"
  let ?raw = "pre @ bulk s @ post"
  have raw: "?raw = (pre @ ''$'') @ ?d @ CR # LF # s @ CR # LF # post" by (simp add: bulk_def)
  have at: "?raw ! length pre = CHR ''$''" "\<not> length ?raw \<le> length pre" by (simp_all add: bulk_def nth_append)
  have skip: "takeWhile is_crlf (drop (length pre) ?raw) = []" by (simp add: bulk_def)
  have drop1: "drop (length pre + 1) ?raw = ?d @ CR # LF # s @ CR # LF # post"
    by (simp add: bulk_def)
  have "isdigit (hd ?d)"
    using nat_to_string_digits [of "length s"] by (metis hd_in_set list_all_iff nat_to_string_not_Nil)
  then have dig: "isdigit (?raw ! (length pre + 1))" "\<not> length ?raw \<le> length pre + 1"
    using drop1 by (auto simp: hd_drop_conv_nth [symmetric] bulk_def)
  have ds: "takeWhile (\<lambda>c. c \<noteq> CR) (drop (length pre + 1) ?raw) = ?d"
    unfolding drop1 by (subst takeWhile_append2) auto
  have len: "cpsn_loop ?d 0 = (True, of_nat (length s))"
    using convert_positive_nat_to_string [of "length s"] by (simp add: convert_positive_string_to_number_def)
  have un: "unat (of_nat (length s) :: u64) = length s"
    using assms by (simp add: unat_of_nat bulk_def)
  have c1: "crlf_at ?raw (length pre + 1 + length ?d)"
    unfolding crlf_at_def by (simp add: bulk_def nth_append)
  have stop: "(length pre + 1 + length ?d + 2 + length s) mod 18446744073709551616 = length pre + 1 + length ?d + 2 + length s"
    using assms by (simp add: bulk_def)
  have take: "take (length s) (drop (length pre + 1 + length ?d + 2) ?raw) = s"
    by (simp add: bulk_def numeral_3_eq_3)
  have c2: "crlf_at ?raw (length pre + 1 + length ?d + 2 + length s)"
    unfolding crlf_at_def by (simp add: bulk_def nth_append)
  have e: "length pre + 1 + length ?d + 2 + length s + 2 = length (pre @ bulk s)"
    by (simp add: bulk_def)
  have le: "\<not> length ?raw < length pre + 1 + length ?d + 2 + length s" by (simp add: bulk_def)
  show ?thesis
    by (subst parse_bulk_string_sequence.simps)
      (simp only: Let_def skip list.size add_0_right at dig ds len un c1 c2 stop take e le fst_conv snd_conv
        if_True if_False simp_thms)
qed

lemma parse_bulk_string_sequence_bulks:
  assumes "length (pre @ bulks ss) < 18446744073709551616"
  shows "parse_bulk_string_sequence (pre @ bulks ss) (length pre) out = Some (True, out @ ss)"
  using assms
proof (induction ss arbitrary: pre out)
  case Nil
  show ?case by (subst parse_bulk_string_sequence.simps) simp
next
  case (Cons s ss)
  with Cons.IH [of "pre @ bulk s"] show ?case
    using parse_bulk_string_sequence_step [of pre s "bulks ss" out] by simp
qed

section \<open>Simple strings\<close>

lemma parse_simple_string_encode:
  assumes "CR \<notin> set s"
  shows "parse_simple_string (encode_simple_string [] s) = (True, s)"
proof -
  have "takeWhile (\<lambda>x. x \<noteq> CR) (s @ CRLF) = s"
    using assms by (subst takeWhile_append2) auto
  then show ?thesis by (simp add: parse_simple_string_def encode_simple_string_def)
qed

end
