(* ===== verification/Geohash.thy ===== *)
theory Geohash
  imports Prelude Complex_Main
begin

text \<open>
  \<open>src/src/geohash.h\<close> and \<open>src/src/geohash.cpp\<close>. The bit interleaving is exact, on 64-bit
  words; the theorems are that it places the bits of its arguments at even and odd
  positions and that \<open>deinterleave64\<close> inverts it. Coordinates are real numbers: the model
  idealises the \<open>double\<close> arithmetic of encoding, decoding and distance to exact arithmetic.
\<close>

section \<open>Definitions\<close>

text \<open>One line \<open>x = (x | (x << s)) & b\<close> of the interleaving, and its mirror image.\<close>

definition spread_step :: "nat \<Rightarrow> u64 \<Rightarrow> u64 \<Rightarrow> u64" where
  "spread_step s b x = (x OR push_bit s x) AND b"

definition squash_step :: "nat \<Rightarrow> u64 \<Rightarrow> u64 \<Rightarrow> u64" where
  "squash_step s b x = (x OR drop_bit s x) AND b"

definition spread :: "u64 \<Rightarrow> u64" where
  "spread x =
     (let x = spread_step 16 0x0000FFFF0000FFFF x;
          x = spread_step 8 0x00FF00FF00FF00FF x;
          x = spread_step 4 0x0F0F0F0F0F0F0F0F x;
          x = spread_step 2 0x3333333333333333 x
      in spread_step 1 0x5555555555555555 x)"

definition squash :: "u64 \<Rightarrow> u64" where
  "squash x =
     (let x = squash_step 0 0x5555555555555555 x;
          x = squash_step 1 0x3333333333333333 x;
          x = squash_step 2 0x0F0F0F0F0F0F0F0F x;
          x = squash_step 4 0x00FF00FF00FF00FF x;
          x = squash_step 8 0x0000FFFF0000FFFF x
      in squash_step 16 0x00000000FFFFFFFF x)"

definition interleave64 :: "32 word \<Rightarrow> 32 word \<Rightarrow> u64" where
  "interleave64 xlo ylo = spread (ucast xlo) OR push_bit 1 (spread (ucast ylo))"

definition deinterleave64 :: "u64 \<Rightarrow> u64" where
  "deinterleave64 interleaved =
     squash interleaved OR push_bit 32 (squash (drop_bit 1 interleaved))"

record GeoHashRange =
  min' :: real
  max' :: real

record GeoHashBits =
  bits :: u64
  step :: nat

record GeoHashArea =
  hashbits :: GeoHashBits
  longitude :: GeoHashRange
  latitude :: GeoHashRange

record GeoHash =
  latRange :: GeoHashRange
  longRange :: GeoHashRange

definition default_GeoHash :: GeoHash where
  "default_GeoHash = \<lparr>latRange = \<lparr>min' = - 90, max' = 90\<rparr>, longRange = \<lparr>min' = - 180, max' = 180\<rparr>\<rparr>"

text \<open>Conversion of a non-negative offset to \<open>uint32_t\<close> drops the fraction.\<close>

definition to_u32 :: "real \<Rightarrow> 32 word" where
  "to_u32 r = of_int \<lfloor>r\<rfloor>"

definition geoHashEncode :: "GeoHash \<Rightarrow> real \<Rightarrow> real \<Rightarrow> nat \<Rightarrow> GeoHashBits option" where
  "geoHashEncode g lon lat stp =
     (if max' (longRange g) < lon \<or> lon < min' (longRange g) \<or> max' (latRange g) < lat \<or> lat < min' (latRange g)
      then None
      else
        let lat_offset = (lat - min' (latRange g)) / (max' (latRange g) - min' (latRange g)) * 2 ^ stp;
            long_offset = (lon - min' (longRange g)) / (max' (longRange g) - min' (longRange g)) * 2 ^ stp
        in Some \<lparr>bits = interleave64 (to_u32 lat_offset) (to_u32 long_offset), step = stp\<rparr>)"

definition geoHashDecode :: "GeoHash \<Rightarrow> GeoHashBits \<Rightarrow> GeoHashArea" where
  "geoHashDecode g hashBits =
     (let d = deinterleave64 (bits hashBits);
          latoffset = (ucast d :: 32 word);
          longoffset = (ucast (drop_bit 32 d) :: 32 word);
          latScale = max' (latRange g) - min' (latRange g);
          longScale = max' (longRange g) - min' (longRange g);
          scale = 2 ^ step hashBits
      in \<lparr>hashbits = hashBits,
          longitude = \<lparr>min' = min' (longRange g) + real (unat longoffset) / scale * longScale,
                       max' = min' (longRange g) + real (unat (longoffset + 1)) / scale * longScale\<rparr>,
          latitude = \<lparr>min' = min' (latRange g) + real (unat latoffset) / scale * latScale,
                      max' = min' (latRange g) + real (unat (latoffset + 1)) / scale * latScale\<rparr>\<rparr>)"

text \<open>\<open>atan2\<close> on the first quadrant, where \<open>calculateDistance\<close> uses it.\<close>

definition atan2_pos :: "real \<Rightarrow> real \<Rightarrow> real" where
  "atan2_pos y x = (if x = 0 then (if y = 0 then 0 else pi / 2) else arctan (y / x))"

definition calculateDistance :: "GeoHashArea \<Rightarrow> GeoHashArea \<Rightarrow> real" where
  "calculateDistance area1 area2 =
     (let lon1 = (min' (longitude area1) + max' (longitude area1)) / 2;
          lat1 = (min' (latitude area1) + max' (latitude area1)) / 2;
          lon2 = (min' (longitude area2) + max' (longitude area2)) / 2;
          lat2 = (min' (latitude area2) + max' (latitude area2)) / 2;
          lat1Rad = lat1 * pi / 180;
          lat2Rad = lat2 * pi / 180;
          dLat = (lat2 - lat1) * pi / 180;
          dLon = (lon2 - lon1) * pi / 180;
          a = sin (dLat / 2) * sin (dLat / 2) +
              cos lat1Rad * cos lat2Rad * sin (dLon / 2) * sin (dLon / 2);
          c = 2 * atan2_pos (sqrt a) (sqrt (1 - a))
      in 6372797.560856 * c)"

section \<open>Functions that act bit by bit\<close>

text \<open>A function that commutes with \<open>OR\<close> is determined by its values on single bits.\<close>

definition or_linear :: "(u64 \<Rightarrow> u64) \<Rightarrow> bool" where
  "or_linear f \<longleftrightarrow> f 0 = 0 \<and> (\<forall>x y. f (x OR y) = f x OR f y)"

lemma take_bit_Suc_or:
  "take_bit (Suc n) (w :: u64) = take_bit n w OR (if bit w n then push_bit n 1 else 0)"
  by (rule bit_word_eqI) (auto simp: bit_simps less_Suc_eq)

lemma or_linear_bit:
  assumes "or_linear f"
  shows "bit (f (take_bit n w)) k \<longleftrightarrow> (\<exists>i < n. bit w i \<and> bit (f (push_bit i 1)) k)"
proof (induction n)
  case 0
  show ?case using assms by (simp add: or_linear_def)
next
  case (Suc n)
  have "f (take_bit (Suc n) w) = f (take_bit n w) OR (if bit w n then f (push_bit n 1) else 0)"
    using assms by (simp add: take_bit_Suc_or or_linear_def)
  with Suc show ?case by (auto simp: bit_or_iff less_Suc_eq)
qed

lemma step_or [simp]:
  "spread_step s b (x OR y) = spread_step s b x OR spread_step s b y" "spread_step s b 0 = 0"
  "squash_step s b (x OR y) = squash_step s b x OR squash_step s b y" "squash_step s b 0 = 0"
  by (auto simp: spread_step_def squash_step_def bit_eq_iff bit_simps)

lemma or_linear_spread: "or_linear spread"
  by (simp add: or_linear_def spread_def)

lemma or_linear_squash: "or_linear squash"
  by (simp add: or_linear_def squash_def)

lemma spread_single: "\<forall>i \<in> set [0..<32]. spread (push_bit i 1) = push_bit (2 * i) 1"
  by (simp add: upt_rec spread_def squash_def spread_step_def squash_step_def)

lemma squash_single: "\<forall>i \<in> set [0..<32]. squash (push_bit (2 * i) 1) = push_bit i 1"
  by (simp add: upt_rec squash_def squash_step_def)

lemma squash_odd: "\<forall>i \<in> set [0..<32]. squash_step 0 0x5555555555555555 (push_bit (2 * i + 1) 1) = 0"
  by (simp add: upt_rec squash_step_def)

section \<open>Interleaving\<close>

lemma bit_push_1: "bit (push_bit i 1 :: u64) k \<longleftrightarrow> k = i \<and> k < 64"
  by (auto simp: bit_simps)

lemma bit32_less: "bit (x :: 32 word) n \<Longrightarrow> n < 32"
  using bit_imp_le_length [of x n] by simp

lemma spread_bit: "bit (spread (ucast (x :: 32 word))) k \<longleftrightarrow> even k \<and> k < 64 \<and> bit x (k div 2)"
proof -
  have "take_bit 32 (ucast x :: u64) = ucast x"
    by (rule bit_word_eqI) (auto simp: bit_simps dest: bit32_less)
  then have "bit (spread (ucast x)) k \<longleftrightarrow> (\<exists>i < 32. bit (ucast x :: u64) i \<and> bit (spread (push_bit i 1)) k)"
    using or_linear_bit [OF or_linear_spread, of 32 "ucast x" k] by simp
  also have "\<dots> \<longleftrightarrow> (\<exists>i < 32. bit x i \<and> k = 2 * i \<and> k < 64)"
    using spread_single by (auto simp: bit_push_1 bit_simps)
  finally show ?thesis by (auto elim!: evenE)
qed

lemma squash_bit: "bit (squash w) k \<longleftrightarrow> k < 32 \<and> bit w (2 * k)"
proof -
  have sq: "bit (squash (push_bit i 1)) k \<longleftrightarrow> i = 2 * k \<and> k < 32" if "i < 64" for i
  proof (cases "even i")
    case True
    then obtain j where "i = 2 * j" by (rule evenE)
    with squash_single that show ?thesis by (auto simp: bit_exp_iff)
  next
    case False
    then obtain j where j: "i = 2 * j + 1" by (rule oddE)
    with squash_odd that have "squash_step 0 0x5555555555555555 (push_bit i 1) = 0" by simp
    then have "squash (push_bit i 1) = 0" by (simp add: squash_def)
    with j show ?thesis by auto presburger
  qed
  have "take_bit 64 w = w" by (rule bit_word_eqI) (auto simp: bit_simps)
  then have "bit (squash w) k \<longleftrightarrow> (\<exists>i < 64. bit w i \<and> bit (squash (push_bit i 1)) k)"
    using or_linear_bit [OF or_linear_squash, of 64 w k] by simp
  also have "\<dots> \<longleftrightarrow> k < 32 \<and> bit w (2 * k)"
    using sq sq [of "2 * k"] by (auto intro!: exI [of _ "2 * k"])
  finally show ?thesis .
qed

lemma interleave64_bit:
  "bit (interleave64 x y) k \<longleftrightarrow> k < 64 \<and> (if even k then bit x (k div 2) else bit y (k div 2))"
  by (simp only: interleave64_def bit_or_iff bit_push_bit_iff spread_bit) (cases k; auto)

lemma deinterleave64_interleave64:
  "deinterleave64 (interleave64 x y) = ucast x OR push_bit 32 (ucast y)"
proof (rule bit_word_eqI)
  fix k :: nat
  assume "k < LENGTH(64)"
  have "bit x n \<Longrightarrow> n < 32" "bit y n \<Longrightarrow> n < 32" for n by (rule bit32_less, assumption)+
  then show "bit (deinterleave64 (interleave64 x y)) k = bit (ucast x OR push_bit 32 (ucast y) :: u64) k"
    using \<open>k < LENGTH(64)\<close>
    by (auto simp: deinterleave64_def bit_or_iff bit_push_bit_iff squash_bit interleave64_bit
        bit_drop_bit_eq bit_ucast_iff)
qed

section \<open>Encoding and decoding a point\<close>

lemma decode_interleave:
  "ucast (deinterleave64 (interleave64 x y)) = x" "ucast (drop_bit 32 (deinterleave64 (interleave64 x y))) = y"
proof -
  have "bit x n \<Longrightarrow> n < 32" "bit y n \<Longrightarrow> n < 32" for n by (rule bit32_less, assumption)+
  then show "ucast (deinterleave64 (interleave64 x y)) = x"
    "ucast (drop_bit 32 (deinterleave64 (interleave64 x y))) = y"
    by (auto simp: deinterleave64_interleave64 bit_eq_iff bit_simps)
qed

lemma cell_bounds:
  assumes "0 \<le> r" "r \<le> 1" "s \<le> 31"
  shows "real (unat (to_u32 (r * 2 ^ s))) / 2 ^ s \<le> r" "r < real (unat (to_u32 (r * 2 ^ s) + 1)) / 2 ^ s"
proof -
  let ?f = "\<lfloor>r * 2 ^ s\<rfloor>"
  have "(2::real) ^ s \<le> 2 ^ 31" using assms(3) by (intro power_increasing) auto
  with mult_mono [of r 1 "2 ^ s" "2 ^ 31"] assms have "r * 2 ^ s \<le> 2 ^ 31" by simp
  then have f: "0 \<le> ?f" "?f \<le> 2 ^ 31" using assms by (auto simp: floor_le_iff)
  define n where "n = nat ?f"
  have n: "?f = int n" "n \<le> 2147483648" using f by (simp_all add: n_def nat_le_iff)
  then have "unat (of_nat n :: 32 word) = n" "unat (of_nat (Suc n) :: 32 word) = Suc n"
    by (simp_all only: unat_of_nat) simp_all
  then have u: "real (unat (to_u32 (r * 2 ^ s))) = of_int ?f"
    "real (unat (to_u32 (r * 2 ^ s) + 1)) = of_int ?f + 1"
    by (simp_all add: to_u32_def n(1) add.commute)
  show "real (unat (to_u32 (r * 2 ^ s))) / 2 ^ s \<le> r" unfolding u by (simp add: field_simps)
  show "r < real (unat (to_u32 (r * 2 ^ s) + 1)) / 2 ^ s"
    unfolding u using real_of_int_floor_add_one_gt [of "r * 2 ^ s"] by (simp add: field_simps)
qed

text \<open>A range that is not empty, and the cell of a point of it.\<close>

lemma cell_contains:
  assumes "lo < hi" "lo \<le> x" "x \<le> hi" "s \<le> 31"
  shows "lo + real (unat (to_u32 ((x - lo) / (hi - lo) * 2 ^ s))) / 2 ^ s * (hi - lo) \<le> x"
    "x < lo + real (unat (to_u32 ((x - lo) / (hi - lo) * 2 ^ s) + 1)) / 2 ^ s * (hi - lo)"
proof -
  let ?r = "(x - lo) / (hi - lo)"
  have r: "0 \<le> ?r" "?r \<le> 1" and x: "x = lo + ?r * (hi - lo)" using assms by auto
  note c = cell_bounds [OF r assms(4)]
  have "real (unat (to_u32 (?r * 2 ^ s))) / 2 ^ s * (hi - lo) \<le> ?r * (hi - lo)"
    using c(1) assms(1) by (intro mult_right_mono) auto
  then show "lo + real (unat (to_u32 (?r * 2 ^ s))) / 2 ^ s * (hi - lo) \<le> x" using x by linarith
  have "?r * (hi - lo) < real (unat (to_u32 (?r * 2 ^ s) + 1)) / 2 ^ s * (hi - lo)"
    using c(2) assms(1) by (intro mult_strict_right_mono) auto
  then show "x < lo + real (unat (to_u32 (?r * 2 ^ s) + 1)) / 2 ^ s * (hi - lo)" using x by linarith
qed

lemma geoHash_roundtrip:
  assumes "min' (latRange g) < max' (latRange g)" "min' (longRange g) < max' (longRange g)"
    and "geoHashEncode g lon lat s = Some h" "s \<le> 31"
  shows "min' (longitude (geoHashDecode g h)) \<le> lon \<and> lon < max' (longitude (geoHashDecode g h)) \<and>
    min' (latitude (geoHashDecode g h)) \<le> lat \<and> lat < max' (latitude (geoHashDecode g h))"
proof -
  from assms(3) have b: "min' (longRange g) \<le> lon" "lon \<le> max' (longRange g)"
    "min' (latRange g) \<le> lat" "lat \<le> max' (latRange g)"
    and h: "h = \<lparr>bits = interleave64
        (to_u32 ((lat - min' (latRange g)) / (max' (latRange g) - min' (latRange g)) * 2 ^ s))
        (to_u32 ((lon - min' (longRange g)) / (max' (longRange g) - min' (longRange g)) * 2 ^ s)), step = s\<rparr>"
    by (auto simp: geoHashEncode_def Let_def split: if_splits)
  show ?thesis
    using cell_contains [OF assms(2) b(1,2) assms(4)] cell_contains [OF assms(1) b(3,4) assms(4)]
    by (simp add: geoHashDecode_def h decode_interleave Let_def)
qed

lemma calculateDistance_self: "calculateDistance a a = 0"
  by (simp add: calculateDistance_def atan2_pos_def)

lemma calculateDistance_commute: "calculateDistance a b = calculateDistance b a"
proof -
  have "sin ((x - y) * pi / 180 / 2) * sin ((x - y) * pi / 180 / 2) =
      sin ((y - x) * pi / 180 / 2) * sin ((y - x) * pi / 180 / 2)" for x y :: real
  proof -
    have "(y - x) * pi / 180 / 2 = - ((x - y) * pi / 180 / 2)" by (simp add: field_simps)
    then show ?thesis by (simp only: sin_minus minus_mult_minus)
  qed
  then show ?thesis
    unfolding calculateDistance_def Let_def by (simp add: mult.assoc mult.left_commute)
qed


end
