(* ===== verification/CommandParser.thy ===== *)
theory CommandParser
  imports Resp_Parser Command Geohash
begin

text \<open>
  \<open>src/src/parser/command-parser.cpp\<close>: from the read buffer to a command. Every parser takes
  the buffer and the read position and returns the command and the new position;
  \<open>std::stod\<close> is the parameter \<open>stod\<close>, \<open>None\<close> for its exceptions. Argument counts are \<open>int\<close>:
  the count of the array header minus one, converted from \<open>unsigned long\<close>. The theorem:
  for the serialised form of a command whose strings hold no carriage return, the parser
  returns the command and leaves exactly the rest of the buffer.
\<close>

section \<open>Definitions\<close>

text \<open>The loop that collects the bulk strings among the next \<open>n\<close> tokens.\<close>

fun parse_values :: "nat \<Rightarrow> string \<Rightarrow> nat \<Rightarrow> string list \<times> nat" where
  "parse_values 0 buf pos = ([], pos)"
| "parse_values (Suc n) buf pos =
     (let (v, pos) = next_bulk buf pos; (vs, pos) = parse_values n buf pos
      in ((case v of None \<Rightarrow> vs | Some s \<Rightarrow> s # vs), pos))"

text \<open>Sequencing of mandatory bulk strings: anything else makes the command unknown.\<close>

definition with_bulk :: "string \<Rightarrow> nat \<Rightarrow> (string \<Rightarrow> nat \<Rightarrow> Command \<times> nat) \<Rightarrow> Command \<times> nat" where
  "with_bulk buf pos f =
     (case next_bulk buf pos of (None, pos) \<Rightarrow> (UnknowCommand, pos) | (Some s, pos) \<Rightarrow> f s pos)"

text \<open>The text of the next token, whatever its type.\<close>

definition next_text :: "string \<Rightarrow> nat \<Rightarrow> string \<times> nat" where
  "next_text buf pos = (let (t, pos') = Parse buf pos in (token_text buf t, pos'))"

definition parseEchoCommand :: "string \<Rightarrow> nat \<Rightarrow> Command \<times> nat" where
  "parseEchoCommand buf pos = with_bulk buf pos (\<lambda>m pos. (EchoCommand m, pos))"

text \<open>The option loop of \<open>SET\<close>, with \<open>n\<close> arguments left.\<close>

function parse_set_flags ::
  "nat \<Rightarrow> string \<Rightarrow> nat \<Rightarrow> u64 option \<Rightarrow> u64 option \<Rightarrow> u64 option \<times> u64 option \<times> nat" where
  "parse_set_flags n buf pos ex px =
     (if n = 0 then (ex, px, pos)
      else case next_bulk buf pos of
        (None, pos) \<Rightarrow> (ex, px, pos)
      | (Some flag, pos) \<Rightarrow>
          if is_equal flag ''EX'' \<and> 1 < n then
            (case next_bulk buf pos of
               (None, pos) \<Rightarrow> parse_set_flags (n - 2) buf pos ex px
             | (Some s, pos) \<Rightarrow>
                 (let (ok, v) = convert_positive_string_to_number s
                  in parse_set_flags (n - 2) buf pos (if ok then Some v else ex) px))
          else if is_equal flag ''PX'' \<and> 1 < n then
            (case next_bulk buf pos of
               (None, pos) \<Rightarrow> parse_set_flags (n - 2) buf pos ex px
             | (Some s, pos) \<Rightarrow>
                 (let (ok, v) = convert_positive_string_to_number s
                  in parse_set_flags (n - 2) buf pos ex (if ok then Some v else px)))
          else parse_set_flags (n - 1) buf pos ex px)"
  by pat_completeness auto
termination
  by (relation "measure (\<lambda>(n, buf, pos, ex, px). n)") auto

declare parse_set_flags.simps [simp del]

definition parseSetCommand :: "string \<Rightarrow> nat \<Rightarrow> int \<Rightarrow> Command \<times> nat" where
  "parseSetCommand buf pos total_commands =
     with_bulk buf pos (\<lambda>k pos. with_bulk buf pos (\<lambda>v pos.
       let (ex, px, pos) = parse_set_flags (nat (total_commands - 2)) buf pos None None
       in (SetCommand k v ex px, pos)))"

definition parseGetCommand :: "string \<Rightarrow> nat \<Rightarrow> Command \<times> nat" where
  "parseGetCommand buf pos = with_bulk buf pos (\<lambda>k pos. (GetCommand k, pos))"

definition parseTypeCommand :: "string \<Rightarrow> nat \<Rightarrow> Command \<times> nat" where
  "parseTypeCommand buf pos = with_bulk buf pos (\<lambda>k pos. (TypeCommand k, pos))"

definition parseIncrCommand :: "string \<Rightarrow> nat \<Rightarrow> Command \<times> nat" where
  "parseIncrCommand buf pos = with_bulk buf pos (\<lambda>k pos. (IncrCommand k, pos))"

definition parseRpushCommand :: "string \<Rightarrow> nat \<Rightarrow> int \<Rightarrow> Command \<times> nat" where
  "parseRpushCommand buf pos total_commands =
     with_bulk buf pos (\<lambda>k pos.
       let (vs, pos) = parse_values (nat (total_commands - 1)) buf pos in (RpushCommand k vs, pos))"

definition parseLpushCommand :: "string \<Rightarrow> nat \<Rightarrow> int \<Rightarrow> Command \<times> nat" where
  "parseLpushCommand buf pos total_commands =
     with_bulk buf pos (\<lambda>k pos.
       let (vs, pos) = parse_values (nat (total_commands - 1)) buf pos in (LpushCommand k vs, pos))"

definition parseLrangeCommand :: "string \<Rightarrow> nat \<Rightarrow> Command \<times> nat" where
  "parseLrangeCommand buf pos =
     with_bulk buf pos (\<lambda>k pos. with_bulk buf pos (\<lambda>start pos. with_bulk buf pos (\<lambda>stop pos.
       (case (convert_string_to_number start, convert_string_to_number stop) of
          (Some a, Some b) \<Rightarrow> LrangeCommand k a b
        | _ \<Rightarrow> UnknowCommand, pos))))"

definition parseLlenCommand :: "string \<Rightarrow> nat \<Rightarrow> Command \<times> nat" where
  "parseLlenCommand buf pos = with_bulk buf pos (\<lambda>k pos. (LlenCommand k, pos))"

definition parseLpopCommand :: "string \<Rightarrow> nat \<Rightarrow> int \<Rightarrow> Command \<times> nat" where
  "parseLpopCommand buf pos total_commands =
     with_bulk buf pos (\<lambda>k pos.
       if 0 < total_commands - 1 then
         (case next_bulk buf pos of
            (None, pos) \<Rightarrow> (LpopCommand k None, pos)
          | (Some s, pos) \<Rightarrow>
              (let (ok, v) = convert_positive_string_to_number s
               in (LpopCommand k (if ok then Some (unat v mod 4294967296) else None), pos)))
       else (LpopCommand k None, pos))"

text \<open>\<open>stod\<close> with \<open>0.0\<close> in place of an exception.\<close>

definition stod_or_0 :: "(string \<Rightarrow> real option) \<Rightarrow> string \<Rightarrow> real" where
  "stod_or_0 stod s = (case stod s of None \<Rightarrow> 0 | Some r \<Rightarrow> r)"

definition parseBlpopCommand :: "(string \<Rightarrow> real option) \<Rightarrow> string \<Rightarrow> nat \<Rightarrow> int \<Rightarrow> Command \<times> nat" where
  "parseBlpopCommand stod buf pos total_commands =
     (let (ks, pos) = parse_values (nat (total_commands - 1)) buf pos
      in if 0 < min total_commands 1 then
           (case next_bulk buf pos of
              (None, pos) \<Rightarrow> (BlpopCommand ks 0, pos)
            | (Some s, pos) \<Rightarrow> (BlpopCommand ks (stod_or_0 stod s), pos))
         else (BlpopCommand ks 0, pos))"

text \<open>The loop over \<open>n\<close> pairs of tokens: a pair of bulk strings is kept.\<close>

fun parse_pairs :: "nat \<Rightarrow> string \<Rightarrow> nat \<Rightarrow> (string \<times> string) list \<times> nat" where
  "parse_pairs 0 buf pos = ([], pos)"
| "parse_pairs (Suc n) buf pos =
     (let (f, pos) = next_bulk buf pos; (v, pos) = next_bulk buf pos;
          (ps, pos) = parse_pairs n buf pos
      in ((case (f, v) of (Some a, Some b) \<Rightarrow> (a, b) # ps | _ \<Rightarrow> ps), pos))"

definition parseXaddCommand :: "string \<Rightarrow> nat \<Rightarrow> int \<Rightarrow> Command \<times> nat" where
  "parseXaddCommand buf pos total_commands =
     with_bulk buf pos (\<lambda>k pos. with_bulk buf pos (\<lambda>i pos.
       let (fvs, pos) = parse_pairs (nat (total_commands - 2) div 2) buf pos
       in (XaddCommand k i fvs, pos)))"

definition parseXrangeCommand :: "string \<Rightarrow> nat \<Rightarrow> Command \<times> nat" where
  "parseXrangeCommand buf pos =
     with_bulk buf pos (\<lambda>k pos. with_bulk buf pos (\<lambda>start pos. with_bulk buf pos (\<lambda>stop pos.
       (XrangeCommand k start stop, pos))))"

text \<open>The keys and the identifiers of \<open>XREAD\<close>; \<open>%\<close> and \<open>/\<close> round towards zero.\<close>

definition parse_xread_streams :: "real option \<Rightarrow> string \<Rightarrow> nat \<Rightarrow> int \<Rightarrow> Command \<times> nat" where
  "parse_xread_streams block buf pos total_commands =
     (if total_commands mod 2 \<noteq> 0 then (UnknowCommand, pos)
      else
        let n = nat (total_commands div 2);
            (ks, pos) = parse_values n buf pos;
            (ids, pos) = parse_values n buf pos
        in (XreadCommand block ks ids, pos))"

definition parseXreadCommand :: "(string \<Rightarrow> real option) \<Rightarrow> string \<Rightarrow> nat \<Rightarrow> int \<Rightarrow> Command \<times> nat" where
  "parseXreadCommand stod buf pos total_commands =
     with_bulk buf pos (\<lambda>first pos.
       if is_equal first ''BLOCK'' then
         (let (t, pos) = next_bulk buf pos;
              block = map_option (stod_or_0 stod) t;
              (_, pos) = Parse buf pos
          in parse_xread_streams block buf pos (total_commands - 3))
       else if is_equal first ''STREAMS''
       then parse_xread_streams None buf pos (total_commands - 1)
       else (UnknowCommand, pos))"

definition parseInfoCommand :: "string \<Rightarrow> nat \<Rightarrow> Command \<times> nat" where
  "parseInfoCommand buf pos =
     with_bulk buf pos (\<lambda>section pos. (InfoCommand (is_equal section ''replication''), pos))"

text \<open>
  \<open>cmd->listening_port = portInNumber\<close> assigns a number to a \<open>std::string\<close>: the string of
  the one character with that code.
\<close>

definition parseReplConfCommand :: "string \<Rightarrow> nat \<Rightarrow> Command \<times> nat" where
  "parseReplConfCommand buf pos =
     with_bulk buf pos (\<lambda>confType pos.
       if is_equal confType ''listening-port'' then
         (let (port, pos) = next_text buf pos;
              (ok, n) = convert_positive_string_to_number port
          in (ReplConfCommand LISTENING_PORT (if ok then [char_of (unat n)] else []) [] 0, pos))
       else if is_equal confType ''capa'' then
         (let (capa, pos) = next_text buf pos in (ReplConfCommand CAPA [] capa 0, pos))
       else if is_equal confType ''GETACK'' then
         (ReplConfCommand GETACK [] [] 0, snd (Parse buf pos))
       else if is_equal confType ''ACK'' then
         (let (off, pos) = next_text buf pos;
              (ok, n) = convert_positive_string_to_number off
          in (ReplConfCommand ACK [] [] (if ok then sint n else 0), pos))
       else (ReplConfCommand LISTENING_PORT [] [] 0, pos))"

definition parsePsyncCommand :: "string \<Rightarrow> nat \<Rightarrow> int \<Rightarrow> Command \<times> nat" where
  "parsePsyncCommand buf pos total_commands =
     with_bulk buf pos (\<lambda>repl_id pos.
       if 1 < total_commands then
         with_bulk buf pos (\<lambda>off pos.
           let (ok, n) = convert_positive_string_to_number off
           in (PsyncCommand repl_id
                 (if off = ''-1'' then - 1 else if ok then sint n else - 1), pos))
       else (PsyncCommand repl_id 0, pos))"

definition parseWaitCommand :: "string \<Rightarrow> nat \<Rightarrow> Command \<times> nat" where
  "parseWaitCommand buf pos =
     with_bulk buf pos (\<lambda>num pos.
       let (timeout, pos) = next_text buf pos
       in (WaitCommand (snd (convert_positive_string_to_number num))
             (snd (convert_positive_string_to_number timeout)), pos))"

fun parse_all :: "nat \<Rightarrow> string \<Rightarrow> nat \<Rightarrow> string list option \<times> nat" where
  "parse_all 0 buf pos = (Some [], pos)"
| "parse_all (Suc n) buf pos =
     (case next_bulk buf pos of
        (None, pos) \<Rightarrow> (None, pos)
      | (Some s, pos) \<Rightarrow> (let (r, pos) = parse_all n buf pos in (map_option ((#) s) r, pos)))"

definition parseGetConfigCommand :: "string \<Rightarrow> nat \<Rightarrow> int \<Rightarrow> Command \<times> nat" where
  "parseGetConfigCommand buf pos total_commands =
     with_bulk buf pos (\<lambda>commandType pos.
       if \<not> is_equal commandType ''GET'' then (UnknowCommand, pos)
       else case parse_all (nat (total_commands - 1)) buf pos of
           (None, pos) \<Rightarrow> (UnknowCommand, pos)
         | (Some ps, pos) \<Rightarrow> (GetConfigCommand ps, pos))"

definition parseKeysCommand :: "string \<Rightarrow> nat \<Rightarrow> Command \<times> nat" where
  "parseKeysCommand buf pos = with_bulk buf pos (\<lambda>p pos. (KeysCommand p, pos))"

definition parseSubScribeCommand :: "string \<Rightarrow> nat \<Rightarrow> Command \<times> nat" where
  "parseSubScribeCommand buf pos = with_bulk buf pos (\<lambda>ch pos. (SubscribeCommand ch, pos))"

definition parsePublishCommand :: "string \<Rightarrow> nat \<Rightarrow> Command \<times> nat" where
  "parsePublishCommand buf pos =
     with_bulk buf pos (\<lambda>ch pos. with_bulk buf pos (\<lambda>m pos. (PublishCommand ch m, pos)))"

definition parseUnsubscribeCommand :: "string \<Rightarrow> nat \<Rightarrow> Command \<times> nat" where
  "parseUnsubscribeCommand buf pos = with_bulk buf pos (\<lambda>ch pos. (UnSubscribeCommand ch, pos))"

fun parse_scores :: "(string \<Rightarrow> real option) \<Rightarrow> nat \<Rightarrow> string \<Rightarrow> nat \<Rightarrow> (real \<times> string) list \<times> nat" where
  "parse_scores stod 0 buf pos = ([], pos)"
| "parse_scores stod (Suc n) buf pos =
     (let (s, pos) = next_bulk buf pos; (m, pos) = next_bulk buf pos
      in case (s, m) of
           (Some a, Some b) \<Rightarrow>
             (let (sms, pos) = parse_scores stod n buf pos in ((stod_or_0 stod a, b) # sms, pos))
         | _ \<Rightarrow> ([], pos))"

definition parseZaddCommand :: "(string \<Rightarrow> real option) \<Rightarrow> string \<Rightarrow> nat \<Rightarrow> int \<Rightarrow> Command \<times> nat" where
  "parseZaddCommand stod buf pos total_commands =
     with_bulk buf pos (\<lambda>k pos.
       let (sms, pos) = parse_scores stod (nat (total_commands - 1) div 2) buf pos
       in (ZaddCommand k sms, pos))"

definition parseZrankCommand :: "string \<Rightarrow> nat \<Rightarrow> Command \<times> nat" where
  "parseZrankCommand buf pos =
     with_bulk buf pos (\<lambda>k pos. with_bulk buf pos (\<lambda>m pos. (ZrankCommand k m, pos)))"

definition parseZrangeCommand :: "string \<Rightarrow> nat \<Rightarrow> Command \<times> nat" where
  "parseZrangeCommand buf pos =
     with_bulk buf pos (\<lambda>k pos. with_bulk buf pos (\<lambda>start pos. with_bulk buf pos (\<lambda>stop pos.
       (case (convert_string_to_number start, convert_string_to_number stop) of
          (Some a, Some b) \<Rightarrow> ZrangeCommand k a b
        | _ \<Rightarrow> UnknowCommand, pos))))"

definition parseZcardCommand :: "string \<Rightarrow> nat \<Rightarrow> Command \<times> nat" where
  "parseZcardCommand buf pos = with_bulk buf pos (\<lambda>k pos. (ZcardCommand k, pos))"

definition parseZscoreCommand :: "string \<Rightarrow> nat \<Rightarrow> Command \<times> nat" where
  "parseZscoreCommand buf pos =
     with_bulk buf pos (\<lambda>k pos. with_bulk buf pos (\<lambda>m pos. (ZscoreCommand k m, pos)))"

definition parseZremCommand :: "string \<Rightarrow> nat \<Rightarrow> int \<Rightarrow> Command \<times> nat" where
  "parseZremCommand buf pos total_commands =
     with_bulk buf pos (\<lambda>k pos.
       let (ms, pos) = parse_values (nat (total_commands - 1)) buf pos in (ZremCommand k ms, pos))"

definition geoadd_GeoHash :: GeoHash where
  "geoadd_GeoHash =
     \<lparr>latRange = \<lparr>min' = - 85.05112878, max' = 85.05112878\<rparr>,
      longRange = \<lparr>min' = - 180, max' = 180\<rparr>\<rparr>"

text \<open>One triple of \<open>GEOADD\<close>: the last one that is read determines the command.\<close>

definition geoadd_triple :: "(string \<Rightarrow> real option) \<Rightarrow> Command \<Rightarrow> string \<Rightarrow> string \<Rightarrow> string \<Rightarrow> Command" where
  "geoadd_triple stod cmd lon_str lat_str mem' =
     (case cmd of
        GeoAddCommand key lon lat score mem invalid \<Rightarrow>
          let lon = (case stod lon_str of Some r \<Rightarrow> r | None \<Rightarrow> lon);
              lat = (case stod lat_str of Some r \<Rightarrow> r | None \<Rightarrow> lat);
              invalid = (invalid \<or> stod lon_str = None \<or> stod lat_str = None \<or>
                lon < - 180 \<or> 180 < lon \<or> lat < - 85.05112878 \<or> 85.05112878 < lat);
              score = (if invalid then score
                       else case geoHashEncode geoadd_GeoHash lon lat 26 of
                           Some h \<Rightarrow> real (unat (bits h)) | None \<Rightarrow> 0)
          in GeoAddCommand key lon lat score mem' invalid
      | c \<Rightarrow> c)"

fun parse_geoadd :: "(string \<Rightarrow> real option) \<Rightarrow> nat \<Rightarrow> string \<Rightarrow> nat \<Rightarrow> Command \<Rightarrow> Command \<times> nat" where
  "parse_geoadd stod 0 buf pos cmd = (cmd, pos)"
| "parse_geoadd stod (Suc n) buf pos cmd =
     (let (lon, pos) = next_bulk buf pos; (lat, pos) = next_bulk buf pos;
          (m, pos) = next_bulk buf pos
      in case (lon, lat, m) of
           (Some a, Some b, Some c) \<Rightarrow> parse_geoadd stod n buf pos (geoadd_triple stod cmd a b c)
         | _ \<Rightarrow> (cmd, pos))"

definition parseGeoAddCommand :: "(string \<Rightarrow> real option) \<Rightarrow> string \<Rightarrow> nat \<Rightarrow> int \<Rightarrow> Command \<times> nat" where
  "parseGeoAddCommand stod buf pos total_commands =
     with_bulk buf pos (\<lambda>k pos.
       parse_geoadd stod (nat (total_commands - 1) div 3) buf pos (GeoAddCommand k 0 0 0 [] False))"

definition parseGeoPosCommand :: "string \<Rightarrow> nat \<Rightarrow> int \<Rightarrow> Command \<times> nat" where
  "parseGeoPosCommand buf pos total_commands =
     with_bulk buf pos (\<lambda>k pos.
       let (ms, pos) = parse_values (nat (total_commands - 1)) buf pos in (GeoPosCommand k ms, pos))"

definition parseGeoDistCommand :: "string \<Rightarrow> nat \<Rightarrow> Command \<times> nat" where
  "parseGeoDistCommand buf pos =
     with_bulk buf pos (\<lambda>k pos. with_bulk buf pos (\<lambda>m1 pos. with_bulk buf pos (\<lambda>m2 pos.
       (GeoDistCommand k m1 m2, pos))))"

definition parseGeoSearchCommand :: "(string \<Rightarrow> real option) \<Rightarrow> string \<Rightarrow> nat \<Rightarrow> Command \<times> nat" where
  "parseGeoSearchCommand stod buf pos =
     with_bulk buf pos (\<lambda>k pos. with_bulk buf pos (\<lambda>_ pos. with_bulk buf pos (\<lambda>lon pos.
     with_bulk buf pos (\<lambda>lat pos. with_bulk buf pos (\<lambda>_ pos. with_bulk buf pos (\<lambda>radius pos.
       (case (stod lon, stod lat, stod radius) of
          (Some a, Some b, Some r) \<Rightarrow> GeoSearchCommand k a b r
        | _ \<Rightarrow> UnknowCommand, snd (Parse buf pos))))))))"

text \<open>The rules of \<open>ACL SETUSER\<close>: \<open>arg[0]\<close> of an empty argument is the terminating NUL.\<close>

fun parse_acl_rules :: "nat \<Rightarrow> string \<Rightarrow> nat \<Rightarrow> string option \<Rightarrow> string list \<Rightarrow> string option \<times> string list \<times> nat" where
  "parse_acl_rules 0 buf pos pw fs = (pw, fs, pos)"
| "parse_acl_rules (Suc n) buf pos pw fs =
     (case next_bulk buf pos of
        (None, pos) \<Rightarrow> (pw, fs, pos)
      | (Some arg, pos) \<Rightarrow>
          if arg \<noteq> [] \<and> (hd arg = CHR ''>'' \<or> hd arg = CHR ''+'' \<or> hd arg = CHR ''~'')
          then parse_acl_rules n buf pos (Some (tl arg)) fs
          else parse_acl_rules n buf pos pw (fs @ [arg]))"

definition parseACLCommand :: "string \<Rightarrow> nat \<Rightarrow> int \<Rightarrow> Command \<times> nat" where
  "parseACLCommand buf pos total_commands =
     (if total_commands < 1 then (UnknowCommand, pos)
      else with_bulk buf pos (\<lambda>cmd_name pos.
        if is_equal cmd_name ''WHOAMI'' then (ACLWhoamiCommand, pos)
        else if is_equal cmd_name ''GETUSER'' then
          (if 1 < total_commands - 1 then (UnknowCommand, pos)
           else if total_commands - 1 = 1
           then with_bulk buf pos (\<lambda>u pos. (ACLGetUserCommand u, pos))
           else (ACLGetUserCommand [], pos))
        else if is_equal cmd_name ''SETUSER'' then
          (if total_commands - 1 < 1 then (UnknowCommand, pos)
           else with_bulk buf pos (\<lambda>u pos.
             let (pw, fs, pos) = parse_acl_rules (nat (total_commands - 2)) buf pos None []
             in (ACLSetUserCommand u pw fs, pos)))
        else (UnknowCommand, pos)))"

definition parseAuthCommand :: "string \<Rightarrow> nat \<Rightarrow> Command \<times> nat" where
  "parseAuthCommand buf pos =
     with_bulk buf pos (\<lambda>u pos. with_bulk buf pos (\<lambda>p pos. (AuthCommand u p, pos)))"

text \<open>The chain of comparisons on the command name; \<open>None\<close> is its last branch.\<close>

definition parse_named ::
  "(string \<Rightarrow> real option) \<Rightarrow> string \<Rightarrow> string \<Rightarrow> nat \<Rightarrow> int \<Rightarrow> (Command \<times> nat) option" where
  "parse_named stod cmd_name buf pos n =
     (if is_equal cmd_name ''PING'' then Some (PingCommand, pos)
      else if is_equal cmd_name ''ECHO'' then Some (parseEchoCommand buf pos)
      else if is_equal cmd_name ''SET'' then Some (parseSetCommand buf pos n)
      else if is_equal cmd_name ''GET'' then Some (parseGetCommand buf pos)
      else if is_equal cmd_name ''TYPE'' then Some (parseTypeCommand buf pos)
      else if is_equal cmd_name ''INCR'' then Some (parseIncrCommand buf pos)
      else if is_equal cmd_name ''RPUSH'' then Some (parseRpushCommand buf pos n)
      else if is_equal cmd_name ''LPUSH'' then Some (parseLpushCommand buf pos n)
      else if is_equal cmd_name ''LRANGE'' then Some (parseLrangeCommand buf pos)
      else if is_equal cmd_name ''LLEN'' then Some (parseLlenCommand buf pos)
      else if is_equal cmd_name ''LPOP'' then Some (parseLpopCommand buf pos n)
      else if is_equal cmd_name ''BLPOP'' then Some (parseBlpopCommand stod buf pos n)
      else if is_equal cmd_name ''XADD'' then Some (parseXaddCommand buf pos n)
      else if is_equal cmd_name ''XRANGE'' then Some (parseXrangeCommand buf pos)
      else if is_equal cmd_name ''XREAD'' then Some (parseXreadCommand stod buf pos n)
      else if is_equal cmd_name ''MULTI'' then Some (MultiCommand, pos)
      else if is_equal cmd_name ''EXEC'' then Some (ExecCommand, pos)
      else if is_equal cmd_name ''DISCARD'' then Some (DiscardCommand, pos)
      else if is_equal cmd_name ''INFO'' then Some (parseInfoCommand buf pos)
      else if is_equal cmd_name ''REPLCONF'' then Some (parseReplConfCommand buf pos)
      else if is_equal cmd_name ''PSYNC'' then Some (parsePsyncCommand buf pos n)
      else if is_equal cmd_name ''WAIT'' then Some (parseWaitCommand buf pos)
      else if is_equal cmd_name ''CONFIG'' then Some (parseGetConfigCommand buf pos n)
      else if is_equal cmd_name ''KEYS'' then Some (parseKeysCommand buf pos)
      else if is_equal cmd_name ''SUBSCRIBE'' then Some (parseSubScribeCommand buf pos)
      else if is_equal cmd_name ''PUBLISH'' then Some (parsePublishCommand buf pos)
      else if is_equal cmd_name ''UNSUBSCRIBE'' then Some (parseUnsubscribeCommand buf pos)
      else if is_equal cmd_name ''ZADD'' then Some (parseZaddCommand stod buf pos n)
      else if is_equal cmd_name ''ZRANK'' then Some (parseZrankCommand buf pos)
      else if is_equal cmd_name ''ZRANGE'' then Some (parseZrangeCommand buf pos)
      else if is_equal cmd_name ''ZCARD'' then Some (parseZcardCommand buf pos)
      else if is_equal cmd_name ''ZSCORE'' then Some (parseZscoreCommand buf pos)
      else if is_equal cmd_name ''ZREM'' then Some (parseZremCommand buf pos n)
      else if is_equal cmd_name ''GEOADD'' then Some (parseGeoAddCommand stod buf pos n)
      else if is_equal cmd_name ''GEOPOS'' then Some (parseGeoPosCommand buf pos n)
      else if is_equal cmd_name ''GEODIST'' then Some (parseGeoDistCommand buf pos)
      else if is_equal cmd_name ''GEOSEARCH'' then Some (parseGeoSearchCommand stod buf pos)
      else if is_equal cmd_name ''ACL'' then Some (parseACLCommand buf pos n)
      else if is_equal cmd_name ''AUTH'' then Some (parseAuthCommand buf pos)
      else None)"

text \<open>
  \<open>parseCommand\<close>: the command with \<open>bytes_processed\<close>, the read buffer and the read position
  after the call. \<open>None\<close> as the byte count is the early return for an unknown token, which
  leaves \<open>command_bytes\<close>, the buffer and the moved position as they are.
\<close>

record parse_result =
  command :: Command
  bytes :: "nat option"
  buffer :: string
  position :: nat

lemma Parse_bulk_shrinks:
  assumes "Parse buf pos = (t, pos')" "ttype t = BULK_STRING"
  shows "length (drop (end_pos t + 1) buf) < length buf"
  using assms by (auto simp: Parse_def Let_def split: if_splits prod.splits bool.splits)

function parseCommand :: "(string \<Rightarrow> real option) \<Rightarrow> string \<Rightarrow> nat \<Rightarrow> parse_result" where
  "parseCommand stod buf pos =
     (let (t, pos1) = Parse buf pos in
      if ttype t = UNKNOWN_TOKEN then
        \<lparr>command = UnknowCommand, bytes = None, buffer = buf, position = pos1\<rparr>
      else if ttype t = BULK_STRING then parseCommand stod (drop (end_pos t + 1) buf) 0
      else
        let (name, pos2) = Parse buf pos1;
            n = to_int32 (uint (tlength t - 1))
        in case parse_named stod (token_text buf name) buf pos2 n of
             None \<Rightarrow> \<lparr>command = UnknowCommand, bytes = Some (pos2 - pos), buffer = [], position = 0\<rparr>
           | Some (cmd, pos3) \<Rightarrow>
               \<lparr>command = cmd, bytes = Some (pos3 - pos), buffer = drop (pos3 - pos) buf, position = 0\<rparr>)"
  by pat_completeness auto
termination
  by (relation "measure (\<lambda>(stod, buf, pos). length buf)") (auto dest!: Parse_bulk_shrinks [OF sym])

declare parseCommand.simps [simp del]

section \<open>Parsing what was serialised\<close>

text \<open>
  The contract of a parser: it turns the bytes \<open>args\<close>, wherever they stand in the buffer,
  into \<open>c\<close> and moves the position exactly behind them. Parsers compose as the bytes do.
\<close>

definition parses :: "(string \<Rightarrow> nat \<Rightarrow> 'c \<times> nat) \<Rightarrow> string \<Rightarrow> 'c \<Rightarrow> bool" where
  "parses f args c \<longleftrightarrow>
     (\<forall>pre rest. f (pre @ args @ rest) (length pre) = (c, length pre + length args))"

lemma parsesD: "parses f args c \<Longrightarrow> f (pre @ args @ rest) (length pre) = (c, length pre + length args)"
  by (simp add: parses_def)

lemma parses_return [intro]: "parses (\<lambda>buf pos. (c, pos)) [] c"
  by (simp add: parses_def)

lemma parses_next_bulk: "CR \<notin> set s \<Longrightarrow> parses next_bulk (bulk s) (Some s)"
  by (simp add: parses_def)

lemma parses_next_text: "CR \<notin> set s \<Longrightarrow> parses next_text (bulk s) s"
proof -
  assume s: "CR \<notin> set s"
  have "next_text buf pos = (x, q)" if "next_bulk buf pos = (Some x, q)" for buf pos x q
    using that by (auto simp: next_bulk_def next_text_def split: prod.splits if_splits)
  with s show ?thesis by (simp add: parses_def)
qed

lemma parses_bind:
  assumes "parses p a x" and "parses (g x) b c"
  shows "parses (\<lambda>buf pos. case p buf pos of (x, pos) \<Rightarrow> g x buf pos) (a @ b) c"
  unfolding parses_def
proof (intro allI)
  fix pre rest
  have "g x ((pre @ a) @ b @ rest) (length (pre @ a)) = (c, length (pre @ a) + length b)"
    using assms(2) by (rule parsesD)
  then show "(case p (pre @ (a @ b) @ rest) (length pre) of (x, pos) \<Rightarrow> g x (pre @ (a @ b) @ rest) pos)
      = (c, length pre + length (a @ b))"
    using parsesD [OF assms(1), of pre "b @ rest"] by (simp add: add.assoc)
qed

lemmas parses_bind_bulk = parses_bind [OF parses_next_bulk]
lemmas parses_bind_text = parses_bind [OF parses_next_text]

lemma parses_map:
  assumes "parses p a x" and "c = h x"
  shows "parses (\<lambda>buf pos. case p buf pos of (x, pos) \<Rightarrow> (h x, pos)) a c"
  using assms by (simp add: parses_def)

lemma parses_with_bulk:
  assumes "CR \<notin> set s" and "parses (g s) args c"
  shows "parses (\<lambda>buf pos. with_bulk buf pos (\<lambda>s pos. g s buf pos)) (bulk s @ args) c"
  using parses_bind [where g = "\<lambda>v buf pos. case v of None \<Rightarrow> (UnknowCommand, pos) | Some s \<Rightarrow> g s buf pos",
    OF parses_next_bulk [OF assms(1)]] assms(2)
  by (simp add: parses_def with_bulk_def split_def split: option.split cong: option.case_cong)

lemma parses_with_last:
  assumes "CR \<notin> set s" and "c = g s"
  shows "parses (\<lambda>buf pos. with_bulk buf pos (\<lambda>s pos. (g s, pos))) (bulk s) c"
  using parses_with_bulk [OF assms(1), of "\<lambda>s buf pos. (g s, pos)" "[]" c] assms(2)
  by (auto simp: parses_return)

lemma parses_values:
  "list_all (\<lambda>s. CR \<notin> set s) ss \<Longrightarrow> n = length ss \<Longrightarrow> parses (parse_values n) (bulks ss) ss"
proof (induction ss arbitrary: n)
  case Nil
  then show ?case by (simp add: parses_def)
next
  case (Cons s ss)
  have "parses (\<lambda>buf pos. case next_bulk buf pos of (v, pos) \<Rightarrow> case parse_values (length ss) buf pos of
      (vs, pos) \<Rightarrow> ((case v of None \<Rightarrow> vs | Some s \<Rightarrow> s # vs), pos)) (bulk s @ bulks ss) (s # ss)"
    using Cons by (intro parses_bind_bulk parses_map [where x = ss]) auto
  with Cons.prems show ?case by (simp add: parses_def Let_def)
qed

lemma parses_pairs:
  "list_all (\<lambda>(f, v). CR \<notin> set f \<and> CR \<notin> set v) ps \<Longrightarrow> n = length ps \<Longrightarrow>
   parses (parse_pairs n) (concat (map (\<lambda>(f, v). bulk f @ bulk v) ps)) ps"
proof (induction ps arbitrary: n)
  case Nil
  then show ?case by (simp add: parses_def)
next
  case (Cons p ps)
  obtain f v where p: "p = (f, v)" by force
  have "parses (\<lambda>buf pos. case next_bulk buf pos of (f, pos) \<Rightarrow> case next_bulk buf pos of (v, pos) \<Rightarrow>
      case parse_pairs (length ps) buf pos of
      (ps, pos) \<Rightarrow> ((case (f, v) of (Some a, Some b) \<Rightarrow> (a, b) # ps | _ \<Rightarrow> ps), pos))
      (bulk f @ bulk v @ concat (map (\<lambda>(f, v). bulk f @ bulk v) ps)) ((f, v) # ps)"
    using Cons p by (intro parses_bind_bulk parses_map [where x = ps]) auto
  with Cons.prems p show ?case by (simp add: parses_def Let_def)
qed

lemma parses_scores:
  "list_all (\<lambda>(r, m). CR \<notin> set (dtos r) \<and> stod (dtos r) = Some r \<and> CR \<notin> set m) sms \<Longrightarrow> n = length sms \<Longrightarrow>
   parses (parse_scores stod n) (concat (map (\<lambda>(r, m). bulk (dtos r) @ bulk m) sms)) sms"
proof (induction sms arbitrary: n)
  case Nil
  then show ?case by (simp add: parses_def)
next
  case (Cons p sms)
  obtain r m where p: "p = (r, m)" by force
  have "parses (\<lambda>buf pos. case next_bulk buf pos of (s, pos) \<Rightarrow> case next_bulk buf pos of (m, pos) \<Rightarrow>
      (case (s, m) of
           (Some a, Some b) \<Rightarrow>
             (case parse_scores stod (length sms) buf pos of (sms, pos) \<Rightarrow> ((stod_or_0 stod a, b) # sms, pos))
         | _ \<Rightarrow> ([], pos)))
      (bulk (dtos r) @ bulk m @ concat (map (\<lambda>(r, m). bulk (dtos r) @ bulk m) sms)) ((r, m) # sms)"
    using Cons p by (intro parses_bind_bulk) (auto simp: stod_or_0_def intro!: parses_map [where x = sms])
  moreover have "n = Suc (length sms)" using Cons.prems by simp
  ultimately show ?case unfolding p parses_def
    by (simp only: parse_scores.simps Let_def list.map concat.simps prod.case append_assoc simp_thms)
qed

text \<open>The commands that can be told from their serialised form, and the count of its elements.\<close>

abbreviation no_CR :: "string \<Rightarrow> bool" where "no_CR s \<equiv> CR \<notin> set s"

definition wire_ok :: "(string \<Rightarrow> real option) \<Rightarrow> (real \<Rightarrow> string) \<Rightarrow> Command \<Rightarrow> bool" where
  "wire_ok stod dtos cmd \<longleftrightarrow>
     (case cmd of
        GeoAddCommand key lon lat score mem bad \<Rightarrow>
          no_CR key \<and> no_CR mem \<and> no_CR (dtos lon) \<and> no_CR (dtos lat) \<and>
          stod (dtos lon) = Some lon \<and> stod (dtos lat) = Some lat \<and>
          cmd = geoadd_triple stod (GeoAddCommand key 0 0 0 [] False) (dtos lon) (dtos lat) mem
      | GeoDistCommand key m1 m2 \<Rightarrow> no_CR key \<and> no_CR m1 \<and> no_CR m2
      | ZaddCommand key sms \<Rightarrow>
          no_CR key \<and> length sms < 2 ^ 30 \<and>
          list_all (\<lambda>(r, m). no_CR (dtos r) \<and> stod (dtos r) = Some r \<and> no_CR m) sms
      | PingCommand \<Rightarrow> True
      | EchoCommand m \<Rightarrow> no_CR m
      | ACLWhoamiCommand \<Rightarrow> True
      | SetCommand key v ex px \<Rightarrow> no_CR key \<and> no_CR v
      | GetCommand key \<Rightarrow> no_CR key
      | TypeCommand key \<Rightarrow> no_CR key
      | IncrCommand key \<Rightarrow> no_CR key
      | RpushCommand key vs \<Rightarrow> no_CR key \<and> list_all no_CR vs \<and> length vs < 2 ^ 30
      | LpushCommand key vs \<Rightarrow> no_CR key \<and> list_all no_CR vs \<and> length vs < 2 ^ 30
      | LrangeCommand key start stop \<Rightarrow> no_CR key \<and> int64_range start \<and> int64_range stop
      | LlenCommand key \<Rightarrow> no_CR key
      | LpopCommand key count \<Rightarrow> no_CR key \<and> (case count of None \<Rightarrow> True | Some n \<Rightarrow> n < 2 ^ 32)
      | XaddCommand key sid fvs \<Rightarrow>
          no_CR key \<and> no_CR sid \<and> length fvs < 2 ^ 29 \<and>
          list_all (\<lambda>(f, v). no_CR f \<and> no_CR v) fvs
      | XrangeCommand key start stop \<Rightarrow> no_CR key \<and> no_CR start \<and> no_CR stop
      | XreadCommand block ks ids \<Rightarrow>
          block = None \<and> list_all no_CR ks \<and> list_all no_CR ids \<and>
          length ids = length ks \<and> length ks < 2 ^ 29
      | MultiCommand \<Rightarrow> True
      | ExecCommand \<Rightarrow> True
      | DiscardCommand \<Rightarrow> True
      | InfoCommand isRepl \<Rightarrow> isRepl
      | ReplConfCommand sub port capa ack \<Rightarrow>
          (sub = ACK \<and> port = [] \<and> capa = [] \<and> 0 \<le> ack \<and> int64_range ack) \<or>
          (sub = GETACK \<and> port = [] \<and> capa = [] \<and> ack = 0) \<or>
          (sub = CAPA \<and> port = [] \<and> capa \<noteq> [] \<and> no_CR capa \<and> ack = 0)
      | PsyncCommand repl_id off \<Rightarrow> no_CR repl_id \<and> - 1 \<le> off \<and> int64_range off
      | WaitCommand _ _ \<Rightarrow> True
      | ZrankCommand key mem \<Rightarrow> no_CR key \<and> no_CR mem
      | ZrangeCommand key start stop \<Rightarrow> no_CR key \<and> int64_range start \<and> int64_range stop
      | ZcardCommand key \<Rightarrow> no_CR key
      | ZscoreCommand key mem \<Rightarrow> no_CR key \<and> no_CR mem
      | ZremCommand key ms \<Rightarrow> no_CR key \<and> list_all no_CR ms \<and> length ms < 2 ^ 30
      | _ \<Rightarrow> False)"

text \<open>From the contract of the parser of one command to the whole of \<open>parseCommand\<close>.\<close>

lemma to_int32_count: "0 < n \<Longrightarrow> n \<le> 2 ^ 31 \<Longrightarrow> to_int32 (uint (of_nat n - 1 :: u64)) = int n - 1"
proof -
  assume "0 < n" and n: "n \<le> 2 ^ 31"
  then obtain m where m: "n = Suc m" by (cases n) auto
  have "(of_nat n - 1 :: u64) = of_nat m" by (simp add: m)
  then show ?thesis using n by (simp add: to_int32_def unsigned_of_nat take_bit_nat_eq_self m)
qed

lemma parseCommand_parses:
  assumes "0 < n" "n \<le> 2 ^ 31" "no_CR name"
    and "\<And>buf pos. parse_named stod name buf pos (int n - 1) = Some (f buf pos)"
    and "parses f args c"
  shows "parseCommand stod ((arr n @ bulk name @ args) @ rest) 0 =
    \<lparr>command = c, bytes = Some (length (arr n @ bulk name @ args)), buffer = rest, position = 0\<rparr>"
proof -
  let ?pre = "arr n @ bulk name"
  let ?buf = "(arr n @ bulk name @ args) @ rest"
  have "Parse ?buf 0 = (token ARRAY 0 0 (of_nat n), length (arr n))"
    using Parse_array [of "[]" n "bulk name @ args @ rest"] by simp
  moreover have "next_text ?buf (length (arr n)) = (name, length ?pre)"
    using parsesD [OF parses_next_text [OF assms(3)], of "arr n" "args @ rest"] by simp
  then obtain t where "Parse ?buf (length (arr n)) = (t, length ?pre)" "token_text ?buf t = name"
    by (auto simp: next_text_def split: prod.splits)
  moreover have "f ?buf (length ?pre) = (c, length ?pre + length args)"
    using parsesD [OF assms(5), of ?pre rest] by simp
  ultimately show ?thesis
    using assms(1,2) by (subst parseCommand.simps) (simp add: Let_def to_int32_count assms(4))
qed

lemma is_equal_Nil [simp]: "is_equal [] t \<longleftrightarrow> t = []" "is_equal s [] \<longleftrightarrow> s = []"
  by (auto simp: is_equal_map_tolower)

lemma is_equal_Cons [simp]: "is_equal (x # s) (y # t) \<longleftrightarrow> tolower x = tolower y \<and> is_equal s t"
  by (simp add: is_equal_map_tolower)

lemma parse_named_keyed [simp]:
  "parse_named stod ''PING'' buf pos n = Some (PingCommand, pos)"
  "parse_named stod ''ECHO'' buf pos n = Some (parseEchoCommand buf pos)"
  "parse_named stod ''SET'' buf pos n = Some (parseSetCommand buf pos n)"
  "parse_named stod ''GET'' buf pos n = Some (parseGetCommand buf pos)"
  "parse_named stod ''TYPE'' buf pos n = Some (parseTypeCommand buf pos)"
  "parse_named stod ''INCR'' buf pos n = Some (parseIncrCommand buf pos)"
  "parse_named stod ''GEOADD'' buf pos n = Some (parseGeoAddCommand stod buf pos n)"
  "parse_named stod ''GEODIST'' buf pos n = Some (parseGeoDistCommand buf pos)"
  "parse_named stod ''ZADD'' buf pos n = Some (parseZaddCommand stod buf pos n)"
  "parse_named stod ''ACL'' buf pos n = Some (parseACLCommand buf pos n)"
  "parse_named stod ''RPUSH'' buf pos n = Some (parseRpushCommand buf pos n)"
  "parse_named stod ''LPUSH'' buf pos n = Some (parseLpushCommand buf pos n)"
  "parse_named stod ''LRANGE'' buf pos n = Some (parseLrangeCommand buf pos)"
  "parse_named stod ''LLEN'' buf pos n = Some (parseLlenCommand buf pos)"
  "parse_named stod ''LPOP'' buf pos n = Some (parseLpopCommand buf pos n)"
  "parse_named stod ''XADD'' buf pos n = Some (parseXaddCommand buf pos n)"
  "parse_named stod ''XRANGE'' buf pos n = Some (parseXrangeCommand buf pos)"
  "parse_named stod ''XREAD'' buf pos n = Some (parseXreadCommand stod buf pos n)"
  "parse_named stod ''INFO'' buf pos n = Some (parseInfoCommand buf pos)"
  "parse_named stod ''REPLCONF'' buf pos n = Some (parseReplConfCommand buf pos)"
  "parse_named stod ''PSYNC'' buf pos n = Some (parsePsyncCommand buf pos n)"
  "parse_named stod ''WAIT'' buf pos n = Some (parseWaitCommand buf pos)"
  "parse_named stod ''ZRANK'' buf pos n = Some (parseZrankCommand buf pos)"
  "parse_named stod ''ZRANGE'' buf pos n = Some (parseZrangeCommand buf pos)"
  "parse_named stod ''ZCARD'' buf pos n = Some (parseZcardCommand buf pos)"
  "parse_named stod ''ZSCORE'' buf pos n = Some (parseZscoreCommand buf pos)"
  "parse_named stod ''ZREM'' buf pos n = Some (parseZremCommand buf pos n)"
  "parse_named stod ''MULTI'' buf pos n = Some (MultiCommand, pos)"
  "parse_named stod ''EXEC'' buf pos n = Some (ExecCommand, pos)"
  "parse_named stod ''DISCARD'' buf pos n = Some (DiscardCommand, pos)"
  by (simp_all add: parse_named_def tolower_def)

lemma no_CR_numbers [simp]: "no_CR (nat_to_string n)" "no_CR (int_to_string v)"
proof -
  show *: "no_CR (nat_to_string n)" for n
    using nat_to_string_digits [of n] by (auto simp: list_all_iff)
  show "no_CR (int_to_string v)" by (simp add: int_to_string_def *)
qed

text \<open>One option with its number consumes two arguments.\<close>

lemma parses_set_flag:
  assumes flag: "\<And>buf pos p q. next_bulk buf pos = (Some flag, p) \<Longrightarrow>
      next_bulk buf p = (Some (nat_to_string (unat v)), q) \<Longrightarrow>
      parse_set_flags (n + 2) buf pos ex px = parse_set_flags n buf q ex' px'"
    and "no_CR flag" and rest: "parses (\<lambda>buf pos. f (parse_set_flags n buf pos ex' px')) args c"
  shows "parses (\<lambda>buf pos. f (parse_set_flags (n + 2) buf pos ex px))
    (bulk flag @ bulk (nat_to_string (unat v)) @ args) c"
  unfolding parses_def
proof (intro allI)
  fix pre rest
  let ?p = "pre @ bulk flag" and ?q = "pre @ bulk flag @ bulk (nat_to_string (unat v))"
  let ?b = "pre @ (bulk flag @ bulk (nat_to_string (unat v)) @ args) @ rest"
  have "next_bulk ?b (length pre) = (Some flag, length ?p)"
    using next_bulk_at [OF assms(2), of pre "bulk (nat_to_string (unat v)) @ args @ rest"] by simp
  moreover have "next_bulk ?b (length ?p) = (Some (nat_to_string (unat v)), length ?q)"
    using next_bulk_at [of "nat_to_string (unat v)" ?p "args @ rest"] by (simp add: add.assoc)
  ultimately have "parse_set_flags (n + 2) ?b (length pre) ex px =
      parse_set_flags n ?b (length ?q) ex' px'" by (rule flag)
  with parsesD [OF rest, of ?q]
  show "f (parse_set_flags (n + 2) ?b (length pre) ex px) =
      (c, length pre + length (bulk flag @ bulk (nat_to_string (unat v)) @ args))"
    by simp
qed

lemma parses_set_flags_EX:
  assumes "parses (\<lambda>buf pos. f (parse_set_flags n buf pos (Some v) px)) args c"
  shows "parses (\<lambda>buf pos. f (parse_set_flags (n + 2) buf pos ex px))
    (bulk ''EX'' @ bulk (nat_to_string (unat v)) @ args) c"
  by (rule parses_set_flag [OF _ _ assms], subst parse_set_flags.simps) (simp_all add: Let_def)

lemma parses_set_flags_PX:
  assumes "parses (\<lambda>buf pos. f (parse_set_flags n buf pos ex (Some v))) args c"
  shows "parses (\<lambda>buf pos. f (parse_set_flags (n + 2) buf pos ex px))
    (bulk ''PX'' @ bulk (nat_to_string (unat v)) @ args) c"
  by (rule parses_set_flag [OF _ _ assms], subst parse_set_flags.simps)
    (simp_all add: Let_def tolower_def)

lemma parses_set_flags_end:
  "parses (\<lambda>buf pos. case parse_set_flags 0 buf pos ex px of (ex, px, pos) \<Rightarrow> (g ex px, pos)) [] (g ex px)"
  by (simp add: parses_def parse_set_flags.simps)

lemma parses_set:
  assumes "no_CR key" "no_CR v"
    and "n = int (2 + (if ex = None then 0 else 2) + (if px = None then 0 else 2))"
  shows "parses (\<lambda>buf pos. parseSetCommand buf pos n)
    (bulk key @ bulk v @
      (case ex of None \<Rightarrow> [] | Some n \<Rightarrow> bulk ''EX'' @ bulk (nat_to_string (unat n))) @
      (case px of None \<Rightarrow> [] | Some n \<Rightarrow> bulk ''PX'' @ bulk (nat_to_string (unat n))))
    (SetCommand key v ex px)"
proof -
  let ?f = "\<lambda>(ex, px, pos). (SetCommand key v ex px, pos)"
  note ending = parses_set_flags_end [where g = "SetCommand key v"]
  have px: "parses (\<lambda>buf pos. ?f (parse_set_flags (if px = None then 0 else 2) buf pos ex None))
      (case px of None \<Rightarrow> [] | Some n \<Rightarrow> bulk ''PX'' @ bulk (nat_to_string (unat n)))
      (SetCommand key v ex px)" for ex
  proof (cases px)
    case (Some p)
    then show ?thesis
      using parses_set_flags_PX [where f = ?f and n = 0, OF ending [of ex "Some p"]]
      by (simp add: numeral_2_eq_2)
  qed (use ending [of ex None] in simp)
  have "parses (\<lambda>buf pos. ?f (parse_set_flags (nat (n - 2)) buf pos None None))
      ((case ex of None \<Rightarrow> [] | Some n \<Rightarrow> bulk ''EX'' @ bulk (nat_to_string (unat n))) @
       (case px of None \<Rightarrow> [] | Some n \<Rightarrow> bulk ''PX'' @ bulk (nat_to_string (unat n))))
      (SetCommand key v ex px)"
  proof (cases ex)
    case None
    then show ?thesis using px [of None] assms(3) by simp
  next
    case (Some e)
    have "nat (n - 2) = (if px = None then 0 else 2) + 2" using assms(3) Some by simp
    then show ?thesis using parses_set_flags_EX [where f = ?f, OF px [of ex, unfolded Some]] Some by simp
  qed
  then show ?thesis unfolding parseSetCommand_def Let_def
    by (intro parses_with_bulk assms(1,2))
qed

text \<open>
  What every command with \<open>wire_ok\<close> enjoys: its serialised form, followed by anything, is
  parsed back to the command, all of it is consumed and nothing behind it is.
\<close>

definition parsed_back :: "(string \<Rightarrow> real option) \<Rightarrow> (real \<Rightarrow> string) \<Rightarrow> Command \<Rightarrow> bool" where
  "parsed_back stod dtos cmd \<longleftrightarrow>
     (\<forall>rest. parseCommand stod (to_resp dtos cmd @ rest) 0 =
        \<lparr>command = cmd, bytes = Some (length (to_resp dtos cmd)), buffer = rest, position = 0\<rparr>)"

lemma parsed_backI:
  assumes "to_resp dtos cmd = arr n @ bulk name @ args" and "0 < n" "n \<le> 2 ^ 31" "no_CR name"
    and "\<And>buf pos. parse_named stod name buf pos (int n - 1) = Some (f buf pos)"
    and "parses f args cmd"
  shows "parsed_back stod dtos cmd"
  unfolding parsed_back_def assms(1) using parseCommand_parses [OF assms(2-6)] by blast

lemma parses_key_values:
  assumes "no_CR key" "list_all no_CR vs" "n = length vs"
  shows "parses (\<lambda>buf pos. with_bulk buf pos (\<lambda>k pos.
      case parse_values n buf pos of (vs, pos) \<Rightarrow> (C k vs, pos))) (bulk key @ bulks vs) (C key vs)"
  using assms by (intro parses_with_bulk parses_map [where x = vs] parses_values) auto

lemmas parsed_backI_key = parsed_backI [where n = 2, OF _ _ _ _ _ parses_with_last]

lemma parsed_back_one_argument:
  "no_CR key \<Longrightarrow> parsed_back stod dtos (EchoCommand key)"
  "no_CR key \<Longrightarrow> parsed_back stod dtos (GetCommand key)"
  "no_CR key \<Longrightarrow> parsed_back stod dtos (TypeCommand key)"
  "no_CR key \<Longrightarrow> parsed_back stod dtos (IncrCommand key)"
  "no_CR key \<Longrightarrow> parsed_back stod dtos (LlenCommand key)"
  "no_CR key \<Longrightarrow> parsed_back stod dtos (ZcardCommand key)"
proof -
  note defs = to_resp_defs parseEchoCommand_def parseGetCommand_def parseTypeCommand_def
    parseIncrCommand_def parseLlenCommand_def parseZcardCommand_def
  assume k: "no_CR key"
  show "parsed_back stod dtos (EchoCommand key)"
    by (rule parsed_backI_key [where name = "''ECHO''" and s = key]) (simp_all add: defs k)
  show "parsed_back stod dtos (GetCommand key)"
    by (rule parsed_backI_key [where name = "''GET''" and s = key]) (simp_all add: defs k)
  show "parsed_back stod dtos (TypeCommand key)"
    by (rule parsed_backI_key [where name = "''TYPE''" and s = key]) (simp_all add: defs k)
  show "parsed_back stod dtos (IncrCommand key)"
    by (rule parsed_backI_key [where name = "''INCR''" and s = key]) (simp_all add: defs k)
  show "parsed_back stod dtos (LlenCommand key)"
    by (rule parsed_backI_key [where name = "''LLEN''" and s = key]) (simp_all add: defs k)
  show "parsed_back stod dtos (ZcardCommand key)"
    by (rule parsed_backI_key [where name = "''ZCARD''" and s = key]) (simp_all add: defs k)
qed

lemmas parsed_backI_none = parsed_backI [where n = 1 and args = "[]", OF _ _ _ _ _ parses_return]

lemma parsed_back_no_argument:
  "parsed_back stod dtos PingCommand" "parsed_back stod dtos MultiCommand"
  "parsed_back stod dtos ExecCommand" "parsed_back stod dtos DiscardCommand"
proof -
  show "parsed_back stod dtos PingCommand"
    by (rule parsed_backI_none [where name = "''PING''"]) (simp_all add: to_resp_defs)
  show "parsed_back stod dtos MultiCommand"
    by (rule parsed_backI_none [where name = "''MULTI''"]) (simp_all add: to_resp_defs)
  show "parsed_back stod dtos ExecCommand"
    by (rule parsed_backI_none [where name = "''EXEC''"]) (simp_all add: to_resp_defs)
  show "parsed_back stod dtos DiscardCommand"
    by (rule parsed_backI_none [where name = "''DISCARD''"]) (simp_all add: to_resp_defs)
qed

lemma parsed_back_values:
  assumes "no_CR key" "list_all no_CR vs" "length vs < 2 ^ 30"
  shows "parsed_back stod dtos (RpushCommand key vs)" "parsed_back stod dtos (LpushCommand key vs)"
    "parsed_back stod dtos (ZremCommand key vs)"
proof -
  note defs = to_resp_defs parseRpushCommand_def parseLpushCommand_def parseZremCommand_def
  show "parsed_back stod dtos (RpushCommand key vs)"
    by (rule parsed_backI [where n = "2 + length vs" and name = "''RPUSH''",
      OF _ _ _ _ _ parses_key_values [where C = RpushCommand, OF assms(1,2) refl]]) (use assms(3) in \<open>simp_all add: defs\<close>)
  show "parsed_back stod dtos (LpushCommand key vs)"
    by (rule parsed_backI [where n = "2 + length vs" and name = "''LPUSH''",
      OF _ _ _ _ _ parses_key_values [where C = LpushCommand, OF assms(1,2) refl]]) (use assms(3) in \<open>simp_all add: defs\<close>)
  show "parsed_back stod dtos (ZremCommand key vs)"
    by (rule parsed_backI [where n = "2 + length vs" and name = "''ZREM''",
      OF _ _ _ _ _ parses_key_values [where C = ZremCommand, OF assms(1,2) refl]]) (use assms(3) in \<open>simp_all add: defs\<close>)
qed

lemma parses_two:
  assumes "no_CR a" "no_CR b"
  shows "parses (\<lambda>buf pos. with_bulk buf pos (\<lambda>x pos. with_bulk buf pos (\<lambda>y pos. (C x y, pos))))
    (bulk a @ bulk b) (C a b)"
  using assms by (intro parses_with_bulk parses_with_last) auto

lemma parses_three:
  assumes "no_CR a" "no_CR b" "no_CR c"
  shows "parses (\<lambda>buf pos. with_bulk buf pos (\<lambda>x pos. with_bulk buf pos (\<lambda>y pos.
    with_bulk buf pos (\<lambda>z pos. (C x y z, pos))))) (bulk a @ bulk b @ bulk c) (C a b c)"
  using assms by (intro parses_with_bulk parses_with_last) auto

lemma parsed_back_two:
  assumes "no_CR a" "no_CR b"
  shows "parsed_back stod dtos (ZrankCommand a b)" "parsed_back stod dtos (ZscoreCommand a b)"
proof -
  note defs = to_resp_defs parseZrankCommand_def parseZscoreCommand_def
  show "parsed_back stod dtos (ZrankCommand a b)"
    by (rule parsed_backI [where n = 3 and name = "''ZRANK''",
      OF _ _ _ _ _ parses_two [where C = ZrankCommand, OF assms]]) (simp_all add: defs)
  show "parsed_back stod dtos (ZscoreCommand a b)"
    by (rule parsed_backI [where n = 3 and name = "''ZSCORE''",
      OF _ _ _ _ _ parses_two [where C = ZscoreCommand, OF assms]]) (simp_all add: defs)
qed

lemma parsed_back_three:
  assumes "no_CR a" "no_CR b" "no_CR c"
  shows "parsed_back stod dtos (XrangeCommand a b c)" "parsed_back stod dtos (GeoDistCommand a b c)"
proof -
  note defs = to_resp_defs parseXrangeCommand_def parseGeoDistCommand_def
  show "parsed_back stod dtos (XrangeCommand a b c)"
    by (rule parsed_backI [where n = 4 and name = "''XRANGE''",
      OF _ _ _ _ _ parses_three [where C = XrangeCommand, OF assms]]) (simp_all add: defs)
  show "parsed_back stod dtos (GeoDistCommand a b c)"
    by (rule parsed_backI [where n = 4 and name = "''GEODIST''",
      OF _ _ _ _ _ parses_three [where C = GeoDistCommand, OF assms]]) (simp_all add: defs)
qed

text \<open>The two index ranges: the bounds are read by \<open>convert_string_to_number\<close>.\<close>

definition range_command :: "(string \<Rightarrow> int \<Rightarrow> int \<Rightarrow> Command) \<Rightarrow> string \<Rightarrow> string \<Rightarrow> string \<Rightarrow> Command" where
  "range_command C k start stop =
     (case (convert_string_to_number start, convert_string_to_number stop) of
        (Some a, Some b) \<Rightarrow> C k a b | _ \<Rightarrow> UnknowCommand)"

lemma parsed_back_index_range:
  assumes "no_CR key" "int64_range a" "int64_range b"
  shows "parsed_back stod dtos (LrangeCommand key a b)" "parsed_back stod dtos (ZrangeCommand key a b)"
proof -
  note defs = to_resp_defs parseLrangeCommand_def parseZrangeCommand_def range_command_def
    convert_string_to_number_int_to_string assms(2,3)
  have *: "range_command C key (int_to_string a) (int_to_string b) = C key a b" for C
    by (simp add: defs)
  note P = parses_three [where b = "int_to_string a" and c = "int_to_string b" and C = "range_command C" for C,
    OF assms(1) no_CR_numbers(2) no_CR_numbers(2), unfolded *]
  show "parsed_back stod dtos (LrangeCommand key a b)"
    by (rule parsed_backI [where n = 4 and name = "''LRANGE''", OF _ _ _ _ _ P [of LrangeCommand]])
      (simp_all add: defs)
  show "parsed_back stod dtos (ZrangeCommand key a b)"
    by (rule parsed_backI [where n = 4 and name = "''ZRANGE''", OF _ _ _ _ _ P [of ZrangeCommand]])
      (simp_all add: defs)
qed

lemma parsed_back_LPOP:
  assumes "no_CR key" "case count of None \<Rightarrow> True | Some n \<Rightarrow> n < 2 ^ 32"
  shows "parsed_back stod dtos (LpopCommand key count)"
proof (cases count)
  case None
  show ?thesis
    by (rule parsed_backI_key [where name = "''LPOP''" and s = key])
      (simp_all add: to_resp_defs parseLpopCommand_def None assms(1))
next
  case (Some n)
  let ?g = "\<lambda>k buf pos. case next_bulk buf pos of (None, pos) \<Rightarrow> (LpopCommand k None, pos)
    | (Some s, pos) \<Rightarrow> (let (ok, v) = convert_positive_string_to_number s
        in (LpopCommand k (if ok then Some (unat v mod 4294967296) else None), pos))"
  have "unat (of_nat n :: u64) mod 4294967296 = n" using Some assms(2) by (simp add: unat_of_nat)
  then have "parses (?g key) (bulk (nat_to_string n)) (LpopCommand key count)"
    by (simp add: parses_def Some)
  from parses_with_bulk [OF assms(1), of ?g, OF this] show ?thesis
    by (intro parsed_backI [where n = 3 and name = "''LPOP''"])
      (simp_all add: to_resp_defs parseLpopCommand_def Some)
qed

lemma parsed_back_SET:
  assumes "no_CR key" "no_CR v"
  shows "parsed_back stod dtos (SetCommand key v ex px)"
  by (rule parsed_backI [where name = "''SET''" and
      n = "3 + (if ex = None then 0 else 2) + (if px = None then 0 else 2)",
      OF _ _ _ _ _ parses_set [OF assms]])
    (simp_all add: to_resp_defs)

lemma parsed_back_XADD:
  assumes "no_CR key" "no_CR sid" "length fvs < 2 ^ 29" "list_all (\<lambda>(f, v). no_CR f \<and> no_CR v) fvs"
  shows "parsed_back stod dtos (XaddCommand key sid fvs)"
proof (rule parsed_backI [where n = "3 + length fvs * 2" and name = "''XADD''"])
  have *: "nat (int (3 + length fvs * 2) - 1 - 2) div 2 = length fvs" by simp
  show "parses (\<lambda>buf pos. parseXaddCommand buf pos (int (3 + length fvs * 2) - 1))
      (bulk key @ bulk sid @ concat (map (\<lambda>(f, v). bulk f @ bulk v) fvs)) (XaddCommand key sid fvs)"
    unfolding parseXaddCommand_def Let_def
    using assms * by (intro parses_with_bulk parses_map [where x = fvs] parses_pairs) auto
qed (use assms(3) in \<open>simp_all add: to_resp_defs\<close>)

lemma parsed_back_ZADD:
  assumes "no_CR key" "length sms < 2 ^ 30"
    "list_all (\<lambda>(r, m). no_CR (dtos r) \<and> stod (dtos r) = Some r \<and> no_CR m) sms"
  shows "parsed_back stod dtos (ZaddCommand key sms)"
proof (rule parsed_backI [where n = "2 + length sms * 2" and name = "''ZADD''"])
  have *: "nat (int (2 + length sms * 2) - 1 - 1) div 2 = length sms" by simp
  show "parses (\<lambda>buf pos. parseZaddCommand stod buf pos (int (2 + length sms * 2) - 1))
      (bulk key @ concat (map (\<lambda>(s, m). bulk (dtos s) @ bulk m) sms)) (ZaddCommand key sms)"
    unfolding parseZaddCommand_def Let_def
    using assms * by (intro parses_with_bulk parses_map [where x = sms] parses_scores) auto
qed (use assms(2) in \<open>simp_all add: to_resp_defs\<close>)

lemma parsed_back_GEOADD:
  assumes "no_CR key" "no_CR mem" "no_CR (dtos lon)" "no_CR (dtos lat)"
    and cmd: "GeoAddCommand key lon lat score mem bad =
      geoadd_triple stod (GeoAddCommand key 0 0 0 [] False) (dtos lon) (dtos lat) mem"
  shows "parsed_back stod dtos (GeoAddCommand key lon lat score mem bad)"
proof (rule parsed_backI [where n = 5 and name = "''GEOADD''"])
  let ?g = "\<lambda>key a b m buf pos. case (a, b, m) of
      (Some a, Some b, Some m) \<Rightarrow> (geoadd_triple stod (GeoAddCommand key 0 0 0 [] False) a b m, pos)
    | _ \<Rightarrow> (GeoAddCommand key 0 0 0 [] False, pos)"
  have n: "nat (int 5 - 1 - 1) div 3 = Suc 0" by simp
  have g: "(\<lambda>buf pos. parseGeoAddCommand stod buf pos (int 5 - 1)) =
      (\<lambda>buf pos. with_bulk buf pos (\<lambda>key pos. case next_bulk buf pos of (a, pos) \<Rightarrow>
        case next_bulk buf pos of (b, pos) \<Rightarrow> case next_bulk buf pos of (m, pos) \<Rightarrow> ?g key a b m buf pos))"
    unfolding parseGeoAddCommand_def n by (simp add: Let_def cong: option.case_cong prod.case_cong)
  have "parses (?g key (Some (dtos lon)) (Some (dtos lat)) (Some mem)) [] (GeoAddCommand key lon lat score mem bad)"
    by (simp add: parses_def cmd)
  then have "parses (\<lambda>buf pos. parseGeoAddCommand stod buf pos (int 5 - 1))
      (bulk key @ bulk (dtos lon) @ bulk (dtos lat) @ bulk mem @ [])
      (GeoAddCommand key lon lat score mem bad)"
    unfolding g using assms(1-4) by (intro parses_with_bulk parses_bind_bulk) simp_all
  then show "parses (\<lambda>buf pos. parseGeoAddCommand stod buf pos (int 5 - 1))
      (bulk key @ bulk (dtos lon) @ bulk (dtos lat) @ bulk mem) (GeoAddCommand key lon lat score mem bad)"
    by simp
qed (simp_all add: to_resp_defs)

lemma parsed_back_XREAD:
  assumes "list_all no_CR ks" "list_all no_CR ids" "length ids = length ks" "length ks < 2 ^ 29"
  shows "parsed_back stod dtos (XreadCommand None ks ids)"
proof (rule parsed_backI [where n = "2 + length ks + length ids" and name = "''XREAD''"])
  let ?g = "\<lambda>first buf pos.
      if is_equal first ''BLOCK'' then
         (let (t, pos) = next_bulk buf pos;
              block = map_option (stod_or_0 stod) t;
              (_, pos) = Parse buf pos
          in parse_xread_streams block buf pos (int (2 + length ks + length ids) - 1 - 3))
       else if is_equal first ''STREAMS''
       then parse_xread_streams None buf pos (int (2 + length ks + length ids) - 1 - 1)
       else (UnknowCommand, pos)"
  have n: "int (2 + length ks + length ids) - 1 - 1 = 2 * int (length ks)" using assms(3) by simp
  have "parses (\<lambda>buf pos. case parse_values (length ks) buf pos of (ks, pos) \<Rightarrow>
      case parse_values n buf pos of (ids, pos) \<Rightarrow> (XreadCommand None ks ids, pos))
      (bulks ks @ bulks ids) (XreadCommand None ks ids)" if "n = length ks" for n
    using assms(1-3) that by (intro parses_bind [where x = ks] parses_map [where x = ids] parses_values) auto
  from this [OF refl] have "parses (?g ''STREAMS'') (bulks ks @ bulks ids) (XreadCommand None ks ids)"
    unfolding n by (simp add: parse_xread_streams_def tolower_def Let_def)
  from parses_with_bulk [where g = ?g, OF _ this]
  show "parses (\<lambda>buf pos. parseXreadCommand stod buf pos (int (2 + length ks + length ids) - 1))
      (bulk ''STREAMS'' @ bulks ks @ bulks ids) (XreadCommand None ks ids)"
    unfolding parseXreadCommand_def by simp
qed (use assms(3,4) in \<open>simp_all add: to_resp_defs\<close>)

lemma parsed_back_INFO: "parsed_back stod dtos (InfoCommand True)"
proof (rule parsed_backI [where n = 2 and name = "''INFO''"])
  show "parses parseInfoCommand (bulk ''replication'') (InfoCommand True)"
    by (simp add: parses_def parseInfoCommand_def with_bulk_def)
qed (simp_all add: to_resp_defs)

lemma parsed_back_WHOAMI: "parsed_back stod dtos ACLWhoamiCommand"
proof (rule parsed_backI [where n = 2 and name = "''ACL''"])
  show "parses (\<lambda>buf pos. parseACLCommand buf pos (int 2 - 1)) (bulk ''WHOAMI'') ACLWhoamiCommand"
    by (simp add: parses_def parseACLCommand_def with_bulk_def)
qed (simp_all add: to_resp_defs)

lemma next_text_at [simp]:
  "no_CR s \<Longrightarrow> next_text (pre @ bulk s @ rest) (length pre) = (s, length pre + length (bulk s))"
  by (rule parsesD [OF parses_next_text])

lemma snd_Parse: "snd (Parse buf pos) = snd (next_text buf pos)"
  by (simp add: next_text_def split_def Let_def)

lemma sint_of_nat_u64: "int64_range v \<Longrightarrow> sint (word_of_int v :: u64) = v"
  by (simp add: signed_of_int signed_take_bit_int_eq_self int64_range_def)

lemma parsed_back_REPLCONF:
  "0 \<le> ack \<Longrightarrow> int64_range ack \<Longrightarrow> parsed_back stod dtos (ReplConfCommand ACK [] [] ack)"
  "parsed_back stod dtos (ReplConfCommand GETACK [] [] 0)"
  "capa \<noteq> [] \<Longrightarrow> no_CR capa \<Longrightarrow> parsed_back stod dtos (ReplConfCommand CAPA [] capa 0)"
proof -
  note I = parsed_backI [where n = 3 and name = "''REPLCONF''" and f = parseReplConfCommand]
  note defs = parses_def parseReplConfCommand_def with_bulk_def tolower_def
  have arg: "next_text (pre @ bulk a @ bulk b @ rest) (length pre + length (bulk a)) =
      (b, length pre + (length (bulk a) + length (bulk b)))" if "no_CR b" for pre a b rest
    using next_text_at [OF that, of "pre @ bulk a" rest] by (simp add: add.assoc)
  show "parsed_back stod dtos (ReplConfCommand ACK [] [] ack)" if "0 \<le> ack" "int64_range ack"
    using that
    by (intro I [where args = "bulk ''ACK'' @ bulk (int_to_string ack)"])
      (simp_all add: to_resp_defs defs arg int_to_string_def sint_of_nat_u64)
  show "parsed_back stod dtos (ReplConfCommand GETACK [] [] 0)"
    by (intro I [where args = "bulk ''GETACK'' @ bulk ''*''"])
      (simp_all add: to_resp_defs defs snd_Parse arg)
  show "parsed_back stod dtos (ReplConfCommand CAPA [] capa 0)" if "capa \<noteq> []" "no_CR capa"
    using that
    by (intro I [where args = "bulk ''capa'' @ bulk capa"])
      (simp_all add: to_resp_defs defs arg)
qed

lemma parsed_back_PSYNC:
  assumes "no_CR repl_id" "- 1 \<le> off" "int64_range off"
  shows "parsed_back stod dtos (PsyncCommand repl_id off)"
proof (rule parsed_backI [where n = 3 and name = "''PSYNC''"])
  let ?h = "\<lambda>repl_id off. case convert_positive_string_to_number off of (ok, n) \<Rightarrow>
      PsyncCommand repl_id (if off = ''-1'' then - 1 else if ok then sint n else - 1)"
  have "?h repl_id (int_to_string off) = PsyncCommand repl_id off"
  proof (cases "off = - 1")
    case True
    have "int_to_string (- 1) = ''-1''" by code_simp
    then show ?thesis by (simp add: True split: prod.split)
  next
    case False
    then have "0 \<le> off" using assms(2) by simp
    moreover have "nat_to_string (nat off) \<noteq> ''-1''"
      using nat_to_string_no_minus [of "nat off"] by (metis list.set_intros(1))
    ultimately show ?thesis using assms(3) by (simp add: int_to_string_def sint_of_nat_u64)
  qed
  then show "parses (\<lambda>buf pos. parsePsyncCommand buf pos (int 3 - 1)) (bulk repl_id @ bulk (int_to_string off))
      (PsyncCommand repl_id off)"
    using parses_two [where b = "int_to_string off" and C = ?h, OF assms(1) no_CR_numbers(2)]
    by (simp add: parsePsyncCommand_def split_def Let_def)
qed (simp_all add: to_resp_defs)

lemma parsed_back_WAIT: "parsed_back stod dtos (WaitCommand a b)"
proof (rule parsed_backI [where n = 3 and name = "''WAIT''"])
  let ?a = "nat_to_string (unat a)" and ?b = "nat_to_string (unat b)"
  let ?h = "\<lambda>a b. WaitCommand (snd (convert_positive_string_to_number a)) (snd (convert_positive_string_to_number b))"
  have "parses (\<lambda>buf pos. with_bulk buf pos (\<lambda>num pos.
      case next_text buf pos of (timeout, pos) \<Rightarrow> (?h num timeout, pos))) (bulk ?a @ bulk ?b) (WaitCommand a b)"
    by (intro parses_with_bulk parses_map [OF parses_next_text]) simp_all
  then show "parses parseWaitCommand (bulk ?a @ bulk ?b) (WaitCommand a b)"
    unfolding parseWaitCommand_def [abs_def] Let_def .
qed (simp_all add: to_resp_defs)

text \<open>The round trip: \<open>to_resp\<close> is what a master sends to its replicas.\<close>

lemmas parsed_back_commands = parsed_back_no_argument parsed_back_one_argument parsed_back_values
  parsed_back_two parsed_back_three parsed_back_index_range parsed_back_LPOP parsed_back_SET
  parsed_back_XADD parsed_back_ZADD parsed_back_XREAD parsed_back_INFO
  parsed_back_WHOAMI parsed_back_REPLCONF parsed_back_PSYNC parsed_back_WAIT

lemma wire_ok_parsed_back: "wire_ok stod dtos cmd \<Longrightarrow> parsed_back stod dtos cmd"
proof (cases cmd)
  case geo: (GeoAddCommand key lon lat score mem bad)
  assume "wire_ok stod dtos cmd"
  then show ?thesis unfolding geo wire_ok_def Command.case by (intro parsed_back_GEOADD) blast+
qed (auto simp: wire_ok_def intro: parsed_back_commands)

text \<open>A stream of commands, as a replica receives it, is taken apart command by command.\<close>

fun parse_stream :: "(string \<Rightarrow> real option) \<Rightarrow> nat \<Rightarrow> string \<Rightarrow> Command list \<times> string" where
  "parse_stream stod 0 buf = ([], buf)"
| "parse_stream stod (Suc n) buf =
     (let r = parseCommand stod buf 0; (cs, rest) = parse_stream stod n (buffer r)
      in (command r # cs, rest))"

lemma parse_stream_to_resp:
  "list_all (wire_ok stod dtos) cs \<Longrightarrow>
   parse_stream stod (length cs) (concat (map (to_resp dtos) cs) @ rest) = (cs, rest)"
proof (induction cs)
  case (Cons c cs)
  then have "parsed_back stod dtos c" by (simp add: wire_ok_parsed_back)
  then have "parseCommand stod (to_resp dtos c @ concat (map (to_resp dtos) cs) @ rest) 0 =
      \<lparr>command = c, bytes = Some (length (to_resp dtos c)), buffer = concat (map (to_resp dtos) cs) @ rest, position = 0\<rparr>"
    unfolding parsed_back_def by blast
  with Cons show ?case by simp
qed simp


end
