(* ===== verification/Db_Zsets.thy ===== *)
theory Db_Zsets
  imports Db_State CommandParser
begin

text \<open>
  The handlers on sorted sets and locations: \<open>src/src/db/ZADD\<close>, \<open>ZRANK\<close>, \<open>ZRANGE\<close>, \<open>ZCARD\<close>,
  \<open>ZSCORE\<close>, \<open>ZREM\<close>, \<open>GEOADD\<close>, \<open>GEOPOS\<close>, \<open>GEODIST\<close>, \<open>GEOSEARCH\<close>. They take their arguments
  from the command of the context, so under \<open>EXEC\<close>, where the context still has the
  \<open>EXEC\<close> command, they answer that the type is wrong. Scores are real numbers; how they
  are printed is the environment's. The theorems: each handler acts on the finite map
  from members to scores that its key holds.
\<close>

section \<open>Definitions\<close>

definition invalid_type :: "ClientContext \<Rightarrow> state \<Rightarrow> step" where
  "invalid_type c s = Some (respond c (\<lambda>b. encode_error b ''Invalid command type'' ''ERR'') s, c)"

definition wrong_type :: "ClientContext \<Rightarrow> state \<Rightarrow> step" where
  "wrong_type c s =
     Some (respond c (\<lambda>b. encode_error b
       ''WRONGTYPE Operation against a key holding the wrong kind of value'' ''ERR'') s, c)"

definition set_zset :: "string \<Rightarrow> real SortedSet \<Rightarrow> state \<Rightarrow> state" where
  "set_zset key z s = s\<lparr>store := (store s)(key \<mapsto> SORTED_SET z)\<rparr>"

text \<open>The lookup of \<open>ZADD\<close> and \<open>GEOADD\<close>: a missing key gets an empty set first.\<close>

definition open_zset :: "string \<Rightarrow> state \<Rightarrow> state" where
  "open_zset key s = (case store s key of None \<Rightarrow> set_zset key new_sorted_set s | Some _ \<Rightarrow> s)"

fun zadd_loop :: "(real \<times> string) list \<Rightarrow> nat \<Rightarrow> real SortedSet \<Rightarrow> nat \<times> real SortedSet" where
  "zadd_loop [] added z = (added, z)"
| "zadd_loop ((score, member) # sms) added z =
     (let (wasKeyExisted, z') = insert_zset z member score
      in zadd_loop sms (if wasKeyExisted then added else added + 1) z')"

definition handle_zadd :: "state \<Rightarrow> ClientContext \<Rightarrow> step" where
  "handle_zadd s c =
     (case ctx_command c of
        Some (ZaddCommand key score_members) \<Rightarrow>
          let s = open_zset key s in
          (case store s key of
             Some (SORTED_SET z) \<Rightarrow>
               let (added, z') = zadd_loop score_members 0 z
               in Some (respond c (\<lambda>b. encode_integer b (int added)) (set_zset key z' s), c)
           | _ \<Rightarrow> wrong_type c s)
      | _ \<Rightarrow> invalid_type c s)"

definition handle_zrank :: "state \<Rightarrow> ClientContext \<Rightarrow> step" where
  "handle_zrank s c =
     (case ctx_command c of
        Some (ZrankCommand key member) \<Rightarrow>
          (case store s key of
             None \<Rightarrow> Some (respond c encode_null_bulk_string s, c)
           | Some (SORTED_SET z) \<Rightarrow>
               (case rank_zset z member of
                  Some r \<Rightarrow> Some (respond c (\<lambda>b. encode_integer b (int r)) s, c)
                | None \<Rightarrow> Some (respond c encode_null_bulk_string s, c))
           | Some _ \<Rightarrow> wrong_type c s)
      | _ \<Rightarrow> invalid_type c s)"

definition handle_zrange :: "state \<Rightarrow> ClientContext \<Rightarrow> step" where
  "handle_zrange s c =
     (case ctx_command c of
        Some (ZrangeCommand key start stop) \<Rightarrow>
          (case store s key of
             None \<Rightarrow> Some (respond c encode_empty_array s, c)
           | Some (SORTED_SET z) \<Rightarrow>
               let members = range_zset z start stop
               in Some (respond c (\<lambda>b. foldl encode_bulk_string (encode_array_header b (length members)) members) s, c)
           | Some _ \<Rightarrow> wrong_type c s)
      | _ \<Rightarrow> invalid_type c s)"

definition handle_zcard :: "state \<Rightarrow> ClientContext \<Rightarrow> step" where
  "handle_zcard s c =
     (case ctx_command c of
        Some (ZcardCommand key) \<Rightarrow>
          (case store s key of
             None \<Rightarrow> Some (respond c (\<lambda>b. encode_integer b 0) s, c)
           | Some (SORTED_SET z) \<Rightarrow> Some (respond c (\<lambda>b. encode_integer b (sint (size_zset z))) s, c)
           | Some _ \<Rightarrow> wrong_type c s)
      | _ \<Rightarrow> invalid_type c s)"

text \<open>\<open>static_cast<uint64_t>\<close> of a score is undefined outside the range: a fault.\<close>

definition score_bits :: "real \<Rightarrow> u64 option" where
  "score_bits r =
     (if 0 \<le> trunc_real r \<and> trunc_real r < 18446744073709551616 then Some (of_int (trunc_real r)) else None)"

definition handle_zscore :: "env \<Rightarrow> state \<Rightarrow> ClientContext \<Rightarrow> step" where
  "handle_zscore e s c =
     (case ctx_command c of
        Some (ZscoreCommand key member) \<Rightarrow>
          (case store s key of
             None \<Rightarrow> Some (respond c encode_null_bulk_string s, c)
           | Some (SORTED_SET z) \<Rightarrow>
               (case score_zset z member of
                  Some r \<Rightarrow> do {
                    score_str \<leftarrow> (if isGeo z then map_option (\<lambda>b. nat_to_string (unat b)) (score_bits r)
                                  else Some (fixed e 14 r));
                    Some (respond c (\<lambda>b. encode_bulk_string b score_str) s, c) }
                | None \<Rightarrow> Some (respond c encode_null_bulk_string s, c))
           | Some _ \<Rightarrow> wrong_type c s)
      | _ \<Rightarrow> invalid_type c s)"

fun zrem_loop :: "string list \<Rightarrow> nat \<Rightarrow> real SortedSet \<Rightarrow> nat \<times> real SortedSet" where
  "zrem_loop [] removed z = (removed, z)"
| "zrem_loop (member # mems) removed z =
     (let (found, z') = remove_zset z member in zrem_loop mems (if found then removed + 1 else removed) z')"

definition handle_zrem :: "state \<Rightarrow> ClientContext \<Rightarrow> step" where
  "handle_zrem s c =
     (case ctx_command c of
        Some (ZremCommand key members) \<Rightarrow>
          (case store s key of
             None \<Rightarrow> Some (respond c (\<lambda>b. encode_integer b 0) s, c)
           | Some (SORTED_SET z) \<Rightarrow>
               let (removed, z') = zrem_loop members 0 z
               in Some (respond c (\<lambda>b. encode_integer b (int removed)) (set_zset key z' s), c)
           | Some _ \<Rightarrow> wrong_type c s)
      | _ \<Rightarrow> invalid_type c s)"

section \<open>Locations\<close>

text \<open>\<open>%f\<close> prints six decimals.\<close>

definition handle_geoadd :: "env \<Rightarrow> state \<Rightarrow> ClientContext \<Rightarrow> step" where
  "handle_geoadd e s c =
     (case ctx_command c of
        Some (GeoAddCommand key lon lat score member invalidLatLon) \<Rightarrow>
          if invalidLatLon then
            Some (respond c (\<lambda>b. encode_error b (take 127
              (''invalid longitude,latitude pair '' @ fixed e 6 lon @ '','' @ fixed e 6 lat)) ''ERR'') s, c)
          else
            let s = open_zset key s in
            (case store s key of
               Some (SORTED_SET z) \<Rightarrow>
                 let (wasKeyExisted, z') = insert_zset (z\<lparr>isGeo := True\<rparr>) member score
                 in Some (respond c (\<lambda>b. encode_integer b (if wasKeyExisted then 0 else 1)) (set_zset key z' s), c)
             | _ \<Rightarrow> wrong_type c s)
      | _ \<Rightarrow> invalid_type c s)"

text \<open>The cell of a score, on the ranges the parser encodes with.\<close>

definition decode_score :: "real \<Rightarrow> GeoHashArea option" where
  "decode_score score = do {
     b \<leftarrow> score_bits score;
     Some (geoHashDecode geoadd_GeoHash \<lparr>bits = b, step = 26\<rparr>) }"

definition centre :: "GeoHashRange \<Rightarrow> real" where
  "centre r = (min' r + max' r) / 2"

fun geopos_loop :: "env \<Rightarrow> real SortedSet \<Rightarrow> string list \<Rightarrow> string \<Rightarrow> string option" where
  "geopos_loop e z [] w = Some w"
| "geopos_loop e z (member # mems) w =
     (case score_zset z member of
        None \<Rightarrow> geopos_loop e z mems (encode_null_array w)
      | Some score \<Rightarrow> do {
          area \<leftarrow> decode_score score;
          let w = encode_array_header w 2;
          let w = encode_bulk_string w (fixed e 14 (centre (longitude area)));
          let w = encode_bulk_string w (fixed e 14 (centre (latitude area)));
          geopos_loop e z mems w })"

text \<open>The writes of a loop that can fault, at once.\<close>

definition respond_checked :: "ClientContext \<Rightarrow> (string \<Rightarrow> string option) \<Rightarrow> state \<Rightarrow> step" where
  "respond_checked c f s =
     (case clients s (client c) of
        None \<Rightarrow> None
      | Some cl \<Rightarrow> do { w \<leftarrow> f (write_buffer cl); Some (respond c (\<lambda>_. w) s, c) })"

definition handle_geopos :: "env \<Rightarrow> state \<Rightarrow> ClientContext \<Rightarrow> step" where
  "handle_geopos e s c =
     (case ctx_command c of
        Some (GeoPosCommand key members) \<Rightarrow>
          (case store s key of
             None \<Rightarrow>
               Some (respond c (\<lambda>b. fold (\<lambda>_. encode_null_array) members (encode_array_header b (length members))) s, c)
           | Some (SORTED_SET z) \<Rightarrow>
               respond_checked c (\<lambda>b. geopos_loop e z members (encode_array_header b (length members))) s
           | Some _ \<Rightarrow> wrong_type c s)
      | _ \<Rightarrow> invalid_type c s)"

definition handle_geodist :: "env \<Rightarrow> state \<Rightarrow> ClientContext \<Rightarrow> step" where
  "handle_geodist e s c =
     (case ctx_command c of
        Some (GeoDistCommand key member1 member2) \<Rightarrow>
          (case store s key of
             None \<Rightarrow> Some (respond c encode_null_bulk_string s, c)
           | Some (SORTED_SET z) \<Rightarrow>
               (case (score_zset z member1, score_zset z member2) of
                  (Some score1, Some score2) \<Rightarrow> do {
                    area1 \<leftarrow> decode_score score1;
                    area2 \<leftarrow> decode_score score2;
                    let distance = calculateDistance area1 area2;
                    Some (respond c (\<lambda>b. encode_bulk_string b (fixed e 4 distance)) s, c) }
                | _ \<Rightarrow> Some (respond c encode_null_bulk_string s, c))
           | Some _ \<Rightarrow> wrong_type c s)
      | _ \<Rightarrow> invalid_type c s)"

fun geosearch_loop ::
  "GeoHashArea \<Rightarrow> real \<Rightarrow> (string \<times> real) list \<Rightarrow> string list \<Rightarrow> string list option" where
  "geosearch_loop centerArea radius [] results = Some results"
| "geosearch_loop centerArea radius ((member, score) # rest) results = do {
     area \<leftarrow> decode_score score;
     geosearch_loop centerArea radius rest
       (if calculateDistance centerArea area \<le> radius then results @ [member] else results) }"

text \<open>The centre of a search: outside the ranges the cell stays the one of bits 0.\<close>

definition center_area :: "real \<Rightarrow> real \<Rightarrow> GeoHashArea" where
  "center_area lon lat =
     geoHashDecode geoadd_GeoHash
       (case geoHashEncode geoadd_GeoHash lon lat 26 of Some h \<Rightarrow> h | None \<Rightarrow> \<lparr>bits = 0, step = 26\<rparr>)"

definition handle_geosearch :: "env \<Rightarrow> state \<Rightarrow> ClientContext \<Rightarrow> step" where
  "handle_geosearch e s c =
     (case ctx_command c of
        Some (GeoSearchCommand key centerLon centerLat radius) \<Rightarrow>
          (case store s key of
             None \<Rightarrow> Some (respond c encode_empty_array s, c)
           | Some (SORTED_SET z) \<Rightarrow> do {
               results \<leftarrow> geosearch_loop (center_area centerLon centerLat) radius
                 (getAllWithScores (member_order e) z) [];
               Some (respond c (\<lambda>b. encode_bulk_string_array b results) s, c) }
           | Some _ \<Rightarrow> wrong_type c s)
      | _ \<Rightarrow> invalid_type c s)"

section \<open>A key as a map from members to scores\<close>

definition zset_at :: "'a DB_scheme \<Rightarrow> string \<Rightarrow> (string \<rightharpoonup> real) \<Rightarrow> bool" where
  "zset_at s key m \<longleftrightarrow>
     (case store s key of
        None \<Rightarrow> m = (\<lambda>_. None)
      | Some (SORTED_SET z) \<Rightarrow> zset_inv z \<and> hashMap z = m
      | Some _ \<Rightarrow> False)"

lemma zset_at_cases [consumes 1, case_names Absent Present]:
  assumes "zset_at s key m"
  obtains (Absent) "store s key = None" "m = (\<lambda>_. None)"
  | (Present) z where "store s key = Some (SORTED_SET z)" "zset_inv z" "hashMap z = m"
  using assms by (auto simp: zset_at_def split: option.splits RedisObject.splits)

lemma zset_at_write [simp]: "zset_at (write_to c f s) key m = zset_at s key m"
  by (simp add: zset_at_def)

lemma zset_at_set_zset [simp]:
  "zset_at (set_zset key z s) key m \<longleftrightarrow> zset_inv z \<and> hashMap z = m"
  "k \<noteq> key \<Longrightarrow> zset_at (set_zset key z s) k m = zset_at s k m"
  by (simp_all add: zset_at_def set_zset_def)

lemma set_zset_simps [simp]:
  "clients (set_zset key z s) = clients s" "buffer_of (set_zset key z s) x = buffer_of s x"
  "store (set_zset key z s) = (store s)(key \<mapsto> SORTED_SET z)"
  by (simp_all add: set_zset_def)

lemma open_zset_at:
  assumes "zset_at s key m"
  obtains z where "store (open_zset key s) key = Some (SORTED_SET z)" "zset_inv z" "hashMap z = m"
    "\<And>z'. set_zset key z' (open_zset key s) = set_zset key z' s"
  using assms
proof (cases rule: zset_at_cases)
  case Absent
  then show ?thesis using that [of new_sorted_set] zset.emp_inv zset.emp_map
    by (simp add: open_zset_def set_zset_def)
next
  case (Present z)
  then show ?thesis using that [of z] by (simp add: open_zset_def)
qed

text \<open>The map after a list of additions, and the members that were new.\<close>

definition add_scores :: "(real \<times> string) list \<Rightarrow> (string \<rightharpoonup> real) \<Rightarrow> (string \<rightharpoonup> real)" where
  "add_scores sms m = fold (\<lambda>(r, mem) m. m(mem \<mapsto> r)) sms m"

lemma add_scores_simps [simp]:
  "add_scores [] m = m" "add_scores ((r, mem) # sms) m = add_scores sms (m(mem \<mapsto> r))"
  by (simp_all add: add_scores_def)

lemma add_scores_dom: "dom (add_scores sms m) = dom m \<union> snd ` set sms"
  by (induction sms arbitrary: m) (auto simp: add_scores_def)

lemma zadd_loop_map:
  assumes "zset_inv z"
  shows "zset_inv (snd (zadd_loop sms n z)) \<and> hashMap (snd (zadd_loop sms n z)) = add_scores sms (hashMap z) \<and>
    fst (zadd_loop sms n z) = n + card (snd ` set sms - dom (hashMap z))"
  using assms
proof (induction sms n z rule: zadd_loop.induct)
  case (2 score mem sms n z)
  obtain f z' where f: "insert_zset z mem score = (f, z')" by (cases "insert_zset z mem score")
  have z': "zset_inv z'" "hashMap z' = (hashMap z)(mem \<mapsto> score)" "f \<longleftrightarrow> mem \<in> dom (hashMap z)"
    using zset.add_inv [OF 2(2), of mem score] zset.add_map [OF 2(2), of mem score]
      zset.add_flag [OF 2(2), of mem score] f by auto
  let ?new = "snd ` set sms - dom (hashMap z')"
  have d: "dom (hashMap z') = insert mem (dom (hashMap z))" by (simp add: z'(2))
  have new: "snd ` set ((score, mem) # sms) - dom (hashMap z) =
      (if f then ?new else insert mem ?new)" using z'(3) by (auto simp: d)
  have "mem \<notin> ?new" by (auto simp: d)
  then have "card (snd ` set ((score, mem) # sms) - dom (hashMap z)) = (if f then card ?new else Suc (card ?new))"
    unfolding new by simp
  then show ?case using 2(1) [OF f [symmetric] refl z'(1)] by (simp add: f z'(2) [symmetric])
qed simp

lemma zrem_loop_map:
  assumes "zset_inv z"
  shows "zset_inv (snd (zrem_loop mems n z)) \<and> hashMap (snd (zrem_loop mems n z)) = hashMap z |` (- set mems) \<and>
    fst (zrem_loop mems n z) = n + card (set mems \<inter> dom (hashMap z))"
  using assms
proof (induction mems n z rule: zrem_loop.induct)
  case (2 mem mems n z)
  obtain f z' where f: "remove_zset z mem = (f, z')" by (cases "remove_zset z mem")
  have z': "zset_inv z'" "hashMap z' = (hashMap z)(mem := None)" "f \<longleftrightarrow> mem \<in> dom (hashMap z)"
    using zset.del_inv [OF 2(2), of mem] zset.del_map [OF 2(2), of mem] zset.del_flag [OF 2(2), of mem] f
    by auto
  let ?old = "set mems \<inter> dom (hashMap z')"
  have old: "set (mem # mems) \<inter> dom (hashMap z) = (if f then insert mem ?old else ?old)"
    using z'(3) by (auto simp: z'(2))
  have "mem \<notin> ?old" by (simp add: z'(2))
  then have "card (set (mem # mems) \<inter> dom (hashMap z)) = (if f then Suc (card ?old) else card ?old)"
    unfolding old by simp
  moreover have "hashMap z' |` (- set mems) = hashMap z |` (- set (mem # mems))"
    by (auto simp: z'(2) restrict_map_def fun_eq_iff)
  ultimately show ?case using 2(1) [OF f [symmetric] refl z'(1)] by (simp add: f)
qed (simp add: restrict_map_def)

section \<open>The commands on the map\<close>

lemma handle_zadd_rep:
  assumes "zset_at s key m" "ctx_command c = Some (ZaddCommand key sms)" "clients s (client c) \<noteq> None"
  shows "\<exists>s'. handle_zadd s c = Some (s', c) \<and> zset_at s' key (add_scores sms m) \<and>
    (\<forall>k. k \<noteq> key \<longrightarrow> store s' k = store s k) \<and>
    buffer_of s' (client c) = encode_integer (buffer_of s (client c)) (int (card (snd ` set sms - dom m)))"
proof -
  obtain z where z: "store (open_zset key s) key = Some (SORTED_SET z)" "zset_inv z" "hashMap z = m"
    "\<And>z'. set_zset key z' (open_zset key s) = set_zset key z' s" using assms(1) by (rule open_zset_at) blast
  obtain n z' where n: "zadd_loop sms 0 z = (n, z')" by (cases "zadd_loop sms 0 z")
  show ?thesis using zadd_loop_map [OF z(2), of sms 0] assms(2,3)
    by (auto simp: handle_zadd_def z n)
qed

lemma handle_zrem_rep:
  assumes "zset_at s key m" "ctx_command c = Some (ZremCommand key mems)" "clients s (client c) \<noteq> None"
  shows "\<exists>s'. handle_zrem s c = Some (s', c) \<and> zset_at s' key (m |` (- set mems)) \<and>
    (\<forall>k. k \<noteq> key \<longrightarrow> store s' k = store s k) \<and>
    buffer_of s' (client c) = encode_integer (buffer_of s (client c)) (int (card (set mems \<inter> dom m)))"
  using assms(1)
proof (cases rule: zset_at_cases)
  case Absent
  then show ?thesis using assms by (auto simp: handle_zrem_def)
next
  case (Present z)
  obtain n z' where n: "zrem_loop mems 0 z = (n, z')" by (cases "zrem_loop mems 0 z")
  show ?thesis using zrem_loop_map [OF Present(2), of mems 0] assms(2,3) Present
    by (auto simp: handle_zrem_def n)
qed

text \<open>The rank the map gives a member: how many pairs of score and member are below.\<close>

definition rank_in :: "(string \<rightharpoonup> real) \<Rightarrow> string \<Rightarrow> nat option" where
  "rank_in m mem = map_option (\<lambda>r. card {(r', x). m x = Some r' \<and> (r', x) < (r, mem)}) (m mem)"

lemma rank_zset_in: "zset_inv z \<Longrightarrow> rank_zset z mem = rank_in (hashMap z) mem"
  by (cases "hashMap z mem") (simp_all add: rank_in_def zset.rank_card zset.rank_None)

lemma handle_zrank_rep:
  assumes "zset_at s key m" "ctx_command c = Some (ZrankCommand key mem)" "clients s (client c) \<noteq> None"
  shows "\<exists>s'. handle_zrank s c = Some (s', c) \<and> store s' = store s \<and>
    buffer_of s' (client c) = (case rank_in m mem of
        None \<Rightarrow> encode_null_bulk_string (buffer_of s (client c))
      | Some r \<Rightarrow> encode_integer (buffer_of s (client c)) (int r))"
  using assms(1)
proof (cases rule: zset_at_cases)
  case Absent
  then show ?thesis using assms by (simp add: handle_zrank_def rank_in_def)
next
  case (Present z)
  then show ?thesis using assms by (cases "rank_in m mem") (simp_all add: handle_zrank_def rank_zset_in)
qed

lemma handle_zscore_rep:
  assumes "zset_at s key m" "ctx_command c = Some (ZscoreCommand key mem)" "clients s (client c) \<noteq> None"
    "\<And>z. store s key = Some (SORTED_SET z) \<Longrightarrow> \<not> isGeo z"
  shows "\<exists>s'. handle_zscore e s c = Some (s', c) \<and> store s' = store s \<and>
    buffer_of s' (client c) = (case m mem of
        None \<Rightarrow> encode_null_bulk_string (buffer_of s (client c))
      | Some r \<Rightarrow> encode_bulk_string (buffer_of s (client c)) (fixed e 14 r))"
  using assms(1)
proof (cases rule: zset_at_cases)
  case Absent
  then show ?thesis using assms by (simp add: handle_zscore_def)
next
  case (Present z)
  then show ?thesis using assms by (cases "m mem") (simp_all add: handle_zscore_def score_zset_def)
qed

lemma handle_zcard_rep:
  assumes "zset_at s key m" "ctx_command c = Some (ZcardCommand key)" "clients s (client c) \<noteq> None"
    "card (dom m) < 9223372036854775808"
  shows "\<exists>s'. handle_zcard s c = Some (s', c) \<and> store s' = store s \<and>
    buffer_of s' (client c) = encode_integer (buffer_of s (client c)) (int (card (dom m)))"
  using assms(1)
proof (cases rule: zset_at_cases)
  case Absent
  then show ?thesis using assms by (simp add: handle_zcard_def)
next
  case (Present z)
  have "sint (of_nat (card (dom m)) :: u64) = int (card (dom m))"
    using assms(4) by (simp add: signed_of_nat signed_take_bit_int_eq_self)
  with Present show ?thesis using assms by (simp add: handle_zcard_def size_zset_card)
qed

section \<open>Locations on the map\<close>

lemma trunc_real_nat [simp]: "trunc_real (real n) = int n"
  by (simp add: trunc_real_def)

lemma score_bits_unat [simp]: "score_bits (real (unat b)) = Some b" for b :: u64
  using unsigned_less [where 'a = int and w = b] unfolding score_bits_def trunc_real_nat by simp

text \<open>A cell is at most the range divided by \<open>2 ^ 26\<close> wide.\<close>

lemma unat_Suc_le: "real (unat (x + 1)) \<le> real (unat x) + 1" for x :: "32 word"
  by (metis (mono_tags) le_add_same_cancel2 less_or_eq_imp_le linorder_not_le of_nat_1 of_nat_Suc of_nat_le_iff
      of_nat_0_le_iff unatSuc Suc_eq_plus1 add.commute unat_0 order_refl)

lemma centre_close:
  "min' r \<le> x \<Longrightarrow> x < max' r \<Longrightarrow> max' r - min' r \<le> 2 * w \<Longrightarrow> \<bar>centre r - x\<bar> \<le> w"
  unfolding centre_def by (simp add: abs_le_iff field_simps)

lemma decoded_cell:
  assumes "geoHashEncode geoadd_GeoHash lon lat 26 = Some h"
  shows "\<bar>centre (longitude (geoHashDecode geoadd_GeoHash h)) - lon\<bar> \<le> 180 / 2 ^ 26"
    "\<bar>centre (latitude (geoHashDecode geoadd_GeoHash h)) - lat\<bar> \<le> 85.05112878 / 2 ^ 26"
proof -
  let ?a = "geoHashDecode geoadd_GeoHash h"
  have st: "step h = 26" using assms by (auto simp: geoHashEncode_def Let_def split: if_splits)
  have b: "min' (longitude ?a) \<le> lon" "lon < max' (longitude ?a)"
    "min' (latitude ?a) \<le> lat" "lat < max' (latitude ?a)"
    using geoHash_roundtrip [OF _ _ assms] by (simp_all add: geoadd_GeoHash_def)
  have w: "max' (longitude ?a) - min' (longitude ?a) \<le> 2 * (180 / 2 ^ 26)"
    "max' (latitude ?a) - min' (latitude ?a) \<le> 2 * (85.05112878 / 2 ^ 26)"
    using unat_Suc_le [of "ucast (drop_bit 32 (deinterleave64 (bits h)))"]
      unat_Suc_le [of "ucast (deinterleave64 (bits h))"]
    by (simp_all add: geoHashDecode_def Let_def st geoadd_GeoHash_def field_simps)
  show "\<bar>centre (longitude ?a) - lon\<bar> \<le> 180 / 2 ^ 26"
    "\<bar>centre (latitude ?a) - lat\<bar> \<le> 85.05112878 / 2 ^ 26"
    using centre_close [OF b(1,2) w(1)] centre_close [OF b(3,4) w(2)] .
qed

text \<open>The command the parser makes of a valid location.\<close>

definition geo_command :: "string \<Rightarrow> real \<Rightarrow> real \<Rightarrow> GeoHashBits \<Rightarrow> string \<Rightarrow> Command" where
  "geo_command key lon lat h mem = GeoAddCommand key lon lat (real (unat (bits h))) mem False"

lemma handle_geoadd_rep:
  assumes "zset_at s key m" "ctx_command c = Some (GeoAddCommand key lon lat r mem False)"
    "clients s (client c) \<noteq> None"
  shows "\<exists>s'. handle_geoadd e s c = Some (s', c) \<and> zset_at s' key (m(mem \<mapsto> r)) \<and>
    clients s' (client c) \<noteq> None \<and>
    buffer_of s' (client c) = encode_integer (buffer_of s (client c)) (if mem \<in> dom m then 0 else 1)"
proof -
  obtain z where z: "store (open_zset key s) key = Some (SORTED_SET z)" "zset_inv z" "hashMap z = m"
    "\<And>z'. set_zset key z' (open_zset key s) = set_zset key z' s" using assms(1) by (rule open_zset_at) blast
  let ?z = "z\<lparr>isGeo := True\<rparr>"
  have inv: "zset_inv ?z" using z(2) by (simp add: zset_inv_def)
  obtain f z' where f: "insert_zset ?z mem r = (f, z')" by (cases "insert_zset ?z mem r")
  show ?thesis
    using zset.add_inv [OF inv, of mem r] zset.add_map [OF inv, of mem r] zset.add_flag [OF inv, of mem r]
      assms(2,3) z(3) by (auto simp: handle_geoadd_def z f)
qed

lemma handle_geopos_rep:
  assumes "zset_at s key m" "ctx_command c = Some (GeoPosCommand key [mem])" "clients s (client c) \<noteq> None"
    "m mem = Some r" "decode_score r = Some a"
  shows "\<exists>s'. handle_geopos e s c = Some (s', c) \<and>
    buffer_of s' (client c) = buffer_of s (client c) @ ''*'' @ nat_to_string 1 @ CRLF @ ''*'' @ nat_to_string 2 @ CRLF @
      bulk (fixed e 14 (centre (longitude a))) @ bulk (fixed e 14 (centre (latitude a)))"
  using assms(1)
proof (cases rule: zset_at_cases)
  case (Present z)
  then show ?thesis using assms
    by (auto simp: handle_geopos_def respond_checked_def score_zset_def buffer_of_def resp_simps)
qed (use assms in simp)

text \<open>
  A search returns the members whose cell is within the radius, in the order the hash map
  is walked. Scores that are cells of the location commands never fault.
\<close>

lemma geosearch_loop_filter:
  assumes "\<forall>(mem, r) \<in> set ms'. decode_score r = Some (area r)"
  shows "geosearch_loop c radius ms' acc =
    Some (acc @ map fst (filter (\<lambda>(mem, r). calculateDistance c (area r) \<le> radius) ms'))"
  using assms by (induction ms' arbitrary: acc) auto

lemma handle_geosearch_rep:
  assumes "zset_at s key m" "ctx_command c = Some (GeoSearchCommand key lon lat radius)"
    "clients s (client c) \<noteq> None" "store s key \<noteq> None"
    "set (member_order e m) = {(x, r). m x = Some r}"
    "\<forall>r \<in> ran m. decode_score r = Some (area r)"
  shows "\<exists>s' found. handle_geosearch e s c = Some (s', c) \<and> store s' = store s \<and>
    buffer_of s' (client c) = encode_bulk_string_array (buffer_of s (client c)) found \<and>
    set found = {x. \<exists>r. m x = Some r \<and> calculateDistance (center_area lon lat) (area r) \<le> radius}"
  using assms(1)
proof (cases rule: zset_at_cases)
  case (Present z)
  have "\<forall>(mem, r) \<in> set (member_order e m). decode_score r = Some (area r)"
    using assms(5,6) by (auto simp: ran_def)
  note loop = geosearch_loop_filter [OF this]
  let ?found = "map fst (filter (\<lambda>(mem, r). calculateDistance (center_area lon lat) (area r) \<le> radius)
    (member_order e m))"
  have "set ?found = {x. \<exists>r. m x = Some r \<and> calculateDistance (center_area lon lat) (area r) \<le> radius}"
    using assms(5) by (force simp: image_iff)
  moreover have "handle_geosearch e s c = Some (respond c (\<lambda>b. encode_bulk_string_array b ?found) s, c)"
    using Present assms(2) by (simp add: handle_geosearch_def getAllWithScores_def loop)
  ultimately show ?thesis using assms(3) by (intro exI [of _ "respond c _ s"] exI [of _ ?found]) simp
qed (use assms in simp)

end
