(* ===== verification/Db_Lists.thy ===== *)
theory Db_Lists
  imports Db_State
begin

text \<open>
  The handlers on lists and the blocked clients: \<open>src/src/db/PUSH\<close>, \<open>LLEN\<close>, \<open>LPOP\<close>,
  \<open>LRANGE\<close>, \<open>BLPOP\<close>, \<open>signal_key_ready\<close> and \<open>check_and_expire_blocked_clients\<close> of
  \<open>src/src/db/db.cpp\<close>. A null list pointer that is followed and a key of another type
  under the \<open>assert\<close> of \<open>append_to_existing_list\<close> are faults. The theorems: on a
  well-formed list the handlers act as the list operations of their commands and reply
  accordingly; blocked clients are served in the order they came, and at a timeout exactly
  the expired ones are answered and dropped.
\<close>

section \<open>Definitions\<close>

definition create_new_list :: "env \<Rightarrow> state \<Rightarrow> string \<Rightarrow> string \<Rightarrow> bool \<Rightarrow> (nat \<times> state) option" where
  "create_new_list e s key value is_prepend = do {
     listpackptr \<leftarrow> lpNew (alloc e) 20;
     lp \<leftarrow> listpackptr;
     listpackptr \<leftarrow> lp_push is_prepend (alloc e) lp value;
     Some (1, s\<lparr>store := (store s)(key \<mapsto> LIST_PACK listpackptr)\<rparr>) }"

definition append_to_existing_list :: "env \<Rightarrow> RedisObject \<Rightarrow> string \<Rightarrow> bool \<Rightarrow> (nat \<times> RedisObject) option" where
  "append_to_existing_list e redisObject value is_prepend =
     (case redisObject of
        LIST_PACK (Some lp) \<Rightarrow> do {
          listpackPtr \<leftarrow> lp_push is_prepend (alloc e) lp value;
          lp \<leftarrow> listpackPtr;
          len \<leftarrow> lpGetTotalNumElements lp;
          Some (len, LIST_PACK (Some lp)) }
      | _ \<Rightarrow> None)"

definition push_value_to_list :: "env \<Rightarrow> state \<Rightarrow> string \<Rightarrow> string \<Rightarrow> bool \<Rightarrow> (nat \<times> state) option" where
  "push_value_to_list e s key value is_prepend =
     (case store s key of
        None \<Rightarrow> create_new_list e s key value is_prepend
      | Some obj \<Rightarrow> do {
          (len, obj) \<leftarrow> append_to_existing_list e obj value is_prepend;
          Some (len, s\<lparr>store := (store s)(key \<mapsto> obj)\<rparr>) })"

fun push_values :: "env \<Rightarrow> state \<Rightarrow> string \<Rightarrow> bool \<Rightarrow> string list \<Rightarrow> nat \<Rightarrow> (nat \<times> state) option" where
  "push_values e s key is_prepend [] len = Some (len, s)"
| "push_values e s key is_prepend (v # vs) len = do {
     (len, s) \<leftarrow> push_value_to_list e s key v is_prepend;
     push_values e s key is_prepend vs len }"

text \<open>A queue of blocked clients without its first element; an empty one is erased.\<close>

definition set_queue :: "string \<Rightarrow> 'b list \<Rightarrow> (string \<rightharpoonup> 'b list) \<Rightarrow> (string \<rightharpoonup> 'b list)" where
  "set_queue key q m = m(key := (if q = [] then None else Some q))"

definition handle_push :: "env \<Rightarrow> state \<Rightarrow> ClientContext \<Rightarrow> bool \<Rightarrow> string \<Rightarrow> string list \<Rightarrow> step" where
  "handle_push e s c is_prepend key values =
     (case (blocked_keys s key, values) of
        (Some (b # bs), first_value # rest) \<Rightarrow> do {
          let s = s\<lparr>blocked_keys := set_queue key bs (blocked_keys s)\<rparr>;
          let (s, c) = (if clients s (blocked_cid b) \<noteq> None
            then (write_to (blocked_cid b) (\<lambda>w. encode_bulk_string_array w [key, first_value]) s,
                  c\<lparr>unblocked_client_fd := blocked_fd b\<rparr>)
            else (s, c));
          (len, s) \<leftarrow> push_values e s key is_prepend rest 0;
          Some (respond c (\<lambda>w. encode_integer w (int (length values))) s, c) }
      | _ \<Rightarrow> do {
          (len, s) \<leftarrow> push_values e s key is_prepend values 0;
          let s = mark_watching_clients_dirty key s;
          Some (respond c (\<lambda>w. encode_integer w (int len)) s, c) })"

definition handle_llen :: "state \<Rightarrow> ClientContext \<Rightarrow> string \<Rightarrow> step" where
  "handle_llen s c key =
     (case store s key of
        Some (LIST_PACK (Some lp)) \<Rightarrow> do {
          (list_length, lp) \<leftarrow> lpLength lp;
          let s = s\<lparr>store := (store s)(key \<mapsto> LIST_PACK (Some lp))\<rparr>;
          Some (respond c (\<lambda>w. encode_integer w (int list_length)) s, c) }
      | _ \<Rightarrow> Some (respond c (\<lambda>w. encode_integer w 0) s, c))"

text \<open>The reply of \<open>LPOP\<close> to the values popped.\<close>

definition pop_reply :: "string list \<Rightarrow> string \<Rightarrow> string" where
  "pop_reply result w =
     (case result of
        [] \<Rightarrow> encode_null_bulk_string w
      | [v] \<Rightarrow> encode_bulk_string w v
      | _ \<Rightarrow> encode_bulk_string_array w result)"

definition handle_lpop :: "env \<Rightarrow> state \<Rightarrow> ClientContext \<Rightarrow> string \<Rightarrow> nat option \<Rightarrow> step" where
  "handle_lpop e s c key count =
     (case store s key of
        Some (LIST_PACK (Some lp)) \<Rightarrow> do {
          (result, listPack) \<leftarrow> pop_loop (lp_pop (alloc e)) (case count of None \<Rightarrow> 1 | Some n \<Rightarrow> n) (Some lp) [];
          let s = s\<lparr>store := (store s)(key \<mapsto> LIST_PACK listPack)\<rparr>;
          let s = (if result \<noteq> [] then mark_watching_clients_dirty key s else s);
          Some (respond c (pop_reply result) s, c) }
      | _ \<Rightarrow> Some (respond c encode_null_bulk_string s, c))"

text \<open>The loop of \<open>LRANGE\<close> over \<open>n\<close> indices.\<close>

fun lrange_loop :: "byte list \<Rightarrow> nat \<Rightarrow> int \<Rightarrow> string list \<Rightarrow> string list option" where
  "lrange_loop lp 0 index result = Some result"
| "lrange_loop lp (Suc n) index result = do {
     p \<leftarrow> lpSeek lp index;
     (case p of
        None \<Rightarrow> Some result
      | Some p \<Rightarrow> do {
          v \<leftarrow> lp_value_string lp p;
          lrange_loop lp n (index + 1) (result @ [v]) }) }"

text \<open>The two indices, counted from the end when negative and clamped; \<open>None\<close> is an empty range.\<close>

definition lrange_bounds :: "nat \<Rightarrow> int \<Rightarrow> int \<Rightarrow> (int \<times> int) option" where
  "lrange_bounds list_length start stop =
     (let start = (if start < 0 then to_int64 (int list_length + start) else start);
          stop = (if stop < 0 then to_int64 (int list_length + stop) else stop);
          start = (if start < 0 then 0 else start)
      in if stop < 0 then None
         else if int list_length \<le> start then None
         else Some (start, if int list_length \<le> stop then int list_length - 1 else stop))"

definition handle_lrange :: "state \<Rightarrow> ClientContext \<Rightarrow> string \<Rightarrow> int \<Rightarrow> int \<Rightarrow> step" where
  "handle_lrange s c key start stop =
     (case store s key of
        Some (LIST_PACK (Some lp)) \<Rightarrow> do {
          (list_length, lp) \<leftarrow> lpLength lp;
          let s = s\<lparr>store := (store s)(key \<mapsto> LIST_PACK (Some lp))\<rparr>;
          (case lrange_bounds list_length start stop of
             None \<Rightarrow> Some (respond c encode_empty_array s, c)
           | Some (start, stop) \<Rightarrow> do {
               result \<leftarrow> lrange_loop lp (nat (stop - start + 1)) start [];
               Some (respond c (\<lambda>w. encode_bulk_string_array w result) s, c) }) }
      | _ \<Rightarrow> Some (respond c encode_empty_array s, c))"

text \<open>The constructor of \<open>BlockedClient\<close> from a timeout in milliseconds.\<close>

definition deadline :: "time \<Rightarrow> real \<Rightarrow> real \<Rightarrow> time option option" where
  "deadline now timeout timeout_ms =
     (if timeout = 0 then Some None
      else do {
        n \<leftarrow> chk64 (trunc_real timeout_ms);
        t \<leftarrow> later now 1000000 n;
        Some (Some t) })"

definition block_client :: "env \<Rightarrow> state \<Rightarrow> ClientContext \<Rightarrow> string \<Rightarrow> real \<Rightarrow> step" where
  "block_client e s c key timeout = do {
     t \<leftarrow> deadline (steady_now e) timeout (timeout * 1000);
     let b = \<lparr>blocked_cid = client c, blocked_fd = client_fd c, timeout_at = t\<rparr>;
     let q = (case blocked_keys s key of None \<Rightarrow> [] | Some q \<Rightarrow> q);
     Some (s\<lparr>blocked_keys := (blocked_keys s)(key \<mapsto> q @ [b])\<rparr>, c\<lparr>isBlocked := True\<rparr>) }"

definition handle_blpop :: "env \<Rightarrow> state \<Rightarrow> ClientContext \<Rightarrow> string list \<Rightarrow> real \<Rightarrow> step" where
  "handle_blpop e s c keys timeout =
     (let key = (case keys of [] \<Rightarrow> [] | k # _ \<Rightarrow> k)
      in case store s key of
           None \<Rightarrow> block_client e s c key timeout
         | Some (LIST_PACK (Some lp)) \<Rightarrow> do {
             r \<leftarrow> lp_pop (alloc e) lp;
             (case r of
                None \<Rightarrow> block_client e s c key timeout
              | Some (v, lp) \<Rightarrow>
                  let s = s\<lparr>store := (store s)(key \<mapsto> LIST_PACK lp)\<rparr>
                  in Some (respond c (\<lambda>w. encode_bulk_string_array w [key, v]) s, c)) }
         | Some _ \<Rightarrow> Some (respond c encode_null_bulk_string s, c))"

definition signal_key_ready :: "state \<Rightarrow> ClientContext \<Rightarrow> string \<Rightarrow> state \<times> ClientContext" where
  "signal_key_ready s c key =
     (case blocked_keys s key of
        Some (b # bs) \<Rightarrow>
          (s\<lparr>blocked_keys := set_queue key bs (blocked_keys s)\<rparr>,
           if clients s (blocked_cid b) \<noteq> None then c\<lparr>unblocked_client_fd := blocked_fd b\<rparr> else c)
      | _ \<Rightarrow> (s, c))"

text \<open>One queue at a timeout: the clients kept, the state and the descriptors to flush.\<close>

fun expire_queue ::
  "time \<Rightarrow> 'b BlockedClient_scheme list \<Rightarrow> state \<Rightarrow> 'b BlockedClient_scheme list \<times> state \<times> int list" where
  "expire_queue now [] s = ([], s, [])"
| "expire_queue now (b # q) s =
     (if is_expired now b then
        let alive = (clients s (blocked_cid b) \<noteq> None);
            (q', s', fds) = expire_queue now q (write_to (blocked_cid b) (\<lambda>w. w @ ''*-1'' @ CRLF) s)
        in (q', s', if alive then blocked_fd b # fds else fds)
      else let (q', s', fds) = expire_queue now q s in (b # q', s', fds))"

text \<open>
  \<open>check_and_expire_blocked_clients\<close>: \<open>ks\<close> and \<open>xks\<close> are the keys in the iteration order of
  the two hash maps.
\<close>

fun expire_blocked :: "time \<Rightarrow> string list \<Rightarrow> state \<Rightarrow> state \<times> int list" where
  "expire_blocked now [] s = (s, [])"
| "expire_blocked now (k # ks) s =
     (let q = (case blocked_keys s k of None \<Rightarrow> [] | Some q \<Rightarrow> q);
          (q', s, fds) = expire_queue now q s;
          (s, fds') = expire_blocked now ks (s\<lparr>blocked_keys := set_queue k q' (blocked_keys s)\<rparr>)
      in (s, fds @ fds'))"

fun expire_blocked_xread :: "time \<Rightarrow> string list \<Rightarrow> state \<Rightarrow> state \<times> int list" where
  "expire_blocked_xread now [] s = (s, [])"
| "expire_blocked_xread now (k # ks) s =
     (let q = (case blocked_xread_keys s k of None \<Rightarrow> [] | Some q \<Rightarrow> q);
          (q', s, fds) = expire_queue now q s;
          (s, fds') = expire_blocked_xread now ks
            (s\<lparr>blocked_xread_keys := set_queue k q' (blocked_xread_keys s)\<rparr>)
      in (s, fds @ fds'))"

definition check_and_expire_blocked_clients ::
  "time \<Rightarrow> string list \<Rightarrow> string list \<Rightarrow> state \<Rightarrow> state \<times> int list" where
  "check_and_expire_blocked_clients now ks xks s =
     (let (s, fds) = expire_blocked now ks s; (s, fds') = expire_blocked_xread now xks s
      in (s, fds @ fds'))"

text \<open>The earliest deadline of the first clients of the queues; \<open>None\<close> is \<open>max()\<close>.\<close>

definition min_time :: "time option \<Rightarrow> time option \<Rightarrow> time option" where
  "min_time t m =
     (case (t, m) of (None, _) \<Rightarrow> m | (Some a, None) \<Rightarrow> Some a | (Some a, Some b) \<Rightarrow> Some (if a < b then a else b))"

definition front_deadline :: "'b BlockedClient_scheme list option \<Rightarrow> time option" where
  "front_deadline q = (case q of Some (b # _) \<Rightarrow> timeout_at b | _ \<Rightarrow> None)"

definition get_next_timeout_ms :: "time \<Rightarrow> string list \<Rightarrow> string list \<Rightarrow> 'a DB_scheme \<Rightarrow> int" where
  "get_next_timeout_ms now ks xks s =
     (let m = fold (\<lambda>k. min_time (front_deadline (blocked_keys s k))) ks None;
          m = fold (\<lambda>k. min_time (front_deadline (blocked_xread_keys s k))) xks m
      in case m of
           None \<Rightarrow> - 1
         | Some t \<Rightarrow>
             let d = (if t < now then - ((now - t) div 1000000) else (t - now) div 1000000)
             in if d \<le> 0 then 0 else to_int32 d)"

section \<open>A key as a list of strings\<close>

definition list_at :: "'a DB_scheme \<Rightarrow> string \<Rightarrow> string list \<Rightarrow> bool" where
  "list_at s key xs \<longleftrightarrow>
     (case store s key of
        None \<Rightarrow> xs = []
      | Some (LIST_PACK (Some lp)) \<Rightarrow> lp_strings lp xs
      | Some _ \<Rightarrow> False)"

lemma list_at_cases [consumes 1, case_names Absent Present]:
  assumes "list_at s key xs"
  obtains (Absent) "store s key = None" "xs = []"
  | (Present) lp where "store s key = Some (LIST_PACK (Some lp))" "lp_strings lp xs"
  using assms by (auto simp: list_at_def split: option.splits RedisObject.splits)

lemma list_at_store: "lp_strings lp xs \<Longrightarrow> list_at (s\<lparr>store := (store s)(key \<mapsto> LIST_PACK (Some lp))\<rparr>) key xs"
  by (simp add: list_at_def)

lemma list_at_write [simp]:
  "list_at (write_to c f s) key xs = list_at s key xs"
  "list_at (mark_watching_clients_dirty k s) key xs = list_at s key xs"
  by (simp_all add: list_at_def)

text \<open>What a push of several values does to a list.\<close>

definition pushed :: "bool \<Rightarrow> 'x list \<Rightarrow> 'x list \<Rightarrow> 'x list" where
  "pushed is_prepend xs vs = (if is_prepend then rev vs @ xs else xs @ vs)"

lemma pushed_simps [simp]:
  "pushed p xs [] = xs" "length (pushed p xs vs) = length xs + length vs"
  by (simp_all add: pushed_def)

lemma pushed_Cons: "pushed p (pushed p xs [v]) vs = pushed p xs (v # vs)"
  by (simp add: pushed_def)

lemma lp_fits_pushed: "lp_fits a (pushed p xs (v # vs)) \<Longrightarrow> lp_fits a (pushed p xs [v])"
  using lp.fits_appendD [of a "rev vs"] lp.fits_appendD [of a "xs @ [v]" vs]
  by (auto simp: pushed_def split: if_splits)

lemma lp_push_one:
  "lp_strings lp xs \<Longrightarrow> lp_fits a (pushed p xs [v]) \<Longrightarrow>
     \<exists>lp'. lp_push p a lp v = Some (Some lp') \<and> lp_strings lp' (pushed p xs [v])"
  using lp.push_back_rep [of lp xs a v] lp.push_front_rep [of lp xs a v]
  by (cases p) (auto simp: pushed_def)

lemma lp_strings_num:
  assumes "lp_strings lp xs"
  obtains n where "lpGetTotalNumElements lp = Some n" "n = length xs \<or> n = 65535"
  using assms by (auto simp: lp_strings_def elim!: lp_rep_num)

lemma push_value_rep:
  assumes "list_at s key xs" "lp_fits (alloc e) (pushed p xs [v])"
  shows "\<exists>n st. push_value_to_list e s key v p = Some (n, s\<lparr>store := st\<rparr>) \<and>
    list_at (s\<lparr>store := st\<rparr>) key (pushed p xs [v]) \<and> (\<forall>k. k \<noteq> key \<longrightarrow> st k = store s k) \<and>
    (n = length (pushed p xs [v]) \<or> n = 65535)"
  using assms(1)
proof (cases rule: list_at_cases)
  case Absent
  obtain lp where lp: "lpNew (alloc e) 20 = Some (Some lp)" "lp_strings lp []"
    using lpNew_rep [of "alloc e" 20] assms(2) unfolding lp_fits_def by fastforce
  obtain lp' where lp': "lp_push p (alloc e) lp v = Some (Some lp')" "lp_strings lp' (pushed p [] [v])"
    using lp_push_one [OF lp(2)] assms(2) Absent by blast
  show ?thesis
    by (rule exI [of _ 1], rule exI [of _ "(store s)(key \<mapsto> LIST_PACK (Some lp'))"])
      (use Absent lp lp' in \<open>auto simp: push_value_to_list_def create_new_list_def list_at_store\<close>)
next
  case (Present lp)
  obtain lp' where lp': "lp_push p (alloc e) lp v = Some (Some lp')" "lp_strings lp' (pushed p xs [v])"
    using lp_push_one [OF Present(2) assms(2)] by blast
  obtain n where n: "lpGetTotalNumElements lp' = Some n" "n = length (pushed p xs [v]) \<or> n = 65535"
    using lp'(2) by (rule lp_strings_num)
  show ?thesis
    by (rule exI [of _ n], rule exI [of _ "(store s)(key \<mapsto> LIST_PACK (Some lp'))"])
      (use Present lp' n in \<open>auto simp: push_value_to_list_def append_to_existing_list_def list_at_store\<close>)
qed

lemma push_values_rep:
  assumes "list_at s key xs" "lp_fits (alloc e) (pushed p xs vs)"
  shows "\<exists>n st. push_values e s key p vs m = Some (n, s\<lparr>store := st\<rparr>) \<and>
    list_at (s\<lparr>store := st\<rparr>) key (pushed p xs vs) \<and> (\<forall>k. k \<noteq> key \<longrightarrow> st k = store s k) \<and>
    (n = (if vs = [] then m else length (pushed p xs vs)) \<or> n = 65535)"
  using assms
proof (induction vs arbitrary: s xs m)
  case Nil
  then show ?case by (intro exI [of _ m] exI [of _ "store s"]) simp
next
  case (Cons v vs)
  obtain n st where 1: "push_value_to_list e s key v p = Some (n, s\<lparr>store := st\<rparr>)"
    "list_at (s\<lparr>store := st\<rparr>) key (pushed p xs [v])" "\<forall>k. k \<noteq> key \<longrightarrow> st k = store s k"
    "n = length (pushed p xs [v]) \<or> n = 65535"
    using push_value_rep [OF Cons.prems(1) lp_fits_pushed [OF Cons.prems(2)]] by blast
  from Cons.IH [OF 1(2), of n] Cons.prems(2) obtain n' st' where
    "push_values e (s\<lparr>store := st\<rparr>) key p vs n = Some (n', s\<lparr>store := st'\<rparr>)"
    "list_at (s\<lparr>store := st'\<rparr>) key (pushed p xs (v # vs))" "\<forall>k. k \<noteq> key \<longrightarrow> st' k = st k"
    "n' = (if vs = [] then n else length (pushed p xs (v # vs))) \<or> n' = 65535"
    by (auto simp: pushed_Cons)
  then show ?case using 1 by (intro exI [of _ n'] exI [of _ st']) (auto split: if_splits)
qed

section \<open>The list commands\<close>

text \<open>\<open>RPUSH\<close> and \<open>LPUSH\<close> without a client waiting.\<close>

lemma handle_push_rep:
  assumes "list_at s key xs" "lp_fits (alloc e) (pushed p xs vs)" "vs \<noteq> []"
    "blocked_keys s key = None" "clients s (client c) \<noteq> None"
  shows "\<exists>s' n. handle_push e s c p key vs = Some (s', c) \<and> list_at s' key (pushed p xs vs) \<and>
    (\<forall>k. k \<noteq> key \<longrightarrow> store s' k = store s k) \<and> expiration s' = expiration s \<and>
    buffer_of s' (client c) = encode_integer (buffer_of s (client c)) (int n) \<and>
    (n = length xs + length vs \<or> n = 65535)"
proof -
  obtain n st where *: "push_values e s key p vs 0 = Some (n, s\<lparr>store := st\<rparr>)"
    "list_at (s\<lparr>store := st\<rparr>) key (pushed p xs vs)" "\<forall>k. k \<noteq> key \<longrightarrow> st k = store s k"
    "n = length xs + length vs \<or> n = 65535"
    using push_values_rep [OF assms(1,2), of 0] assms(3) by auto
  have "clients (mark_watching_clients_dirty key (s\<lparr>store := st\<rparr>)) (client c) \<noteq> None"
    using assms(5) by (simp add: clients_mark_dirty)
  with * show ?thesis using assms(4) by (auto simp: handle_push_def)
qed

text \<open>A push with a client waiting hands the first value to the one that waits longest.\<close>

lemma handle_push_blocked:
  assumes "list_at s key xs" "lp_fits (alloc e) (pushed p xs vs)"
    "blocked_keys s key = Some (b # bs)" "clients s (blocked_cid b) \<noteq> None" "blocked_cid b \<noteq> client c"
  shows "\<exists>s'. handle_push e s c p key (v # vs) = Some (s', c\<lparr>unblocked_client_fd := blocked_fd b\<rparr>) \<and>
    list_at s' key (pushed p xs vs) \<and>
    blocked_keys s' key = (if bs = [] then None else Some bs) \<and>
    buffer_of s' (blocked_cid b) = encode_bulk_string_array (buffer_of s (blocked_cid b)) [key, v]"
proof -
  let ?s1 = "write_to (blocked_cid b) (\<lambda>w. encode_bulk_string_array w [key, v])
    (s\<lparr>blocked_keys := set_queue key bs (blocked_keys s)\<rparr>)"
  have "list_at ?s1 key xs" using assms(1) by (simp add: list_at_def)
  from push_values_rep [OF this assms(2), of 0] obtain n st where *:
    "push_values e ?s1 key p vs 0 = Some (n, ?s1\<lparr>store := st\<rparr>)" "list_at (?s1\<lparr>store := st\<rparr>) key (pushed p xs vs)"
    by blast
  then have "handle_push e s c p key (v # vs) = Some (write_to (client c)
      (\<lambda>w. encode_integer w (int (Suc (length vs)))) (?s1\<lparr>store := st\<rparr>), c\<lparr>unblocked_client_fd := blocked_fd b\<rparr>)"
    using assms(3,4) by (simp add: handle_push_def Let_def)
  with * show ?thesis using assms(4,5) by (auto simp: set_queue_def buffer_of_def split: option.split)
qed

lemma handle_lpop_rep:
  assumes "list_at s key xs" "lp_fits (alloc e) xs" "clients s (client c) \<noteq> None"
    "n = (case count of None \<Rightarrow> 1 | Some n \<Rightarrow> n)"
  shows "\<exists>s'. handle_lpop e s c key count = Some (s', c) \<and> list_at s' key (drop n xs) \<and>
    (\<forall>k. k \<noteq> key \<longrightarrow> store s' k = store s k) \<and> expiration s' = expiration s \<and>
    buffer_of s' (client c) = pop_reply (take n xs) (buffer_of s (client c))"
  using assms(1)
proof (cases rule: list_at_cases)
  case Absent
  then show ?thesis using assms by (simp add: handle_lpop_def pop_reply_def list_at_def)
next
  case (Present lp)
  obtain lp' where lp': "pop_loop (lp_pop (alloc e)) n (Some lp) [] = Some (take n xs, Some lp')"
    "lp_strings lp' (drop n xs)"
    using lp.pop_loop_rep [OF Present(2) assms(2), of n "[]"] by auto
  have "clients (mark_watching_clients_dirty key (s\<lparr>store := (store s)(key \<mapsto> LIST_PACK (Some lp'))\<rparr>)) (client c) \<noteq> None"
    using assms(3) by (simp add: clients_mark_dirty)
  with lp' show ?thesis using Present assms(3,4)
    by (auto simp: handle_lpop_def pop_reply_def Let_def list_at_store)
qed

lemma handle_llen_rep:
  assumes "list_at s key xs" "list_all narrow_string xs" "clients s (client c) \<noteq> None"
  shows "\<exists>s'. handle_llen s c key = Some (s', c) \<and> list_at s' key xs \<and>
    buffer_of s' (client c) = encode_integer (buffer_of s (client c)) (int (length xs))"
  using assms(1)
proof (cases rule: list_at_cases)
  case Absent
  then show ?thesis using assms by (simp add: handle_llen_def list_at_def)
next
  case (Present lp)
  obtain lp' where "lpLength lp = Some (length xs, lp')" "lp_strings lp' xs"
    using lpLength_strings [OF Present(2) assms(2)] by blast
  then show ?thesis using Present assms(3) by (simp add: handle_llen_def Let_def list_at_store)
qed

text \<open>\<open>LRANGE\<close>: the elements between the clamped indices.\<close>

lemma lrange_loop_rep:
  assumes "lp_strings lp xs" "list_all narrow_string xs" "i + n \<le> length xs"
  shows "lrange_loop lp n (int i) acc = Some (acc @ take n (drop i xs))"
  using assms(3)
proof (induction n arbitrary: i acc)
  case (Suc n)
  then have i: "i < length xs" by simp
  then obtain p where "lpSeek lp (int i) = Some (Some p)" "lp_value_string lp p = Some (xs ! i)"
    using lpSeek_strings [OF assms(1,2), of "int i"] by (auto simp: seek_index_def)
  moreover have "take (Suc n) (drop i xs) = xs ! i # take n (drop (Suc i) xs)"
    using i by (simp add: Cons_nth_drop_Suc [symmetric])
  ultimately show ?case using Suc.IH [of "Suc i" "acc @ [xs ! i]"] Suc.prems by (simp add: add.commute)
qed simp

definition list_range :: "'x list \<Rightarrow> int \<Rightarrow> int \<Rightarrow> 'x list" where
  "list_range xs start stop = map ((!) xs) (clamp_range (length xs) start stop)"

lemma clamp_range_slice:
  assumes "0 \<le> a" "b < int n" "a \<le> b"
  shows "filter (\<lambda>i. a \<le> int i \<and> int i \<le> b) [0..<n] = [nat a..<Suc (nat b)]"
proof -
  have "filter (\<lambda>i. a \<le> int i \<and> int i \<le> b) [0..<n] = filter (\<lambda>i. nat a \<le> i \<and> i \<le> nat b) [0..<n]"
    using assms by (intro filter_cong) auto
  then show ?thesis using assms filter_between_upt [of "nat b" n "nat a"] by simp
qed

lemma map_nth_slice: "b \<le> length xs \<Longrightarrow> map ((!) xs) [a..<b] = take (b - a) (drop a xs)"
  by (simp add: list_eq_iff_nth_eq)

lemma to_int64_index: "i < 0 \<Longrightarrow> int64_range i \<Longrightarrow> n \<le> INT64_MAX \<Longrightarrow> to_int64 (int n + i) = int n + i"
  by (simp add: to_int64_def int64_range_def)

lemma lrange_bounds_int:
  assumes "int64_range start" "int64_range stop" "n \<le> INT64_MAX"
  shows "lrange_bounds n start stop =
     (let start = (if start < 0 then int n + start else start);
          stop = (if stop < 0 then int n + stop else stop);
          start = (if start < 0 then 0 else start)
      in if stop < 0 \<or> int n \<le> start then None
         else Some (start, if int n \<le> stop then int n - 1 else stop))"
  using to_int64_index [of start n] to_int64_index [of stop n] assms
  by (simp add: lrange_bounds_def Let_def)

lemma list_range_bounds:
  assumes "int64_range start" "int64_range stop" "length xs \<le> INT64_MAX"
  shows "list_range xs start stop =
     (case lrange_bounds (length xs) start stop of
        None \<Rightarrow> [] | Some (a, b) \<Rightarrow> take (nat (b - a + 1)) (drop (nat a) xs))"
proof -
  let ?n = "length xs"
  let ?a = "if start < 0 then int ?n + start else start" and ?b = "if stop < 0 then int ?n + stop else stop"
  have F: "list_range xs start stop = map ((!) xs) (filter (\<lambda>i. ?a \<le> int i \<and> int i \<le> ?b) [0..<?n])"
    by (simp add: list_range_def clamp_range_def)
  show ?thesis
  proof (cases "lrange_bounds ?n start stop")
    case None
    then have "?b < 0 \<or> int ?n \<le> (if ?a < 0 then 0 else ?a)"
      unfolding lrange_bounds_int [OF assms] Let_def by (metis option.distinct(1))
    then have "filter (\<lambda>i. ?a \<le> int i \<and> int i \<le> ?b) [0..<?n] = []"
      by (auto simp: filter_empty_conv split: if_splits)
    then show ?thesis using F None by simp
  next
    case (Some ab)
    then obtain a b where ab: "ab = (a, b)" by force
    have a: "a = max ?a 0" and b: "b = min ?b (int ?n - 1)" and bounds: "0 \<le> ?b" "a < int ?n"
      using Some unfolding ab lrange_bounds_int [OF assms] Let_def by (auto split: if_splits)
    have "filter (\<lambda>i. ?a \<le> int i \<and> int i \<le> ?b) [0..<?n] = filter (\<lambda>i. a \<le> int i \<and> int i \<le> b) [0..<?n]"
      unfolding a b by (intro filter_cong) auto
    moreover have "map ((!) xs) (filter (\<lambda>i. a \<le> int i \<and> int i \<le> b) [0..<?n]) =
        take (nat (b - a + 1)) (drop (nat a) xs)"
    proof (cases "a \<le> b")
      case True
      have "0 \<le> a" "b < int ?n" unfolding a b by simp_all
      moreover from this True have "nat (b - a + 1) = Suc (nat b) - nat a" "Suc (nat b) \<le> ?n" by simp_all
      ultimately show ?thesis
        using clamp_range_slice [of a b ?n] map_nth_slice [of "Suc (nat b)" xs "nat a"] True by simp
    next
      case False
      then have "filter (\<lambda>i. a \<le> int i \<and> int i \<le> b) [0..<?n] = []" by (auto simp: filter_empty_conv)
      with False show ?thesis by simp
    qed
    ultimately show ?thesis using F Some ab by simp
  qed
qed

lemma handle_lrange_rep:
  assumes "list_at s key xs" "list_all narrow_string xs" "clients s (client c) \<noteq> None"
    "int64_range start" "int64_range stop" "length xs \<le> INT64_MAX"
  shows "\<exists>s'. handle_lrange s c key start stop = Some (s', c) \<and> list_at s' key xs \<and>
    buffer_of s' (client c) = encode_bulk_string_array (buffer_of s (client c)) (list_range xs start stop)"
  using assms(1)
proof (cases rule: list_at_cases)
  case Absent
  then show ?thesis using assms(3)
    by (simp add: handle_lrange_def list_at_def list_range_def clamp_range_def resp_simps nat_to_string_small)
next
  case (Present lp)
  obtain lp' where lp': "lpLength lp = Some (length xs, lp')" "lp_strings lp' xs"
    using lpLength_strings [OF Present(2) assms(2)] by blast
  have loop: "lrange_loop lp' (nat (b - a + 1)) a [] = Some (take (nat (b - a + 1)) (drop (nat a) xs))"
    if "lrange_bounds (length xs) start stop = Some (a, b)" for a b
    using that lrange_loop_rep [OF lp'(2) assms(2), of "nat a" "nat (b - a + 1)" "[]"]
    by (auto simp: lrange_bounds_int [OF assms(4-6)] Let_def split: if_splits)
  show ?thesis
    using Present lp' assms(3) loop list_range_bounds [OF assms(4-6)]
    by (auto simp: handle_lrange_def Let_def list_at_store resp_simps nat_to_string_small split: option.split)
qed

section \<open>Blocked clients\<close>

lemma handle_blpop_ready:
  assumes "list_at s key (x # xs)" "lp_fits (alloc e) (x # xs)" "clients s (client c) \<noteq> None"
  shows "\<exists>s'. handle_blpop e s c (key # ks) timeout = Some (s', c) \<and> list_at s' key xs \<and>
    buffer_of s' (client c) = encode_bulk_string_array (buffer_of s (client c)) [key, x]"
  using assms(1)
proof (cases rule: list_at_cases)
  case (Present lp)
  obtain lp' where "lp_pop (alloc e) lp = Some (Some (x, Some lp'))" "lp_strings lp' xs"
    using lp.pop_front_Cons [OF Present(2) assms(2)] by blast
  then show ?thesis using Present assms(3) by (simp add: handle_blpop_def Let_def list_at_store)
qed simp

text \<open>On an empty list the client joins the end of the queue of its key and gets no reply.\<close>

lemma handle_blpop_blocks:
  assumes "list_at s key []" "deadline (steady_now e) timeout (timeout * 1000) = Some t"
  shows "handle_blpop e s c (key # ks) timeout =
    Some (s\<lparr>blocked_keys := (blocked_keys s)(key \<mapsto>
        (case blocked_keys s key of None \<Rightarrow> [] | Some q \<Rightarrow> q) @
        [\<lparr>blocked_cid = client c, blocked_fd = client_fd c, timeout_at = t\<rparr>])\<rparr>, c\<lparr>isBlocked := True\<rparr>)"
  using assms(1)
proof (cases rule: list_at_cases)
  case Absent
  then show ?thesis using assms(2) by (simp add: handle_blpop_def block_client_def Let_def)
next
  case (Present lp)
  then show ?thesis using assms(2) lp.pop_front_Nil [OF Present(2)]
    by (simp add: handle_blpop_def block_client_def Let_def)
qed

lemma clients_dom_write: "clients (write_to c f s) x = None \<longleftrightarrow> clients s x = None"
  by simp

text \<open>Of a queue the clients that are not expired stay, in order; the others get a null array.\<close>

lemma expire_queue_eq:
  "expire_queue now q s =
     (filter (\<lambda>b. \<not> is_expired now b) q,
      fold (\<lambda>b. write_to (blocked_cid b) (\<lambda>w. w @ ''*-1'' @ CRLF)) (filter (is_expired now) q) s,
      map blocked_fd (filter (\<lambda>b. is_expired now b \<and> clients s (blocked_cid b) \<noteq> None) q))"
proof (induction q arbitrary: s)
  case (Cons b q)
  show ?case by (simp only: expire_queue.simps Cons.IH clients_dom_write Let_def prod.case filter.simps) simp
qed simp

lemma fold_write_fields [simp]:
  "store (fold (\<lambda>b. write_to (g b) (f b)) bs s) = store s"
  "expiration (fold (\<lambda>b. write_to (g b) (f b)) bs s) = expiration s"
  "blocked_keys (fold (\<lambda>b. write_to (g b) (f b)) bs s) = blocked_keys s"
  "blocked_xread_keys (fold (\<lambda>b. write_to (g b) (f b)) bs s) = blocked_xread_keys s"
  by (induction bs arbitrary: s) simp_all

text \<open>The queue of a key after a timeout round.\<close>

definition unexpired :: "time \<Rightarrow> 'b BlockedClient_scheme list option \<Rightarrow> 'b BlockedClient_scheme list option" where
  "unexpired now q = (case q of None \<Rightarrow> None
     | Some q \<Rightarrow> (let q' = filter (\<lambda>b. \<not> is_expired now b) q in if q' = [] then None else Some q'))"

lemma unexpired_idem [simp]: "unexpired now (unexpired now q) = unexpired now q"
  by (auto simp: unexpired_def Let_def filter_empty_conv split: option.split)

lemma set_queue_unexpired:
  "set_queue k' (filter (\<lambda>b. \<not> is_expired now b) (case q of None \<Rightarrow> [] | Some q \<Rightarrow> q)) m k =
     (if k = k' then unexpired now q else m k)"
  by (simp add: set_queue_def unexpired_def Let_def split: option.split)

lemma expire_blocked_keys:
  "blocked_keys (fst (expire_blocked now ks s)) k =
     (if k \<in> set ks then unexpired now (blocked_keys s k) else blocked_keys s k)"
  "blocked_xread_keys (fst (expire_blocked now ks s)) = blocked_xread_keys s"
  "store (fst (expire_blocked now ks s)) = store s"
proof (induction ks arbitrary: s)
  case (Cons k' ks)
  { case 1 show ?case by (simp add: Cons(1) expire_queue_eq Let_def split_def set_queue_unexpired) }
  { case 2 show ?case using Cons(2) by (simp add: expire_queue_eq Let_def split_def) }
  { case 3 show ?case using Cons(3) by (simp add: expire_queue_eq Let_def split_def) }
qed simp_all

lemma expire_blocked_xread_keys:
  "blocked_xread_keys (fst (expire_blocked_xread now ks s)) k =
     (if k \<in> set ks then unexpired now (blocked_xread_keys s k) else blocked_xread_keys s k)"
  "blocked_keys (fst (expire_blocked_xread now ks s)) = blocked_keys s"
  "store (fst (expire_blocked_xread now ks s)) = store s"
proof (induction ks arbitrary: s)
  case (Cons k' ks)
  { case 1 show ?case by (simp add: Cons(1) expire_queue_eq Let_def split_def set_queue_unexpired) }
  { case 2 show ?case using Cons(2) by (simp add: expire_queue_eq Let_def split_def) }
  { case 3 show ?case using Cons(3) by (simp add: expire_queue_eq Let_def split_def) }
qed simp_all

text \<open>With the keys of both maps as the iteration order, every queue is treated.\<close>

lemma check_and_expire_queues:
  assumes "dom (blocked_keys s) \<subseteq> set ks" "dom (blocked_xread_keys s) \<subseteq> set xks"
    "check_and_expire_blocked_clients now ks xks s = (s', fds)"
  shows "blocked_keys s' k = unexpired now (blocked_keys s k)"
    "blocked_xread_keys s' k = unexpired now (blocked_xread_keys s k)" "store s' = store s"
proof -
  have "unexpired now (blocked_keys s k) = blocked_keys s k" if "k \<notin> set ks" for k
    using that assms(1) by (auto simp: unexpired_def split: option.split)
  moreover have "unexpired now (blocked_xread_keys s k) = blocked_xread_keys s k" if "k \<notin> set xks" for k
    using that assms(2) by (auto simp: unexpired_def split: option.split)
  moreover have "s' = fst (expire_blocked_xread now xks (fst (expire_blocked now ks s)))"
    using assms(3) by (simp add: check_and_expire_blocked_clients_def Let_def split_def)
  ultimately show "blocked_keys s' k = unexpired now (blocked_keys s k)"
    "blocked_xread_keys s' k = unexpired now (blocked_xread_keys s k)" "store s' = store s"
    by (auto simp: expire_blocked_keys expire_blocked_xread_keys)
qed

text \<open>The poll timeout never sleeps past a deadline of a first client.\<close>

lemma min_time_le:
  "t = Some a \<Longrightarrow> \<exists>u. min_time t m = Some u \<and> u \<le> a"
  "m = Some a \<Longrightarrow> \<exists>u. min_time t m = Some u \<and> u \<le> a"
  by (simp_all add: min_time_def split: option.split)

lemma fold_min_time:
  "fold (\<lambda>k. min_time (f k)) ks m = Some t \<Longrightarrow>
     (\<forall>k \<in> set ks. \<forall>u. f k = Some u \<longrightarrow> t \<le> u) \<and> (\<forall>u. m = Some u \<longrightarrow> t \<le> u)"
proof (induction ks arbitrary: m)
  case (Cons k ks)
  then have *: "\<forall>k \<in> set ks. \<forall>u. f k = Some u \<longrightarrow> t \<le> u" "\<And>u. min_time (f k) m = Some u \<Longrightarrow> t \<le> u"
    by simp_all
  have "t \<le> a" if "f k = Some a" for a using min_time_le(1) [OF that, of m] *(2) by fastforce
  moreover have "t \<le> a" if "m = Some a" for a using min_time_le(2) [OF that, of "f k"] *(2) by fastforce
  ultimately show ?case using *(1) by simp
qed simp

lemma fold_min_time_None: "fold (\<lambda>k. min_time (f k)) ks m = None \<longleftrightarrow> m = None \<and> (\<forall>k \<in> set ks. f k = None)"
  by (induction ks arbitrary: m) (auto simp: min_time_def split: option.splits)

lemma get_next_timeout_bound:
  assumes "k \<in> set ks" "front_deadline (blocked_keys s k) = Some t" "t - now < 1000000 * 2147483648"
  shows "0 \<le> get_next_timeout_ms now ks xks s \<and>
    (now < t \<longrightarrow> now + get_next_timeout_ms now ks xks s * 1000000 \<le> t)"
proof -
  let ?m = "fold (\<lambda>k. min_time (front_deadline (blocked_keys s k))) ks None"
  let ?n = "fold (\<lambda>k. min_time (front_deadline (blocked_xread_keys s k))) xks ?m"
  have "?m \<noteq> None" using fold_min_time_None [of "\<lambda>k. front_deadline (blocked_keys s k)" ks None] assms(1,2) by auto
  then obtain u where u: "?m = Some u" by blast
  then have "u \<le> t" using fold_min_time [OF u] assms(1,2) by auto
  have "?n \<noteq> None" using u fold_min_time_None [of "\<lambda>k. front_deadline (blocked_xread_keys s k)" xks ?m] by auto
  then obtain v where v: "?n = Some v" by blast
  then have "v \<le> t" using fold_min_time [OF v] u \<open>u \<le> t\<close> by fastforce
  let ?d = "if v < now then - ((now - v) div 1000000) else (v - now) div 1000000"
  have r: "get_next_timeout_ms now ks xks s = (if ?d \<le> 0 then 0 else to_int32 ?d)"
    by (simp add: get_next_timeout_ms_def Let_def v)
  have "to_int32 ?d = ?d" if "0 < ?d"
    using that assms(3) \<open>v \<le> t\<close> by (auto simp: to_int32_def split: if_splits)
  with r \<open>v \<le> t\<close> show ?thesis by (auto split: if_splits)
qed


section \<open>Who is answered at a timeout\<close>

definition queue_of :: "(string \<rightharpoonup> 'b BlockedClient_scheme list) \<Rightarrow> string \<Rightarrow> 'b BlockedClient_scheme list" where
  "queue_of m k = (case m k of None \<Rightarrow> [] | Some q \<Rightarrow> q)"

text \<open>The number of expired entries of a client in the queues of some keys.\<close>

definition expired_entries :: "time \<Rightarrow> (string \<rightharpoonup> 'b BlockedClient_scheme list) \<Rightarrow> cid \<Rightarrow> string list \<Rightarrow> nat" where
  "expired_entries now m x ks =
     (\<Sum>k\<leftarrow>ks. length (filter (\<lambda>b. blocked_cid b = x) (filter (is_expired now) (queue_of m k))))"

definition null_arrays :: "nat \<Rightarrow> string" where
  "null_arrays n = concat (replicate n (''*-1'' @ CRLF))"

lemma null_arrays_add: "null_arrays (m + n) = null_arrays m @ null_arrays n"
  by (simp add: null_arrays_def replicate_add)

lemma expire_queue_buffer:
  assumes "clients s x \<noteq> None"
  shows "buffer_of (fold (\<lambda>b. write_to (blocked_cid b) (\<lambda>w. w @ ''*-1'' @ CRLF)) bs s) x =
    buffer_of s x @ null_arrays (length (filter (\<lambda>b. blocked_cid b = x) bs))"
  using assms
proof (induction bs arbitrary: s)
  case (Cons b bs)
  show ?case by (simp only: fold.simps comp_def Cons.IH clients_dom_write) (use Cons in \<open>simp add: null_arrays_def\<close>)
qed (simp add: null_arrays_def)

lemma expire_queue_clients:
  "(clients (fold (\<lambda>b. write_to (blocked_cid b) f) bs s) x = None) = (clients s x = None)"
  by (induction bs arbitrary: s) simp_all

lemma expired_entries_upd: "k \<notin> set ks \<Longrightarrow> expired_entries now (set_queue k q m) x ks = expired_entries now m x ks"
  unfolding expired_entries_def queue_of_def set_queue_def
  by (intro arg_cong [where f = sum_list] map_cong refl) auto

lemma expired_entries_Cons:
  "expired_entries now m x (k # ks) =
     length (filter (\<lambda>b. blocked_cid b = x) (filter (is_expired now) (queue_of m k))) + expired_entries now m x ks"
  by (simp add: expired_entries_def)

lemma expire_blocked_buffer:
  assumes "clients s x \<noteq> None" "distinct ks"
  shows "clients (fst (expire_blocked now ks s)) x \<noteq> None \<and>
    buffer_of (fst (expire_blocked now ks s)) x = buffer_of s x @ null_arrays (expired_entries now (blocked_keys s) x ks)"
  using assms
proof (induction ks arbitrary: s)
  case (Cons k ks)
  let ?q = "queue_of (blocked_keys s) k"
  let ?t = "fold (\<lambda>b. write_to (blocked_cid b) (\<lambda>w. w @ ''*-1'' @ CRLF)) (filter (is_expired now) ?q) s"
  let ?u = "?t\<lparr>blocked_keys := set_queue k (filter (\<lambda>b. \<not> is_expired now b) ?q) (blocked_keys s)\<rparr>"
  have e: "fst (expire_blocked now (k # ks) s) = fst (expire_blocked now ks ?u)"
    by (simp add: expire_queue_eq Let_def split_def queue_of_def)
  have u: "clients ?u x \<noteq> None" "clients ?u = clients ?t" "blocked_keys ?u = set_queue k (filter (\<lambda>b. \<not> is_expired now b) ?q) (blocked_keys s)"
    using Cons.prems(1) by (simp_all del: not_None_eq add: expire_queue_clients)
  have "buffer_of ?u x = buffer_of s x @ null_arrays (length (filter (\<lambda>b. blocked_cid b = x) (filter (is_expired now) ?q)))"
    unfolding buffer_of_fields by (rule expire_queue_buffer [OF Cons.prems(1)])
  moreover have "expired_entries now (blocked_keys ?u) x ks = expired_entries now (blocked_keys s) x ks"
    using Cons.prems(2) unfolding u(3) by (intro expired_entries_upd) simp
  ultimately show ?case
    using Cons.IH [OF u(1)] Cons.prems unfolding e
    by (simp add: null_arrays_add expired_entries_Cons u(1,2) expire_queue_clients)
qed (simp add: expired_entries_def null_arrays_def)

lemma expire_blocked_xread_buffer:
  assumes "clients s x \<noteq> None" "distinct ks"
  shows "clients (fst (expire_blocked_xread now ks s)) x \<noteq> None \<and>
    buffer_of (fst (expire_blocked_xread now ks s)) x = buffer_of s x @ null_arrays (expired_entries now (blocked_xread_keys s) x ks)"
  using assms
proof (induction ks arbitrary: s)
  case (Cons k ks)
  let ?q = "queue_of (blocked_xread_keys s) k"
  let ?t = "fold (\<lambda>b. write_to (blocked_cid b) (\<lambda>w. w @ ''*-1'' @ CRLF)) (filter (is_expired now) ?q) s"
  let ?u = "?t\<lparr>blocked_xread_keys := set_queue k (filter (\<lambda>b. \<not> is_expired now b) ?q) (blocked_xread_keys s)\<rparr>"
  have e: "fst (expire_blocked_xread now (k # ks) s) = fst (expire_blocked_xread now ks ?u)"
    by (simp add: expire_queue_eq Let_def split_def queue_of_def)
  have u: "clients ?u x \<noteq> None" "clients ?u = clients ?t" "blocked_xread_keys ?u = set_queue k (filter (\<lambda>b. \<not> is_expired now b) ?q) (blocked_xread_keys s)"
    using Cons.prems(1) by (simp_all del: not_None_eq add: expire_queue_clients)
  have "buffer_of ?u x = buffer_of s x @ null_arrays (length (filter (\<lambda>b. blocked_cid b = x) (filter (is_expired now) ?q)))"
    unfolding buffer_of_fields by (rule expire_queue_buffer [OF Cons.prems(1)])
  moreover have "expired_entries now (blocked_xread_keys ?u) x ks = expired_entries now (blocked_xread_keys s) x ks"
    using Cons.prems(2) unfolding u(3) by (intro expired_entries_upd) simp
  ultimately show ?case
    using Cons.IH [OF u(1)] Cons.prems unfolding e
    by (simp add: null_arrays_add expired_entries_Cons u(1,2) expire_queue_clients)
qed (simp add: expired_entries_def null_arrays_def)

text \<open>
  C25. The timeout handler ends every wait whose deadline has passed: an entry of a queue, of
  \<open>BLPOP\<close> or \<open>XREAD\<close>, stays exactly when its deadline is not reached, and each client gets one
  null array for each of its entries that go. The store is left alone.
\<close>

lemma timeouts_answered:
  assumes "distinct ks" "distinct xks" "dom (blocked_keys s) \<subseteq> set ks" "dom (blocked_xread_keys s) \<subseteq> set xks"
    "check_and_expire_blocked_clients now ks xks s = (s', fds)"
  shows "store s' = store s \<and>
    (\<forall>k. blocked_keys s' k = unexpired now (blocked_keys s k)) \<and>
    (\<forall>k. blocked_xread_keys s' k = unexpired now (blocked_xread_keys s k)) \<and>
    (\<forall>x. clients s x \<noteq> None \<longrightarrow> buffer_of s' x = buffer_of s x @
      null_arrays (expired_entries now (blocked_keys s) x ks + expired_entries now (blocked_xread_keys s) x xks))"
proof -
  have s': "s' = fst (expire_blocked_xread now xks (fst (expire_blocked now ks s)))"
    using assms(5) by (simp add: check_and_expire_blocked_clients_def Let_def split_def)
  have "buffer_of s' x = buffer_of s x @
      null_arrays (expired_entries now (blocked_keys s) x ks + expired_entries now (blocked_xread_keys s) x xks)"
    if "clients s x \<noteq> None" for x
    using that assms(1,2) by (simp add: s' expire_blocked_buffer expire_blocked_xread_buffer expire_blocked_keys null_arrays_add)
  then show ?thesis using check_and_expire_queues [OF assms(3-5)] by blast
qed

text \<open>
  Only the first client of a queue counts for the poll timeout: behind one that waits
  without a limit, the deadlines of the others are not seen and the server sleeps.
\<close>

lemma later_waiter_ignored:
  assumes "blocked_keys s key = Some (b # bs)" "timeout_at b = None"
  shows "get_next_timeout_ms now [key] [] s = - 1"
  using assms by (simp add: get_next_timeout_ms_def front_deadline_def min_time_def)

end
