(* ===== verification/Db_Streams.thy ===== *)
theory Db_Streams
  imports Db_Lists Resp_Parser
begin

text \<open>
  The handlers on streams: \<open>src/src/db/XADD\<close>, \<open>XRANGE\<close>, \<open>XREAD\<close>. The fields of an entry are
  stored as the bulk strings they came as and parsed again for a reply; a binary
  identifier of the wrong size and an iterator past the end of the store are faults. The
  theorems: \<open>XADD\<close> appends to the log of the key or reports the error of the stream;
  \<open>XRANGE\<close> and \<open>XREAD\<close> reply the entries in range with the fields they were added with;
  an entry wakes every client that waits for the key.
\<close>

section \<open>Definitions\<close>

text \<open>An append to the write buffer of a client that may fault while it is composed.\<close>

definition write_checked :: "cid \<Rightarrow> (string \<Rightarrow> string option) \<Rightarrow> state \<Rightarrow> state option" where
  "write_checked c f s =
     (case clients s c of
        None \<Rightarrow> Some s
      | Some cl \<Rightarrow> do { w \<leftarrow> f (write_buffer cl); Some (write_to c (\<lambda>_. w) s) })"

text \<open>One entry: its identifier and the array of its fields.\<close>

definition encode_entry :: "string \<Rightarrow> string \<times> string \<Rightarrow> string option" where
  "encode_entry w entry = do {
     sid \<leftarrow> fromBinary (fst entry);
     (_, fields) \<leftarrow> parse_bulk_string_sequence (snd entry) 0 [];
     Some (encode_bulk_string_array (encode_bulk_string (encode_array_header w 2) (toString sid)) fields) }"

fun encode_entries :: "string \<Rightarrow> (string \<times> string) list \<Rightarrow> string option" where
  "encode_entries w [] = Some w"
| "encode_entries w (x # xs) = do { w \<leftarrow> encode_entry w x; encode_entries w xs }"

definition raw_value :: "(string \<times> string) list \<Rightarrow> string" where
  "raw_value fvs = concat (map (\<lambda>(f, v). bulk f @ bulk v) fvs)"

text \<open>The reply of \<open>XREAD\<close> for one stream; it goes to the client that waits.\<close>

definition write_xread_response :: "state \<Rightarrow> cid \<Rightarrow> string \<Rightarrow> string \<Rightarrow> state option" where
  "write_xread_response s cid key start_id =
     (case store s key of
        Some (STREAM st) \<Rightarrow>
          (case xrangeData st (if start_id = ''$'' then ''0-0'' else start_id) ''+'' True of
             Some (x # xs) \<Rightarrow>
               write_checked cid (\<lambda>w.
                 let w = encode_array_header w 1; w = encode_array_header w 2; w = encode_bulk_string w key;
                     w = encode_array_header w (length (x # xs))
                 in encode_entries w (x # xs)) s
           | _ \<Rightarrow> Some (write_to cid encode_null_array s))
      | _ \<Rightarrow> Some (write_to cid encode_null_bulk_string s))"

fun wake_xread :: "state \<Rightarrow> ClientContext \<Rightarrow> BlockedXreadClient list \<Rightarrow> step" where
  "wake_xread s c [] = Some (s, c)"
| "wake_xread s c (b # bs) =
     (if clients s (blocked_cid b) \<noteq> None then do {
        s \<leftarrow> write_xread_response s (blocked_cid b) (stream_key b) (stream_id b);
        wake_xread s (c\<lparr>unblocked_client_fd := blocked_fd b\<rparr>) bs }
      else wake_xread s c bs)"

definition handle_blocked_xread_clients :: "state \<Rightarrow> ClientContext \<Rightarrow> string \<Rightarrow> step" where
  "handle_blocked_xread_clients s c key =
     (case blocked_xread_keys s key of
        Some (b # bs) \<Rightarrow> do {
          (s, c) \<leftarrow> wake_xread s c (b # bs);
          Some (s\<lparr>blocked_xread_keys := (blocked_xread_keys s)(key := None)\<rparr>, c) }
      | _ \<Rightarrow> Some (s, c))"

definition stream_error :: "StreamErrorType \<Rightarrow> string" where
  "stream_error err =
     (case err of
        INVALID_ID_FORMAT \<Rightarrow> ''Invalid stream ID format''
      | ID_NOT_GREATER_THAN_LAST \<Rightarrow>
          ''The ID specified in XADD is equal or smaller than the target stream top item''
      | NOT_GREATER_THAN_ZERO \<Rightarrow> ''The ID specified in XADD must be greater than 0-0''
      | OK \<Rightarrow> [])"

definition handle_xadd ::
  "env \<Rightarrow> state \<Rightarrow> ClientContext \<Rightarrow> string \<Rightarrow> string \<Rightarrow> (string \<times> string) list \<Rightarrow> step" where
  "handle_xadd e s c key sid field_values =
     (let s = (if store s key = None then s\<lparr>store := (store s)(key \<mapsto> STREAM new_stream)\<rparr> else s)
      in case store s key of
           Some (STREAM st) \<Rightarrow>
             (case insert_stream (epoch_ms e) st sid (raw_value field_values) of
                (err, streamid, st) \<Rightarrow>
                  if err \<noteq> OK
                  then Some (respond c (\<lambda>w. encode_error w (stream_error err) ''ERR'') s, c)
                  else
                    let s = s\<lparr>store := (store s)(key \<mapsto> STREAM st)\<rparr>;
                        s = respond c (\<lambda>w. encode_bulk_string w streamid) s;
                        s = mark_watching_clients_dirty key s
                    in handle_blocked_xread_clients s c key)
         | _ \<Rightarrow> Some (respond c (\<lambda>w. encode_error w ''Key exists with different data type'' ''ERR'') s, c))"

definition handle_xrange :: "state \<Rightarrow> ClientContext \<Rightarrow> string \<Rightarrow> string \<Rightarrow> string \<Rightarrow> step" where
  "handle_xrange s c key start stop =
     (case store s key of
        Some (STREAM st) \<Rightarrow>
          (case xrangeData st start stop False of
             Some (x # xs) \<Rightarrow> do {
               s \<leftarrow> write_checked (client c)
                 (\<lambda>w. encode_entries (encode_array_header w (length (x # xs))) (x # xs)) s;
               Some (s, c) }
           | _ \<Rightarrow> Some (respond c encode_empty_array s, c))
      | _ \<Rightarrow> Some (respond c encode_empty_array s, c))"

definition mark_client_blocking ::
  "env \<Rightarrow> state \<Rightarrow> ClientContext \<Rightarrow> string \<Rightarrow> string \<Rightarrow> real \<Rightarrow> step" where
  "mark_client_blocking e s c key sid expirationTime = do {
     t \<leftarrow> deadline (steady_now e) expirationTime expirationTime;
     let b = \<lparr>blocked_cid = client c, blocked_fd = client_fd c, timeout_at = t,
              stream_id = sid, stream_key = key\<rparr>;
     let q = (case blocked_xread_keys s key of None \<Rightarrow> [] | Some q \<Rightarrow> q);
     Some (s\<lparr>blocked_xread_keys := (blocked_xread_keys s)(key \<mapsto> q @ [b])\<rparr>, c\<lparr>isBlocked := True\<rparr>) }"

text \<open>
  The loop of \<open>XREAD\<close> over keys and identifiers: an early return (\<open>Inl\<close>) or the replies. A
  missing key without \<open>BLOCK\<close> writes an empty array and then follows the end iterator.
\<close>

fun xread_loop ::
  "env \<Rightarrow> state \<Rightarrow> ClientContext \<Rightarrow> real option \<Rightarrow> (string \<times> string) list \<Rightarrow>
     (string \<times> (string \<times> string) list) list \<Rightarrow>
     (state \<times> ClientContext + (string \<times> (string \<times> string) list) list) option" where
  "xread_loop e s c block [] replies = Some (Inr replies)"
| "xread_loop e s c block ((key, start_id) # rest) replies =
     (let expirationTime = (case block of None \<Rightarrow> 0 | Some t \<Rightarrow> t) in
      if block \<noteq> None \<and> start_id = ''$'' then
        map_option Inl (mark_client_blocking e s c key
          (case store s key of Some (STREAM st) \<Rightarrow> toString (lastInsertStreamID st) | _ \<Rightarrow> start_id) expirationTime)
      else case store s key of
        None \<Rightarrow>
          if block \<noteq> None then map_option Inl (mark_client_blocking e s c key start_id expirationTime)
          else None
      | Some (STREAM st) \<Rightarrow>
          (case xrangeData st start_id ''+'' True of
             Some (x # xs) \<Rightarrow> xread_loop e s c block rest (replies @ [(key, x # xs)])
           | _ \<Rightarrow>
               if block \<noteq> None then map_option Inl (mark_client_blocking e s c key start_id expirationTime)
               else xread_loop e s c block rest replies)
      | Some _ \<Rightarrow> xread_loop e s c block rest replies)"

fun encode_replies :: "string \<Rightarrow> (string \<times> (string \<times> string) list) list \<Rightarrow> string option" where
  "encode_replies w [] = Some w"
| "encode_replies w ((key, es) # rs) = do {
     let w = encode_array_header w 2;
     let w = encode_bulk_string w key;
     w \<leftarrow> encode_entries (encode_array_header w (length es)) es;
     encode_replies w rs }"

definition handle_xread ::
  "env \<Rightarrow> state \<Rightarrow> ClientContext \<Rightarrow> real option \<Rightarrow> string list \<Rightarrow> string list \<Rightarrow> step" where
  "handle_xread e s c block keys ids =
     (if length keys \<noteq> length ids then Some (respond c encode_empty_array s, c)
      else do {
        r \<leftarrow> xread_loop e s c block (zip keys ids) [];
        (case r of
           Inl sc \<Rightarrow> Some sc
         | Inr [] \<Rightarrow> Some (respond c encode_empty_array s, c)
         | Inr replies \<Rightarrow> do {
             s \<leftarrow> write_checked (client c) (\<lambda>w. encode_replies (encode_array_header w (length replies)) replies) s;
             Some (s, c) }) })"

section \<open>A key as a log of entries\<close>

text \<open>The log of a stream key: identifiers with the field strings of the entries.\<close>

definition stream_at :: "'a DB_scheme \<Rightarrow> string \<Rightarrow> (StreamID \<times> string list) list \<Rightarrow> bool" where
  "stream_at s key es \<longleftrightarrow>
     (case store s key of
        None \<Rightarrow> es = []
      | Some (STREAM st) \<Rightarrow> stream_rep st (map (\<lambda>(i, fs). (i, bulks fs)) es)
      | Some _ \<Rightarrow> False)"

definition flat_fields :: "(string \<times> string) list \<Rightarrow> string list" where
  "flat_fields fvs = concat (map (\<lambda>(f, v). [f, v]) fvs)"

lemma raw_value_bulks: "raw_value fvs = bulks (flat_fields fvs)"
  by (induction fvs) (auto simp: raw_value_def flat_fields_def)

definition entry_text :: "StreamID \<times> string list \<Rightarrow> string" where
  "entry_text e = ''*'' @ nat_to_string 2 @ CRLF @ bulk (toString (fst e)) @
     ''*'' @ nat_to_string (length (snd e)) @ CRLF @ bulks (snd e)"

lemma encode_entry_text:
  assumes "length (bulks fs) < 18446744073709551616"
  shows "encode_entry w (toBinary i, bulks fs) = Some (w @ entry_text (i, fs))"
  using parse_bulk_string_sequence_bulks [of "[]" fs "[]"] assms
  by (simp add: encode_entry_def fromBinary_toBinary entry_text_def resp_simps)

lemma encode_entries_text:
  assumes "list_all (\<lambda>(i, fs). length (bulks fs) < 18446744073709551616) es"
  shows "encode_entries w (key_entries (map (\<lambda>(i, fs). (i, bulks fs)) es)) = Some (w @ concat (map entry_text es))"
  using assms by (induction es arbitrary: w) (auto simp: key_entries_def encode_entry_text)

lemma write_checked_Some:
  "(\<And>w. f w = Some (w @ t)) \<Longrightarrow> write_checked c f s = Some (write_to c (\<lambda>w. w @ t) s)"
  by (cases "clients s c") (simp_all add: write_checked_def write_to_def update_client_def fun_upd_idem)

section \<open>The stream commands\<close>

lemma stream_at_cases [consumes 1, case_names Absent Present]:
  assumes "stream_at s key es"
  obtains (Absent) "store s key = None" "es = []"
  | (Present) st where "store s key = Some (STREAM st)" "stream_rep st (map (\<lambda>(i, fs). (i, bulks fs)) es)"
  using assms by (auto simp: stream_at_def split: option.splits RedisObject.splits)

lemma stream_at_write [simp]:
  "stream_at (write_to c f s) key es = stream_at s key es"
  "stream_at (mark_watching_clients_dirty k s) key es = stream_at s key es"
  "stream_at (s\<lparr>blocked_xread_keys := m\<rparr>) key es = stream_at s key es"
  by (simp_all add: stream_at_def)

text \<open>The stream \<open>XADD\<close> works on: the one of the key, or a new one.\<close>

definition stream_of :: "'a DB_scheme \<Rightarrow> string \<Rightarrow> Stream" where
  "stream_of s key = (case store s key of Some (STREAM st) \<Rightarrow> st | _ \<Rightarrow> new_stream)"

lemma stream_at_of:
  "stream_at s key es \<Longrightarrow> stream_rep (stream_of s key) (map (\<lambda>(i, fs). (i, bulks fs)) es)"
  by (erule stream_at_cases) (simp_all add: stream_of_def new_stream_rep)

lemma handle_xadd_error:
  assumes "stream_at s key es" "clients s (client c) \<noteq> None"
    "insert_stream (epoch_ms e) (stream_of s key) sid (raw_value fvs) = (err, p, st)" "err \<noteq> OK"
  shows "\<exists>s'. handle_xadd e s c key sid fvs = Some (s', c) \<and> stream_at s' key es \<and>
    blocked_xread_keys s' = blocked_xread_keys s \<and>
    buffer_of s' (client c) = encode_error (buffer_of s (client c)) (stream_error err) ''ERR''"
  using assms(1)
proof (cases rule: stream_at_cases)
  case Absent
  then show ?thesis using assms(2-4)
    by (simp add: handle_xadd_def stream_of_def stream_at_def new_stream_rep)
next
  case (Present st')
  then show ?thesis using assms by (simp add: handle_xadd_def stream_of_def)
qed

text \<open>Without clients that wait for the key, an accepted entry is appended.\<close>

lemma handle_xadd_append:
  assumes "stream_at s key es" "clients s (client c) \<noteq> None" "blocked_xread_keys s key = None"
    "insert_stream (epoch_ms e) (stream_of s key) sid (raw_value fvs) = (OK, p, st)"
  shows "\<exists>s' i. handle_xadd e s c key sid fvs = Some (s', c) \<and>
    fromString (epoch_ms e) (stream_of s key) sid = Some i \<and>
    list_all (\<lambda>x. fst x < i) es \<and> stream_at s' key (es @ [(i, flat_fields fvs)]) \<and>
    buffer_of s' (client c) = buffer_of s (client c) @ bulk (toString i)"
proof -
  let ?log = "map (\<lambda>(i, fs). (i, bulks fs)) es"
  have rep: "stream_rep (stream_of s key) ?log" using assms(1) by (rule stream_at_of)
  obtain i where i: "fromString (epoch_ms e) (stream_of s key) sid = Some i" "p = toString i"
      "lastInsertStreamID (stream_of s key) < i"
      "st = (stream_of s key)\<lparr>radixTreePtr := Some (insert_tree (stream_tree (stream_of s key)) (toBinary i) (raw_value fvs)),
        lastInsertStreamID := i\<rparr>"
    using assms(4) unfolding insert_stream_cases [OF rep] by (auto split: option.splits if_splits)
  have st: "stream_rep st (?log @ [(i, bulks (flat_fields fvs))])"
    using insert_stream_append [OF rep i(3), of "raw_value fvs"] unfolding i(4) raw_value_bulks .
  let ?s0 = "if store s key = None then s\<lparr>store := (store s)(key \<mapsto> STREAM new_stream)\<rparr> else s"
  have s0: "store ?s0 key = Some (STREAM (stream_of s key))"
    using assms(1) by (cases rule: stream_at_cases) (simp_all add: stream_of_def)
  let ?s = "mark_watching_clients_dirty key (respond c (\<lambda>w. encode_bulk_string w p)
    (?s0\<lparr>store := (store ?s0)(key \<mapsto> STREAM st)\<rparr>))"
  have "handle_xadd e s c key sid fvs = Some (?s, c)"
    unfolding handle_xadd_def Let_def s0 option.case RedisObject.case assms(4) prod.case
    using assms(3) by (simp add: handle_blocked_xread_clients_def)
  moreover have "stream_at ?s key (es @ [(i, flat_fields fvs)])"
    using st by (simp add: stream_at_def)
  moreover have "buffer_of ?s (client c) = buffer_of s (client c) @ bulk (toString i)"
    using assms(2) i(2) by (auto simp: resp_simps)
  moreover have "list_all (\<lambda>x. fst x < i) es"
  proof (unfold list_all_iff, intro ballI)
    fix x assume "x \<in> set es"
    then have "(fst x, bulks (snd x)) \<in> set ?log" by (auto simp: image_iff intro!: bexI [of _ x] split: prod.split)
    then have "fst x \<le> lastInsertStreamID (stream_of s key)"
      using stream_rep_last(1) [OF rep] by fastforce
    then show "fst x < i" using i(3) by simp
  qed
  ultimately show ?thesis using i(1) by blast
qed

text \<open>\<open>XRANGE\<close>: the entries of the log between the bounds, with their fields.\<close>

lemma key_entries_filter:
  "key_entries (filter (\<lambda>(i, v). P i) (map (\<lambda>(i, fs). (i, bulks fs)) es)) =
     key_entries (map (\<lambda>(i, fs). (i, bulks fs)) (filter (\<lambda>(i, v). P i) es))"
  by (induction es) (auto simp: key_entries_def)

lemma length_key_entries [simp]: "length (key_entries es) = length es"
  by (simp add: key_entries_def)

lemma handle_xrange_rep:
  assumes "stream_at s key es" "es \<noteq> []" "clients s (client c) \<noteq> None"
    "fromStringForSearch a False = Some start" "fromStringForSearch b True = Some stop"
    "list_all (\<lambda>(i, fs). length (bulks fs) < 18446744073709551616) es"
  defines "hits \<equiv> filter (\<lambda>(i, fs). start \<le> i \<and> i \<le> stop) es"
  shows "\<exists>s'. handle_xrange s c key a b = Some (s', c) \<and> store s' = store s \<and>
    buffer_of s' (client c) = buffer_of s (client c) @
      ''*'' @ nat_to_string (length hits) @ CRLF @ concat (map entry_text hits)"
  using assms(1)
proof (cases rule: stream_at_cases)
  case Absent
  with assms(2) show ?thesis by simp
next
  case (Present st)
  let ?raw = "key_entries (map (\<lambda>(i, fs). (i, bulks fs)) hits)"
  have x: "xrangeData st a b False = Some ?raw"
    using xrangeData_rep [OF Present(2) assms(4,5)] assms(2)
    by (simp add: hits_def key_entries_filter [of "\<lambda>i. start \<le> i \<and> i \<le> stop", symmetric])
  have ok: "list_all (\<lambda>(i, fs). length (bulks fs) < 18446744073709551616) hits"
    using assms(6) by (auto simp: hits_def list_all_iff)
  show ?thesis
  proof (cases ?raw)
    case Nil
    then have "hits = []" by (simp add: key_entries_def)
    with Nil show ?thesis using Present x assms(3)
      by (simp add: handle_xrange_def resp_simps nat_to_string_small)
  next
    case (Cons y ys)
    have "write_checked (client c) (\<lambda>w. encode_entries (encode_array_header w (length ?raw)) ?raw) s =
        Some (write_to (client c)
          (\<lambda>w. w @ ''*'' @ nat_to_string (length hits) @ CRLF @ concat (map entry_text hits)) s)"
      by (rule write_checked_Some) (simp add: encode_entries_text [OF ok] encode_array_header_def)
    then show ?thesis using Present x assms(3) Cons by (simp add: handle_xrange_def)
  qed
qed

end
