(* ===== verification/Db.thy ===== *)
theory Db
  imports Db_Clients Db_Zsets Db_Streams
begin

text \<open>
  The dispatcher of \<open>src/src/db/db.cpp\<close> (\<open>call\<close>, \<open>execute\<close>) and transactions:
  \<open>src/src/db/MULTI\<close>, \<open>EXEC\<close>, \<open>DISCARD\<close>. \<open>EXEC\<close> runs the queue of the client through the
  dispatcher again; the model is a partial function, so a queue that held an \<open>EXEC\<close> would
  be a run that does not return. The lemmas: every command that is neither about
  transactions nor channels keeps users, channels, watched keys and the well-formedness of
  the store, and gives clients at most a reply or the dirty flag.
\<close>

section \<open>Definitions\<close>

text \<open>The member \<open>key\<close> of the base class, which some commands leave empty.\<close>

definition cmd_key :: "Command \<Rightarrow> string" where
  "cmd_key cmd =
     (case cmd of
        GeoAddCommand k _ _ _ _ _ \<Rightarrow> k
      | GeoPosCommand k _ \<Rightarrow> k
      | GeoDistCommand k _ _ \<Rightarrow> k
      | GeoSearchCommand k _ _ _ \<Rightarrow> k
      | ZaddCommand k _ \<Rightarrow> k
      | SetCommand k _ _ _ \<Rightarrow> k
      | GetCommand k \<Rightarrow> k
      | TypeCommand k \<Rightarrow> k
      | IncrCommand k \<Rightarrow> k
      | RpushCommand k _ \<Rightarrow> k
      | LpushCommand k _ \<Rightarrow> k
      | LrangeCommand k _ _ \<Rightarrow> k
      | LlenCommand k \<Rightarrow> k
      | LpopCommand k _ \<Rightarrow> k
      | XaddCommand k _ _ \<Rightarrow> k
      | XrangeCommand k _ _ \<Rightarrow> k
      | ZrankCommand k _ \<Rightarrow> k
      | ZrangeCommand k _ _ \<Rightarrow> k
      | ZcardCommand k \<Rightarrow> k
      | ZscoreCommand k _ \<Rightarrow> k
      | ZremCommand k _ \<Rightarrow> k
      | _ \<Rightarrow> [])"

definition handle_multi :: "state \<Rightarrow> ClientContext \<Rightarrow> step" where
  "handle_multi s c =
     Some (respond c (\<lambda>b. encode_simple_string b ''OK'') (update_client (client c) addTransactionFlags s), c)"

definition end_transaction :: "Client \<Rightarrow> Client" where
  "end_transaction cl = resetFlags (cl\<lparr>queued_commands := []\<rparr>)"

definition handle_discard :: "state \<Rightarrow> ClientContext \<Rightarrow> step" where
  "handle_discard s c = do {
     cl \<leftarrow> clients s (client c);
     if \<not> isClientOnTransaction cl
     then Some (respond c (\<lambda>b. encode_error b ''DISCARD without MULTI'' ''ERR'') s, c)
     else Some (respond c (\<lambda>b. encode_simple_string b ''OK'') (update_client (client c) end_transaction s), c) }"

text \<open>\<open>call\<close> but for \<open>EXEC\<close>, which comes back to it.\<close>

definition call_other :: "env \<Rightarrow> state \<Rightarrow> ClientContext \<Rightarrow> Command \<Rightarrow> step" where
  "call_other e s c cmd =
     (case cmd of
        PingCommand \<Rightarrow> Some (handle_ping s c, c)
      | EchoCommand message \<Rightarrow> Some (handle_echo s c message, c)
      | ACLWhoamiCommand \<Rightarrow> handle_acl_whoami s c
      | ACLGetUserCommand _ \<Rightarrow> handle_acl_getuser s c
      | SetCommand key v ex px \<Rightarrow> handle_set e s c key v ex px
      | GetCommand key \<Rightarrow> handle_get_or_type e s c False key
      | TypeCommand key \<Rightarrow> handle_get_or_type e s c True key
      | IncrCommand key \<Rightarrow> handle_incr s c key
      | RpushCommand key vs \<Rightarrow> handle_push e s c False key vs
      | LpushCommand key vs \<Rightarrow> handle_push e s c True key vs
      | LrangeCommand key start stop \<Rightarrow> handle_lrange s c key start stop
      | LlenCommand key \<Rightarrow> handle_llen s c key
      | LpopCommand key count \<Rightarrow> handle_lpop e s c key count
      | BlpopCommand keys timeout \<Rightarrow> handle_blpop e s c keys timeout
      | XaddCommand key sid fvs \<Rightarrow> handle_xadd e s c key sid fvs
      | XrangeCommand key start stop \<Rightarrow> handle_xrange s c key start stop
      | XreadCommand block keys ids \<Rightarrow> handle_xread e s c block keys ids
      | MultiCommand \<Rightarrow> handle_multi s c
      | DiscardCommand \<Rightarrow> handle_discard s c
      | KeysCommand _ \<Rightarrow> handleKeys e s c
      | SubscribeCommand _ \<Rightarrow> handleSubscribe s c
      | PublishCommand _ _ \<Rightarrow> handlePublish s c
      | ZaddCommand _ _ \<Rightarrow> handle_zadd s c
      | ZrankCommand _ _ \<Rightarrow> handle_zrank s c
      | ZrangeCommand _ _ _ \<Rightarrow> handle_zrange s c
      | ZcardCommand _ \<Rightarrow> handle_zcard s c
      | ZscoreCommand _ _ \<Rightarrow> handle_zscore e s c
      | ZremCommand _ _ \<Rightarrow> handle_zrem s c
      | GeoAddCommand _ _ _ _ _ _ \<Rightarrow> handle_geoadd e s c
      | GeoPosCommand _ _ \<Rightarrow> handle_geopos e s c
      | GeoDistCommand _ _ _ \<Rightarrow> handle_geodist e s c
      | GeoSearchCommand _ _ _ _ \<Rightarrow> handle_geosearch e s c
      | _ \<Rightarrow> Some (handle_ping s c, c))"

text \<open>A sequence of calls; \<open>call\<close> is the sequence of one command.\<close>

partial_function (option) call_all :: "env \<Rightarrow> state \<Rightarrow> ClientContext \<Rightarrow> Command list \<Rightarrow> step" where
  "call_all e s c cmds =
     (if cmds = [] then Some (s, c)
      else if cmd_type (hd cmds) = EXEC then
        Option.bind (clients s (client c)) (\<lambda>cl.
          if \<not> isClientOnTransaction cl
          then call_all e (respond c (\<lambda>b. encode_error b ''EXEC without MULTI'' ''ERR'') s) c (tl cmds)
          else Option.bind
            (call_all e (respond c (\<lambda>b. encode_array_header b (length (queued_commands cl))) s) c
              (queued_commands cl))
            (\<lambda>r. call_all e (update_client (client (snd r)) end_transaction (fst r)) (snd r) (tl cmds)))
      else Option.bind (call_other e s c (hd cmds)) (\<lambda>r. call_all e (fst r) (snd r) (tl cmds)))"

definition call :: "env \<Rightarrow> state \<Rightarrow> ClientContext \<Rightarrow> Command \<Rightarrow> step" where
  "call e s c cmd = call_all e s c [cmd]"

definition queue_command :: "state \<Rightarrow> ClientContext \<Rightarrow> Command \<Rightarrow> state \<times> ClientContext" where
  "queue_command s c cmd =
     (let s = update_client (client c) (\<lambda>cl. cl\<lparr>queued_commands := queued_commands cl @ [cmd]\<rparr>) s;
          k = cmd_key cmd;
          ws = (case watching_keys s k of None \<Rightarrow> [] | Some ws \<Rightarrow> ws);
          s = s\<lparr>watching_keys := (watching_keys s)(k \<mapsto> ws @ [(client c, client_fd c)])\<rparr>
      in (respond c (\<lambda>b. encode_simple_string b ''QUEUED'') s, c\<lparr>ctx_command := None\<rparr>))"

definition execute :: "env \<Rightarrow> state \<Rightarrow> ClientContext \<Rightarrow> step" where
  "execute e s c =
     (case ctx_command c of
        None \<Rightarrow> Some (s, c)
      | Some cmd \<Rightarrow> do {
          cl \<leftarrow> clients s (client c);
          if cmd_type cmd = ACL_WHOAMI \<and> \<not> is_authenticated cl then
            Some (respond c (\<lambda>b. encode_error b ''Authentication required.'' ''NOAUTH'') s, c)
          else if isClientOnTransaction cl \<and> cmd_type cmd \<noteq> EXEC \<and> cmd_type cmd \<noteq> DISCARD then
            Some (queue_command s c cmd)
          else if isClientOnPubSub cl then handlePubSub s c
          else if cmd_type cmd = GETCONFIG then handleGetConfig e s c
          else if cmd_type cmd = ACL_SETUSER then handle_acl_setuser e s c
          else if cmd_type cmd = AUTH then handle_auth e s c
          else call e s c cmd })"

section \<open>What the data commands keep\<close>

text \<open>Objects of the store that are well formed.\<close>

definition obj_ok :: "RedisObject \<Rightarrow> bool" where
  "obj_ok v \<longleftrightarrow> (case v of SORTED_SET z \<Rightarrow> zset_inv z | STREAM st \<Rightarrow> (\<exists>es. stream_rep st es) | _ \<Rightarrow> True)"

definition objects_ok :: "'a DB_scheme \<Rightarrow> bool" where
  "objects_ok s \<longleftrightarrow> (\<forall>v \<in> ran (store s). obj_ok v)"

text \<open>A client but for its buffers and the dirty flag.\<close>

definition core :: "Client \<Rightarrow> Client" where
  "core cl = cl\<lparr>write_buffer := [], flags := flags cl AND NOT DIRTY_FLAG\<rparr>"

text \<open>
  What every command does that is neither about transactions nor channels: users, channels
  and watched keys stay, clients only get replies and the dirty flag, and the invariants
  of the store are kept.
\<close>

definition kept :: "state \<Rightarrow> state \<Rightarrow> bool" where
  "kept s t \<longleftrightarrow> users t = users s \<and> pubsub_clients t = pubsub_clients s \<and> watching_keys t = watching_keys s \<and>
     (\<forall>x. map_option core (clients t x) = map_option core (clients s x)) \<and>
     (deadlines_ok s \<longrightarrow> deadlines_ok t) \<and> (objects_ok s \<longrightarrow> objects_ok t)"

named_theorems kept_intros

lemma obj_ok_simps [simp]:
  "obj_ok (STRING v)" "obj_ok (LIST_PACK l)" "obj_ok (SORTED_SET z) = zset_inv z"
  "obj_ok (STREAM st) \<longleftrightarrow> (\<exists>es. stream_rep st es)"
  by (simp_all add: obj_ok_def)

lemma objects_okD: "objects_ok s \<Longrightarrow> store s k = Some v \<Longrightarrow> obj_ok v"
  by (auto simp: objects_ok_def intro: ranI)

lemma objects_ok_write [simp]:
  "objects_ok (write_to c f s) = objects_ok s" "objects_ok (mark_watching_clients_dirty k s) = objects_ok s"
  "objects_ok (update_client d g s) = objects_ok s" "objects_ok (s\<lparr>blocked_keys := m\<rparr>) = objects_ok s"
  "objects_ok (s\<lparr>blocked_xread_keys := n\<rparr>) = objects_ok s"
  by (simp_all add: objects_ok_def)

lemma deadlines_ok_blocked [simp]:
  "deadlines_ok (s\<lparr>blocked_keys := m\<rparr>) = deadlines_ok s"
  "deadlines_ok (s\<lparr>blocked_xread_keys := n\<rparr>) = deadlines_ok s"
  by (simp_all add: deadlines_ok_def)

lemma core_simps [simp]:
  "core (cl\<lparr>write_buffer := w\<rparr>) = core cl" "core (setClientDirty cl) = core cl"
  by (simp_all add: core_def setClientDirty_def bit.conj_disj_distrib2)

lemma core_eqD:
  assumes "core a = core b"
  shows "queued_commands a = queued_commands b" "isClientOnTransaction a = isClientOnTransaction b"
    "isClientOnPubSub a = isClientOnPubSub b" "fd a = fd b" "user a = user b"
    "is_authenticated a = is_authenticated b" "total_subscribed_channels a = total_subscribed_channels b"
proof -
  have m: "flags a AND MULTI_FLAG = flags (core a) AND MULTI_FLAG"
    and p: "flags a AND PUBSUB_FLAG = flags (core a) AND PUBSUB_FLAG" for a :: Client
    by (simp_all add: core_def and.assoc)
  show "isClientOnTransaction a = isClientOnTransaction b" "isClientOnPubSub a = isClientOnPubSub b"
    using m [of a] m [of b] p [of a] p [of b] assms
    by (simp_all add: isClientOnTransaction_def isClientOnPubSub_def)
qed (use assms in \<open>cases a; cases b; simp add: core_def\<close>)+

lemma kept_refl [simp, kept_intros]: "kept s s"
  by (simp add: kept_def)

lemma kept_trans: "kept s t \<Longrightarrow> kept t u \<Longrightarrow> kept s u"
  by (simp add: kept_def)

lemma core_update_client:
  "(\<And>cl. core (f cl) = core cl) \<Longrightarrow> map_option core (clients (update_client c f s) x) = map_option core (clients s x)"
  by (simp add: option.map_comp comp_def)

lemma core_mark_dirty [simp]:
  "map_option core (clients (mark_watching_clients_dirty k s) x) = map_option core (clients s x)"
  by (simp add: clients_mark_dirty option.map_comp comp_def)

lemma core_write_to [simp]:
  "map_option core (clients (write_to c f s) x) = map_option core (clients s x)"
  by (simp add: option.map_comp comp_def)

lemma kept_write [simp]:
  "kept s (write_to c f t) = kept s t" "kept s (mark_watching_clients_dirty k t) = kept s t"
  "kept s (t\<lparr>blocked_keys := m\<rparr>) = kept s t" "kept s (t\<lparr>blocked_xread_keys := n\<rparr>) = kept s t"
  by (simp_all add: kept_def del: clients_write_to)

lemma kept_store [kept_intros]:
  "kept s t \<Longrightarrow> (objects_ok s \<Longrightarrow> obj_ok v) \<Longrightarrow> kept s (t\<lparr>store := (store t)(k \<mapsto> v)\<rparr>)"
  by (auto simp: kept_def deadlines_ok_def objects_ok_def ran_def)

lemma kept_write_store [kept_intros]:
  "kept s (t\<lparr>store := st\<rparr>) \<Longrightarrow> kept s ((write_to c f t)\<lparr>store := st\<rparr>)"
  by (simp add: kept_def deadlines_ok_def objects_ok_def del: clients_write_to)

lemma kept_set_zset [kept_intros]: "kept s t \<Longrightarrow> (objects_ok s \<Longrightarrow> zset_inv z) \<Longrightarrow> kept s (set_zset k z t)"
  unfolding set_zset_def by (rule kept_store) simp_all

lemma kept_objects: "kept s t \<Longrightarrow> objects_ok s \<Longrightarrow> store t k = Some v \<Longrightarrow> obj_ok v"
  by (auto simp: kept_def dest: objects_okD)

text \<open>A handler that faults or keeps all that, and stays with its client.\<close>

definition keeps :: "state \<Rightarrow> ClientContext \<Rightarrow> step \<Rightarrow> bool" where
  "keeps s c r \<longleftrightarrow> (\<forall>s' c'. r = Some (s', c') \<longrightarrow> kept s s' \<and> client c' = client c)"

lemma keeps_simps [simp]:
  "keeps s c None" "keeps s c (Some (t, d)) \<longleftrightarrow> kept s t \<and> client d = client c"
  by (auto simp: keeps_def)

lemma keeps_bind [kept_intros]: "(\<And>x. r = Some x \<Longrightarrow> keeps s c (f x)) \<Longrightarrow> keeps s c (Option.bind r f)"
  by (cases r) simp_all

section \<open>Every data command keeps it\<close>

lemma keeps_respond [simp]: "keeps s c (Some (respond c f t, c)) = kept s t"
  by simp

lemma kept_ping: "kept s (handle_ping s c)"
  by (simp add: handle_ping_def split: option.split)

lemma keeps_set: "keeps s c (handle_set e s c key v ex px)"
  unfolding handle_set_def
  by (intro kept_intros)
    (auto simp: Let_def kept_def deadlines_ok_def objects_ok_def ran_def Option.bind_eq_Some_conv
      simp del: clients_write_to split: option.splits)

lemma kept_expire_key: "expire_key e s key = Some t \<Longrightarrow> kept s t"
  by (auto simp: expire_key_def kept_def deadlines_ok_def objects_ok_def ran_def split: option.splits if_splits)
    blast

lemma keeps_get: "keeps s c (handle_get_or_type e s c b key)"
  unfolding handle_get_or_type_def
  by (intro kept_intros) (auto dest!: kept_expire_key split: option.split RedisObject.split)

lemma keeps_incr: "keeps s c (handle_incr s c key)"
  unfolding handle_incr_def
  by (auto simp: Let_def intro!: kept_intros split: option.split RedisObject.split)

lemma kept_push_value: "push_value_to_list e t key v p = Some (n, u) \<Longrightarrow> kept s t \<Longrightarrow> kept s u"
  by (auto simp: push_value_to_list_def create_new_list_def append_to_existing_list_def Option.bind_eq_Some_conv
      intro!: kept_intros split: option.splits RedisObject.splits)

lemma kept_push_values: "push_values e t key p vs m = Some (n, u) \<Longrightarrow> kept s t \<Longrightarrow> kept s u"
  by (induction vs arbitrary: t m) (auto simp: Option.bind_eq_Some_conv dest: kept_push_value)

lemma keeps_push: "keeps s c (handle_push e s c p key vs)"
  unfolding handle_push_def
  by (auto simp: Let_def intro!: kept_intros dest!: kept_push_values [where s = s] split: option.split list.split)

lemma keeps_lists:
  "keeps s c (handle_llen s c key)" "keeps s c (handle_lpop e s c key count)"
  "keeps s c (handle_lrange s c key start stop)"
  unfolding handle_llen_def handle_lpop_def handle_lrange_def
  by (auto simp: Let_def intro!: kept_intros split: option.split RedisObject.split)

lemma keeps_blpop: "keeps s c (handle_blpop e s c keys timeout)"
  unfolding handle_blpop_def block_client_def
  by (auto simp: Let_def intro!: kept_intros split: option.split RedisObject.split)

lemma kept_write_checked: "write_checked x f t = Some u \<Longrightarrow> kept s t \<Longrightarrow> kept s u"
  by (auto simp: write_checked_def Option.bind_eq_Some_conv split: option.splits)

lemma kept_write_xread: "write_xread_response t x key i = Some u \<Longrightarrow> kept s t \<Longrightarrow> kept s u"
  by (auto simp: write_xread_response_def Let_def dest: kept_write_checked
      split: option.splits RedisObject.splits list.splits)

lemma keeps_wake: "kept s t \<Longrightarrow> client d = client c \<Longrightarrow> keeps s c (wake_xread t d bs)"
  by (induction t d bs rule: wake_xread.induct) (auto intro!: kept_intros dest: kept_write_xread)

lemma keeps_blocked_xread:
  assumes "kept s t" "client d = client c"
  shows "keeps s c (handle_blocked_xread_clients t d key)"
proof -
  have "keeps s c (wake_xread t d bs)" for bs using assms by (rule keeps_wake)
  then show ?thesis using assms unfolding handle_blocked_xread_clients_def
    by (auto simp: keeps_def Option.bind_eq_Some_conv simp del: wake_xread.simps split: option.split list.split)
qed

lemma insert_stream_rep:
  assumes "insert_stream now st sid v = (OK, p, st')" "stream_rep st es"
  shows "\<exists>es'. stream_rep st' es'"
  using assms(1) unfolding insert_stream_cases [OF assms(2)]
  by (auto simp: not_le dest: insert_stream_append [OF assms(2)] split: option.splits if_splits)

lemma keeps_xadd: "keeps s c (handle_xadd e s c key sid fvs)"
proof -
  define t where "t = (if store s key = None then s\<lparr>store := (store s)(key \<mapsto> STREAM new_stream)\<rparr> else s)"
  have t: "kept s t" unfolding t_def by (auto intro!: kept_intros exI new_stream_rep)
  show ?thesis
  proof (cases "store t key")
    case (Some v)
    show ?thesis
    proof (cases v)
      case (STREAM st)
      obtain err p st' where i: "insert_stream (epoch_ms e) st sid (raw_value fvs) = (err, p, st')"
        using prod_cases3 by blast
      have "\<exists>es. stream_rep st' es" if "objects_ok s" "err = OK"
        using insert_stream_rep i that kept_objects [OF t that(1) Some] STREAM by auto
      then show ?thesis unfolding handle_xadd_def Let_def t_def [symmetric] using t Some STREAM i
        by (auto intro!: kept_intros keeps_blocked_xread)
    qed (use t Some in \<open>simp_all add: handle_xadd_def Let_def flip: t_def\<close>)
  qed (use t in \<open>simp add: handle_xadd_def Let_def flip: t_def\<close>)
qed

lemma keeps_xrange: "keeps s c (handle_xrange s c key a b)"
  unfolding handle_xrange_def
  by (auto intro!: kept_intros dest!: kept_write_checked [where s = s] split: option.split RedisObject.split list.split)

lemma keeps_mark_blocking: "keeps s c (mark_client_blocking e s c key sid t)"
  unfolding mark_client_blocking_def by (auto simp: Let_def intro!: kept_intros)

lemma keeps_xread_loop:
  "xread_loop e s c block ks rs = Some (Inl (t, d)) \<Longrightarrow> kept s t \<and> client d = client c"
  by (induction e s c block ks rs rule: xread_loop.induct)
    (use keeps_mark_blocking in \<open>auto simp: Let_def keeps_def split: if_splits option.splits RedisObject.splits list.splits\<close>)

lemma keeps_xread: "keeps s c (handle_xread e s c block keys ids)"
  unfolding handle_xread_def
  by (auto intro!: kept_intros dest!: keeps_xread_loop kept_write_checked [where s = s] split: sum.split list.split)

text \<open>The handlers that look at the command of the context: theirs, or another one.\<close>

lemma kept_open_zset: "kept s (open_zset key s)"
  by (auto simp: open_zset_def intro!: kept_intros zset.emp_inv split: option.split)

lemma keeps_replies [simp]: "keeps s c (invalid_type c s)" "keeps s c (wrong_type c t) = kept s t"
  by (simp_all add: invalid_type_def wrong_type_def)

lemma zset_obj: "kept s t \<Longrightarrow> objects_ok s \<Longrightarrow> store t k = Some (SORTED_SET z) \<Longrightarrow> zset_inv z"
  using kept_objects by fastforce

lemma zadd_loop_inv: "zadd_loop sms n z = (a, z') \<Longrightarrow> zset_inv z \<Longrightarrow> zset_inv z'"
  using zadd_loop_map [of z sms n] by simp

lemma zrem_loop_inv: "zrem_loop mems n z = (a, z') \<Longrightarrow> zset_inv z \<Longrightarrow> zset_inv z'"
  using zrem_loop_map [of z mems n] by simp

lemma geo_insert_inv: "insert_zset (z\<lparr>isGeo := b\<rparr>) mem r = (a, z') \<Longrightarrow> zset_inv z \<Longrightarrow> zset_inv z'"
  using zset.add_inv [of "z\<lparr>isGeo := b\<rparr>" mem r] by (simp add: zset_inv_def)

lemma keeps_zadd: "keeps s c (handle_zadd s c)"
proof (cases "\<exists>key sms. ctx_command c = Some (ZaddCommand key sms)")
  case True
  then show ?thesis
    by (auto simp: handle_zadd_def Let_def kept_open_zset split: option.split RedisObject.split prod.split
        intro!: kept_intros intro: zadd_loop_inv [OF _ zset_obj [OF kept_open_zset]])
next
  case False
  then show ?thesis by (cases "ctx_command c"; cases "the (ctx_command c)") (simp_all add: handle_zadd_def)
qed

lemma keeps_zrem: "keeps s c (handle_zrem s c)"
proof (cases "\<exists>key mems. ctx_command c = Some (ZremCommand key mems)")
  case True
  then show ?thesis
    by (auto simp: handle_zrem_def Let_def split: option.split RedisObject.split prod.split
        intro!: kept_intros intro: zrem_loop_inv [OF _ zset_obj [OF kept_refl]])
next
  case False
  then show ?thesis by (cases "ctx_command c"; cases "the (ctx_command c)") (simp_all add: handle_zrem_def)
qed

lemma keeps_geoadd: "keeps s c (handle_geoadd e s c)"
proof (cases "\<exists>key lon lat r mem b. ctx_command c = Some (GeoAddCommand key lon lat r mem b)")
  case True
  then show ?thesis
    by (auto simp: handle_geoadd_def Let_def kept_open_zset split: option.split RedisObject.split prod.split
        intro!: kept_intros intro: geo_insert_inv [OF _ zset_obj [OF kept_open_zset]])
next
  case False
  then show ?thesis by (cases "ctx_command c"; cases "the (ctx_command c)") (simp_all add: handle_geoadd_def)
qed

lemma keeps_zrank: "keeps s c (handle_zrank s c)"
  by (cases "ctx_command c"; cases "the (ctx_command c)")
    (simp_all add: handle_zrank_def split: option.split RedisObject.split)

lemma keeps_zrange: "keeps s c (handle_zrange s c)"
  by (cases "ctx_command c"; cases "the (ctx_command c)")
    (simp_all add: handle_zrange_def Let_def split: option.split RedisObject.split)

lemma keeps_zcard: "keeps s c (handle_zcard s c)"
  by (cases "ctx_command c"; cases "the (ctx_command c)")
    (simp_all add: handle_zcard_def split: option.split RedisObject.split)

lemma keeps_zscore: "keeps s c (handle_zscore e s c)"
  by (cases "ctx_command c"; cases "the (ctx_command c)")
    (auto simp: handle_zscore_def intro!: kept_intros split: option.split RedisObject.split)

lemma keeps_geopos: "keeps s c (handle_geopos e s c)"
  by (cases "ctx_command c"; cases "the (ctx_command c)")
    (auto simp: handle_geopos_def respond_checked_def intro!: kept_intros split: option.split RedisObject.split)

lemma keeps_geodist: "keeps s c (handle_geodist e s c)"
  by (cases "ctx_command c"; cases "the (ctx_command c)")
    (auto simp: handle_geodist_def Let_def intro!: kept_intros split: option.split RedisObject.split)

lemma keeps_geosearch: "keeps s c (handle_geosearch e s c)"
  by (cases "ctx_command c"; cases "the (ctx_command c)")
    (auto simp: handle_geosearch_def intro!: kept_intros split: option.split RedisObject.split)

lemma keeps_keys: "keeps s c (handleKeys e s c)"
  by (cases "ctx_command c"; cases "the (ctx_command c)") (simp_all add: handleKeys_def Let_def)

lemma keeps_whoami: "keeps s c (handle_acl_whoami s c)"
  unfolding handle_acl_whoami_def by (auto intro!: kept_intros)

lemma keeps_getuser: "keeps s c (handle_acl_getuser s c)"
  by (cases "ctx_command c"; cases "the (ctx_command c)")
    (auto simp: handle_acl_getuser_def intro!: kept_intros)

lemmas keeps_handlers = keeps_set keeps_get keeps_incr keeps_push keeps_lists keeps_blpop keeps_xadd keeps_xrange
  keeps_xread keeps_zadd keeps_zrem keeps_geoadd keeps_zrank keeps_zrange keeps_zcard keeps_zscore keeps_geopos
  keeps_geodist keeps_geosearch keeps_keys keeps_whoami keeps_getuser

text \<open>The four commands of the dispatcher that do more.\<close>

definition control_command :: "Command \<Rightarrow> bool" where
  "control_command cmd \<longleftrightarrow> cmd_type cmd \<in> {MULTI, EXEC, DISCARD, SUBSCRIBE, PUBLISH}"

lemma keeps_call_other: "\<not> control_command cmd \<Longrightarrow> keeps s c (call_other e s c cmd)"
  by (cases cmd) (simp_all add: call_other_def control_command_def keeps_handlers handle_echo_def kept_ping)

end
