(* ===== verification/Db_Inv.thy ===== *)
theory Db_Inv
  imports Db
begin

text \<open>
  The invariant of the database under every command, and transactions. The dispatcher is
  taken apart into the commands that only work on data, which keep users, channels and
  clients (\<open>keeps_call_other\<close>), and the ones on transactions and channels; on a queue
  without \<open>EXEC\<close>, \<open>EXEC\<close> is the plain sequence \<open>run\<close> of the queued commands. No command
  makes a client disappear or changes its descriptor.
\<close>

section \<open>The invariant of the database\<close>

text \<open>
  A queue holds no \<open>EXEC\<close> and no \<open>DISCARD\<close>, and is empty outside a transaction; live
  clients have different descriptors.
\<close>

definition queue_ok :: "Client \<Rightarrow> bool" where
  "queue_ok cl \<longleftrightarrow> (\<forall>cmd \<in> set (queued_commands cl). cmd_type cmd \<noteq> EXEC \<and> cmd_type cmd \<noteq> DISCARD) \<and>
     (isClientOnTransaction cl \<or> queued_commands cl = [])"

definition queues_ok :: "state \<Rightarrow> bool" where
  "queues_ok s \<longleftrightarrow> (\<forall>cl \<in> ran (clients s). queue_ok cl)"

definition fds_ok :: "state \<Rightarrow> bool" where
  "fds_ok s \<longleftrightarrow> (\<forall>x y a b. clients s x = Some a \<longrightarrow> clients s y = Some b \<longrightarrow> fd a = fd b \<longrightarrow> x = y)"

definition db_inv :: "state \<Rightarrow> bool" where
  "db_inv s \<longleftrightarrow> deadlines_ok s \<and> objects_ok s \<and> counters_ok s \<and> queues_ok s \<and> fds_ok s"

text \<open>Both follow from what a step does to the single clients.\<close>

definition same_clients :: "state \<Rightarrow> state \<Rightarrow> bool" where
  "same_clients s t \<longleftrightarrow> (\<forall>x cl. clients t x = Some cl \<longrightarrow>
     (\<exists>cl0. clients s x = Some cl0 \<and> fd cl = fd cl0 \<and> (queue_ok cl0 \<longrightarrow> queue_ok cl)))"

lemma same_clients_ok:
  assumes "same_clients s t"
  shows "queues_ok s \<Longrightarrow> queues_ok t" "fds_ok s \<Longrightarrow> fds_ok t"
  using assms unfolding same_clients_def queues_ok_def fds_ok_def ran_def by (blast, metis)

lemma kept_client:
  assumes "kept s t" "clients t x = Some cl"
  obtains cl0 where "clients s x = Some cl0" "core cl = core cl0"
proof -
  have "map_option core (clients t x) = map_option core (clients s x)" using assms(1) by (simp add: kept_def)
  then show ?thesis using assms(2) that by (cases "clients s x") simp_all
qed

lemma queue_ok_core: "core a = core b \<Longrightarrow> queue_ok a = queue_ok b"
  by (simp add: queue_ok_def core_eqD [of a b])

lemma kept_same_clients: "kept s t \<Longrightarrow> same_clients s t"
  unfolding same_clients_def using core_eqD(4) queue_ok_core kept_client by metis

lemma kept_counters: "kept s t \<Longrightarrow> counters_ok s \<Longrightarrow> counters_ok t"
proof -
  assume k: "kept s t" and ok: "counters_ok s"
  have p: "pubsub_clients t = pubsub_clients s" using k by (simp add: kept_def)
  show "counters_ok t" unfolding counters_ok_def
  proof (intro conjI allI impI)
    show "finite (dom (pubsub_clients t))" using ok by (simp add: counters_ok_def p)
    fix x cl assume "clients t x = Some cl"
    then obtain cl0 where "clients s x = Some cl0" "core cl = core cl0" using k by (elim kept_client)
    then show "total_subscribed_channels cl = of_nat (subscriptions t x)"
      using ok core_eqD(7) [of cl cl0] subscriptions_cong [OF p, of x] by (simp add: counters_ok_def)
  qed
qed

lemma kept_inv: "kept s t \<Longrightarrow> db_inv s \<Longrightarrow> db_inv t"
  using kept_counters [of s t] same_clients_ok [OF kept_same_clients, of s t]
  unfolding db_inv_def by (simp add: kept_def)

lemma db_inv_update:
  assumes "db_inv s" "\<And>cl. queue_ok cl \<Longrightarrow> queue_ok (f cl)"
    "\<And>cl. fd (f cl) = fd cl \<and> total_subscribed_channels (f cl) = total_subscribed_channels cl"
  shows "db_inv (update_client x f s)"
proof -
  have "subscriptions (update_client x f s) y = subscriptions s y" for y
    by (rule subscriptions_cong) simp
  then have "counters_ok (update_client x f s)"
    using assms(1,3) by (auto simp: db_inv_def counters_ok_def)
  moreover have "same_clients s (update_client x f s)"
    using assms(2,3) by (auto simp: same_clients_def)
  ultimately show ?thesis using assms(1) same_clients_ok by (auto simp: db_inv_def)
qed

lemma db_inv_write [simp]: "db_inv s \<Longrightarrow> db_inv (write_to x f s)"
  by (rule kept_inv [of s]) simp_all

lemma transaction_flag:
  "isClientOnTransaction (addTransactionFlags cl)" "\<not> isClientOnTransaction (end_transaction cl)"
  by (simp_all add: isClientOnTransaction_def addTransactionFlags_def end_transaction_def resetFlags_def
      bit.conj_disj_distrib2)

lemma db_inv_end_transaction: "db_inv s \<Longrightarrow> db_inv (update_client x end_transaction s)"
  by (rule db_inv_update) (simp_all add: queue_ok_def end_transaction_def resetFlags_def)

lemma handle_multi_inv: "db_inv s \<Longrightarrow> handle_multi s c = Some (s', c') \<Longrightarrow> db_inv s' \<and> client c' = client c"
  by (auto simp: handle_multi_def intro!: db_inv_write db_inv_update)
    (simp_all add: queue_ok_def transaction_flag, simp_all add: addTransactionFlags_def)

lemma handle_discard_inv: "db_inv s \<Longrightarrow> handle_discard s c = Some (s', c') \<Longrightarrow> db_inv s' \<and> client c' = client c"
  by (auto simp: handle_discard_def Option.bind_eq_Some_conv db_inv_end_transaction split: if_splits)

lemma kept_publish_loop:
  "publish_loop ch msg xs t d n = (t', d', n') \<Longrightarrow> kept s t \<Longrightarrow> kept s t' \<and> client d' = client d"
  by (induction xs arbitrary: t d n) (auto simp: Let_def split: if_splits)

lemma db_inv_channel: "db_inv s \<Longrightarrow> db_inv (s\<lparr>pubsub_clients := (pubsub_clients s)(ch \<mapsto> channel s ch)\<rparr>)"
  using subscriptions_upd [of s ch "channel s ch"]
  by (auto simp: db_inv_def counters_ok_def deadlines_ok_def objects_ok_def queues_ok_def fds_ok_def)

lemma handlePublish_inv:
  assumes "db_inv s" "handlePublish s c = Some (s', c')"
  shows "db_inv s' \<and> client c' = client c"
proof -
  obtain ch msg where ch: "ctx_command c = Some (PublishCommand ch msg)"
    using assms(2) by (cases "ctx_command c"; cases "the (ctx_command c)") (simp_all add: handlePublish_def)
  let ?t = "s\<lparr>pubsub_clients := (pubsub_clients s)(ch \<mapsto> channel s ch)\<rparr>"
  obtain t d n where p: "publish_loop ch msg (channel s ch) ?t c 0 = (t, d, n)" by (metis prod_cases3)
  have "kept ?t t \<and> client d = client c" using kept_publish_loop [OF p kept_refl] .
  moreover have "s' = respond d (\<lambda>b. encode_integer b n) t" "c' = d"
    using assms(2) ch p by (auto simp: handlePublish_def)
  ultimately show ?thesis using kept_inv [OF _ db_inv_channel [OF assms(1)], of ch t] by auto
qed

lemma queue_ok_cong:
  "flags a AND MULTI_FLAG = flags b AND MULTI_FLAG \<Longrightarrow> queued_commands a = queued_commands b \<Longrightarrow> queue_ok a = queue_ok b"
  by (simp add: queue_ok_def isClientOnTransaction_def)

text \<open>The handlers on channels; the counters are treated with the handlers.\<close>

lemma subscribe_same_clients:
  "same_clients s (channel_reply verb ch x (update_client y
     (\<lambda>cl. (setClientPubSub cl)\<lparr>total_subscribed_channels := g cl\<rparr>) (s\<lparr>pubsub_clients := m\<rparr>)))"
  "same_clients s (channel_reply verb ch x (update_client y
     (\<lambda>cl. cl\<lparr>total_subscribed_channels := h cl\<rparr>) (s\<lparr>pubsub_clients := m\<rparr>)))"
  "same_clients s (channel_reply verb ch x (s\<lparr>pubsub_clients := m\<rparr>))"
  unfolding same_clients_def channel_reply_def setClientPubSub_def
  by (auto simp: bit.conj_disj_distrib2 elim!: queue_ok_cong [THEN iffD1, rotated 2])

lemma handleSubscribe_inv:
  assumes "db_inv s" "handleSubscribe s c = Some (s', c')"
  shows "db_inv s' \<and> client c' = client c"
proof -
  obtain ch where ch: "ctx_command c = Some (SubscribeCommand ch)"
    using assms(2) by (cases "ctx_command c"; cases "the (ctx_command c)") (simp_all add: handleSubscribe_def)
  have "same_clients s s'" "deadlines_ok s' = deadlines_ok s" "objects_ok s' = objects_ok s" "client c' = client c"
    using assms(2) ch subscribe_same_clients(1)
    by (auto simp: handleSubscribe_def Let_def) (simp_all add: channel_reply_def deadlines_ok_def objects_ok_def)
  moreover have "counters_ok s'"
    using handleSubscribe_counters [OF _ assms(2) ch] assms(1) by (simp add: db_inv_def)
  ultimately show ?thesis using assms(1) same_clients_ok [of s s'] by (simp add: db_inv_def)
qed

lemma handleUnSubscribe_inv:
  assumes "db_inv s" "handleUnSubscribe s c = Some (s', c')"
  shows "db_inv s' \<and> client c' = client c"
proof -
  obtain ch where ch: "ctx_command c = Some (UnSubscribeCommand ch)"
    using assms(2) by (cases "ctx_command c"; cases "the (ctx_command c)") (simp_all add: handleUnSubscribe_def)
  have "same_clients s s'" "deadlines_ok s' = deadlines_ok s" "objects_ok s' = objects_ok s" "client c' = client c"
    using assms(2) ch subscribe_same_clients(2,3)
    by (auto simp: handleUnSubscribe_def Let_def Option.bind_eq_Some_conv split: if_splits)
      (simp_all add: channel_reply_def deadlines_ok_def objects_ok_def)
  moreover have "counters_ok s'"
    using handleUnSubscribe_counters [OF _ assms(2) ch] assms(1) by (simp add: db_inv_def fds_ok_def)
  ultimately show ?thesis using assms(1) same_clients_ok [of s s'] by (simp add: db_inv_def)
qed

section \<open>The dispatcher keeps the invariant\<close>

lemma call_other_inv:
  assumes "db_inv s" "call_other e s c cmd = Some (s', c')"
  shows "db_inv s' \<and> client c' = client c"
proof (cases "control_command cmd")
  case False
  then show ?thesis using keeps_call_other [of cmd s c e] assms kept_inv by (auto simp: keeps_def)
next
  case True
  then show ?thesis using assms kept_inv [OF kept_ping assms(1), of c]
    by (cases cmd)
      (auto simp: call_other_def control_command_def dest: handle_multi_inv handle_discard_inv handleSubscribe_inv
        handlePublish_inv)
qed

text \<open>A plain sequence of commands.\<close>

primrec run :: "env \<Rightarrow> Command list \<Rightarrow> state \<times> ClientContext \<Rightarrow> step" where
  "run e [] sc = Some sc"
| "run e (cmd # cmds) sc = Option.bind (call_other e (fst sc) (snd sc) cmd) (run e cmds)"

lemma call_all_run:
  "\<forall>cmd \<in> set cmds. cmd_type cmd \<noteq> EXEC \<Longrightarrow> call_all e s c cmds = run e cmds (s, c)"
proof (induction cmds arbitrary: s c)
  case Nil
  then show ?case by (simp add: call_all.simps)
next
  case (Cons cmd cmds)
  then show ?case
    by (subst call_all.simps) (auto intro!: Option.bind_cong simp: fun_eq_iff)
qed

lemma run_inv: "run e cmds (s, c) = Some (s', c') \<Longrightarrow> db_inv s \<Longrightarrow> db_inv s' \<and> client c' = client c"
proof (induction cmds arbitrary: s c)
  case (Cons cmd cmds)
  from Cons.prems(1) obtain t d where "call_other e s c cmd = Some (t, d)" "run e cmds (t, d) = Some (s', c')"
    by (auto simp: Option.bind_eq_Some_conv)
  then show ?case using Cons.IH call_other_inv [OF Cons.prems(2)] by fastforce
qed simp

lemma call_simple: "cmd_type cmd \<noteq> EXEC \<Longrightarrow> call e s c cmd = call_other e s c cmd"
  unfolding call_def by (subst call_all_run, simp) (cases "call_other e s c cmd"; simp)

text \<open>\<open>EXEC\<close> runs the queue as a plain sequence and ends the transaction.\<close>

definition exec_sequence :: "env \<Rightarrow> state \<Rightarrow> ClientContext \<Rightarrow> Client \<Rightarrow> step" where
  "exec_sequence e s c cl =
     (if \<not> isClientOnTransaction cl
      then Some (respond c (\<lambda>b. encode_error b ''EXEC without MULTI'' ''ERR'') s, c)
      else map_option (\<lambda>(s, c). (update_client (client c) end_transaction s, c))
        (run e (queued_commands cl) (respond c (\<lambda>b. encode_array_header b (length (queued_commands cl))) s, c)))"

lemma call_exec:
  assumes "cmd_type cmd = EXEC" "clients s (client c) = Some cl" "queue_ok cl"
  shows "call e s c cmd = exec_sequence e s c cl"
proof -
  have q: "\<forall>cmd \<in> set (queued_commands cl). cmd_type cmd \<noteq> EXEC" using assms(3) by (simp add: queue_ok_def)
  show ?thesis
    unfolding call_def exec_sequence_def using assms(1,2)
    by (subst call_all.simps) (simp add: call_all_run [OF q] call_all.simps [of _ _ _ "[]"] map_option_case
        split_def split: option.split)
qed

lemma queues_okD: "db_inv s \<Longrightarrow> clients s x = Some cl \<Longrightarrow> queue_ok cl"
  by (auto simp: db_inv_def queues_ok_def intro: ranI)

lemma call_inv:
  assumes "db_inv s" "clients s (client c) = Some cl" "call e s c cmd = Some (s', c')"
  shows "db_inv s'"
proof (cases "cmd_type cmd = EXEC")
  case True
  then show ?thesis
    using assms call_exec [OF True assms(2) queues_okD [OF assms(1,2)]] run_inv [OF _ db_inv_write [OF assms(1)]]
    by (auto simp: exec_sequence_def db_inv_end_transaction split: if_splits)
next
  case False
  then show ?thesis using assms call_other_inv by (simp add: call_simple)
qed

lemma db_inv_cong:
  "db_inv (s\<lparr>users := u\<rparr>) = db_inv s" "db_inv (s\<lparr>watching_keys := w\<rparr>) = db_inv s"
  by (simp_all add: db_inv_def deadlines_ok_def objects_ok_def counters_ok_def queues_ok_def fds_ok_def
      subscriptions_def channel_def)

lemma queue_command_inv:
  assumes "db_inv s" "clients s (client c) = Some cl" "isClientOnTransaction cl"
    "cmd_type cmd \<noteq> EXEC" "cmd_type cmd \<noteq> DISCARD"
  shows "db_inv (fst (queue_command s c cmd))"
proof -
  let ?f = "\<lambda>cl. cl\<lparr>queued_commands := queued_commands cl @ [cmd]\<rparr>"
  have "same_clients s (update_client (client c) ?f s)"
    using assms(2-5) by (auto simp: same_clients_def queue_ok_def isClientOnTransaction_def)
  moreover have "subscriptions (update_client (client c) ?f s) y = subscriptions s y" for y
    by (rule subscriptions_cong) simp
  ultimately have "db_inv (update_client (client c) ?f s)"
    using assms(1) same_clients_ok [of s] by (auto simp: db_inv_def counters_ok_def)
  then show ?thesis unfolding queue_command_def Let_def fst_conv
    by (intro db_inv_write) (simp add: db_inv_cong)
qed

lemma handlePubSub_inv:
  assumes "db_inv s" "handlePubSub s c = Some (s', c')"
  shows "db_inv s'"
proof -
  let ?ping = "respond c (\<lambda>b. encode_bulk_string b []) (handle_ping (respond c (\<lambda>b. encode_array_header b 2) s) c)"
  have ping: "db_inv ?ping"
    by (intro db_inv_write kept_inv [OF kept_ping] assms(1))
  have "handleSubscribe s c = Some (s', c') \<or> handleUnSubscribe s c = Some (s', c') \<or> s' = ?ping \<or>
      (\<exists>f. s' = respond c f s)"
    using assms(2) by (cases "ctx_command c"; cases "the (ctx_command c)") (auto simp: handlePubSub_def Let_def)
  then show ?thesis
    using ping assms(1) handleSubscribe_inv handleUnSubscribe_inv db_inv_write by blast
qed

lemma handleGetConfig_inv: "db_inv s \<Longrightarrow> handleGetConfig e s c = Some (s', c') \<Longrightarrow> db_inv s'"
proof -
  have "db_inv s \<Longrightarrow> db_inv (fold (\<lambda>p s. if P p then respond c f s else s) ps s)" for P f ps
    by (induction ps arbitrary: s) simp_all
  then show "db_inv s \<Longrightarrow> handleGetConfig e s c = Some (s', c') \<Longrightarrow> db_inv s'"
    by (cases "ctx_command c"; cases "the (ctx_command c)") (auto simp: handleGetConfig_def)
qed

lemma handle_acl_setuser_inv: "db_inv s \<Longrightarrow> handle_acl_setuser e s c = Some (s', c') \<Longrightarrow> db_inv s'"
  by (cases "ctx_command c"; cases "the (ctx_command c)")
    (auto simp: handle_acl_setuser_def Let_def db_inv_cong intro!: db_inv_write)

lemma log_in_inv: "db_inv s \<Longrightarrow> db_inv (log_in c name s)"
  unfolding log_in_def by (intro db_inv_write db_inv_update) (simp_all add: queue_ok_def isClientOnTransaction_def)

lemma handle_auth_inv: "db_inv s \<Longrightarrow> handle_auth e s c = Some (s', c') \<Longrightarrow> db_inv s'"
  by (cases "ctx_command c"; cases "the (ctx_command c)")
    (auto simp: handle_auth_def wrong_pass_def log_in_inv split: option.splits if_splits)

lemma execute_inv:
  assumes "db_inv s" "execute e s c = Some (s', c')"
  shows "db_inv s'"
proof (cases "ctx_command c")
  case (Some cmd)
  then obtain cl where cl: "clients s (client c) = Some cl"
    using assms(2) by (auto simp: execute_def Option.bind_eq_Some_conv)
  show ?thesis
    using assms Some cl queue_command_inv [OF assms(1) cl, of cmd] call_inv [OF assms(1) cl, of e cmd]
    by (auto simp: execute_def dest: handlePubSub_inv handleGetConfig_inv handle_acl_setuser_inv handle_auth_inv
        split: if_splits)
qed (use assms in \<open>simp add: execute_def\<close>)

section \<open>Transactions\<close>

text \<open>The commands of one client, one after the other.\<close>

primrec submit :: "env \<Rightarrow> Command list \<Rightarrow> state \<times> ClientContext \<Rightarrow> step" where
  "submit e [] sc = Some sc"
| "submit e (cmd # cmds) sc =
     Option.bind (execute e (fst sc) ((snd sc)\<lparr>ctx_command := Some cmd\<rparr>)) (submit e cmds)"

lemma submit_append:
  "submit e (xs @ ys) sc = Option.bind (submit e xs sc) (submit e ys)"
  by (induction xs arbitrary: sc) (simp_all add: Option.bind_assoc cong: Option.bind_cong)

lemma submit_inv: "submit e cmds (s, c) = Some (s', c') \<Longrightarrow> db_inv s \<Longrightarrow> db_inv s'"
proof (induction cmds arbitrary: s c)
  case (Cons cmd cmds)
  then show ?case using execute_inv by (fastforce simp: Option.bind_eq_Some_conv)
qed simp

text \<open>A command that a transaction queues.\<close>

definition queueable :: "Client \<Rightarrow> Command \<Rightarrow> bool" where
  "queueable cl cmd \<longleftrightarrow> cmd_type cmd \<noteq> EXEC \<and> cmd_type cmd \<noteq> DISCARD \<and>
     (cmd_type cmd = ACL_WHOAMI \<longrightarrow> is_authenticated cl)"

lemma queue_command_simps [simp]:
  "client (snd (queue_command s c cmd)) = client c"
  "store (fst (queue_command s c cmd)) = store s" "expiration (fst (queue_command s c cmd)) = expiration s"
  "clients (fst (queue_command s c cmd)) x =
     (if x = client c then map_option (\<lambda>cl. cl\<lparr>queued_commands := queued_commands cl @ [cmd],
        write_buffer := encode_simple_string (write_buffer cl) ''QUEUED''\<rparr>) (clients s x) else clients s x)"
  by (simp_all add: queue_command_def Let_def option.map_comp comp_def)

lemma client_update_commute:
  "(cl\<lparr>queued_commands := q, write_buffer := w\<rparr>)\<lparr>queued_commands := q', write_buffer := w'\<rparr> =
     cl\<lparr>queued_commands := q', write_buffer := w'\<rparr>" for cl :: Client
  by (cases cl) simp

lemma submit_queued:
  assumes "clients s (client c) = Some cl" "isClientOnTransaction cl" "list_all (queueable cl) cmds"
  shows "\<exists>s' c'. submit e cmds (s, c) = Some (s', c') \<and> client c' = client c \<and>
    store s' = store s \<and> expiration s' = expiration s \<and>
    (\<forall>x. x \<noteq> client c \<longrightarrow> clients s' x = clients s x) \<and>
    clients s' (client c) = Some (cl\<lparr>queued_commands := queued_commands cl @ cmds,
      write_buffer := write_buffer cl @ concat (replicate (length cmds) (''+QUEUED'' @ CRLF))\<rparr>)"
  using assms
proof (induction cmds arbitrary: s c cl)
  case Nil
  then show ?case by (cases cl) simp
next
  case (Cons cmd cmds)
  let ?c = "c\<lparr>ctx_command := Some cmd\<rparr>"
  let ?sc = "queue_command s ?c cmd"
  let ?cl = "cl\<lparr>queued_commands := queued_commands cl @ [cmd],
    write_buffer := encode_simple_string (write_buffer cl) ''QUEUED''\<rparr>"
  have x: "execute e s ?c = Some ?sc" using Cons.prems by (auto simp: execute_def queueable_def)
  have "clients (fst ?sc) (client (snd ?sc)) = Some ?cl" "isClientOnTransaction ?cl" "list_all (queueable ?cl) cmds"
    using Cons.prems by (simp_all add: isClientOnTransaction_def queueable_def [abs_def])
  from Cons.IH [OF this] show ?case using x
    by (auto simp: encode_simple_string_def client_update_commute simp del: queue_command_simps(4))
      (simp_all)
qed

text \<open>The state at the end of the queueing.\<close>

lemma submit_multi_queued:
  assumes "db_inv s" "clients s (client c) = Some cl" "\<not> isClientOnTransaction cl" "\<not> isClientOnPubSub cl"
    "list_all (queueable cl) cmds"
  shows "\<exists>s' c' cl'. submit e (MultiCommand # cmds) (s, c) = Some (s', c') \<and> client c' = client c \<and>
    store s' = store s \<and> expiration s' = expiration s \<and> db_inv s' \<and>
    clients s' (client c) = Some cl' \<and> isClientOnTransaction cl' \<and> \<not> isClientOnPubSub cl' \<and>
    queued_commands cl' = cmds \<and>
    write_buffer cl' = write_buffer cl @ ''+OK'' @ CRLF @ concat (replicate (length cmds) (''+QUEUED'' @ CRLF))"
proof -
  let ?c = "c\<lparr>ctx_command := Some MultiCommand\<rparr>"
  let ?cl = "(addTransactionFlags cl)\<lparr>write_buffer := encode_simple_string (write_buffer cl) ''OK''\<rparr>"
  let ?s = "respond ?c (\<lambda>b. encode_simple_string b ''OK'') (update_client (client c) addTransactionFlags s)"
  have x: "execute e s ?c = Some (?s, ?c)"
    using assms(2-4) by (simp add: execute_def call_simple call_other_def handle_multi_def)
  have q: "queued_commands cl = []" using queues_okD [OF assms(1,2)] assms(3) by (simp add: queue_ok_def)
  have flag: "isClientOnTransaction ?cl" "\<not> isClientOnPubSub ?cl"
    using assms(4) transaction_flag(1) [of cl]
    by (simp_all add: isClientOnTransaction_def isClientOnPubSub_def addTransactionFlags_def bit.conj_disj_distrib2)
  have "list_all (queueable ?cl) cmds"
    using assms(5) by (simp add: queueable_def [abs_def] addTransactionFlags_def)
  moreover have "clients ?s (client ?c) = Some ?cl" using assms(2) by (simp add: addTransactionFlags_def)
  ultimately obtain s' c' where 1: "submit e cmds (?s, ?c) = Some (s', c')" "client c' = client c"
      "store s' = store s" "expiration s' = expiration s"
      "clients s' (client c) = Some (?cl\<lparr>queued_commands := cmds,
        write_buffer := write_buffer ?cl @ concat (replicate (length cmds) (''+QUEUED'' @ CRLF))\<rparr>)"
    using submit_queued [of ?s ?c ?cl cmds e] flag(1) q by (auto simp: addTransactionFlags_def)
  have "submit e (MultiCommand # cmds) (s, c) = Some (s', c')" using x 1(1) by simp
  moreover from this have "db_inv s'" using submit_inv assms(1) by blast
  ultimately show ?thesis using 1 flag
    by (intro exI [of _ s'] exI [of _ c'] exI)
      (auto simp: isClientOnTransaction_def isClientOnPubSub_def encode_simple_string_def)
qed


lemma transaction_discard:
  assumes "db_inv s" "clients s (client c) = Some cl" "\<not> isClientOnTransaction cl" "\<not> isClientOnPubSub cl"
    "list_all (queueable cl) cmds"
  shows "\<exists>s' c' cl'. submit e (MultiCommand # cmds @ [DiscardCommand]) (s, c) = Some (s', c') \<and>
    store s' = store s \<and> expiration s' = expiration s \<and> clients s' (client c) = Some cl' \<and>
    \<not> isClientOnTransaction cl' \<and> queued_commands cl' = []"
proof -
  obtain s' c' cl' where 1: "submit e (MultiCommand # cmds) (s, c) = Some (s', c')" "client c' = client c"
    "store s' = store s" "expiration s' = expiration s"
    "clients s' (client c) = Some cl'" "isClientOnTransaction cl'" "\<not> isClientOnPubSub cl'"
    using submit_multi_queued [OF assms] by blast
  let ?c = "c'\<lparr>ctx_command := Some DiscardCommand\<rparr>"
  let ?s = "respond ?c (\<lambda>b. encode_simple_string b ''OK'') (update_client (client c) end_transaction s')"
  have "execute e s' ?c = Some (?s, ?c)"
    using 1 by (simp add: execute_def call_simple call_other_def handle_discard_def)
  then have "submit e (MultiCommand # cmds @ [DiscardCommand]) (s, c) = Some (?s, ?c)"
    using 1(1) submit_append [of e "MultiCommand # cmds" "[DiscardCommand]" "(s, c)"] by simp
  moreover have "clients ?s (client c) = Some ((end_transaction cl')\<lparr>write_buffer :=
      encode_simple_string (write_buffer cl') ''OK''\<rparr>)"
    using 1 by (simp add: end_transaction_def resetFlags_def)
  ultimately show ?thesis using 1(3,4)
    by (auto simp: end_transaction_def resetFlags_def isClientOnTransaction_def)
qed

section \<open>Clients stay\<close>

text \<open>No command makes a client disappear or changes its descriptor or the bytes it has sent.\<close>

definition inputs_kept :: "state \<Rightarrow> state \<Rightarrow> bool" where
  "inputs_kept s t \<longleftrightarrow> (\<forall>x. map_option (\<lambda>cl. (fd cl, read_buffer cl)) (clients t x) =
     map_option (\<lambda>cl. (fd cl, read_buffer cl)) (clients s x))"

lemma inputs_kept_refl [simp]: "inputs_kept s s"
  by (simp add: inputs_kept_def)

lemma inputs_kept_trans: "inputs_kept s t \<Longrightarrow> inputs_kept t u \<Longrightarrow> inputs_kept s u"
  by (simp add: inputs_kept_def)

lemma kept_inputs_kept: "kept s t \<Longrightarrow> inputs_kept s t"
proof -
  assume "kept s t"
  then have "map_option (\<lambda>cl. (fd cl, read_buffer cl)) (map_option core (clients t x)) =
      map_option (\<lambda>cl. (fd cl, read_buffer cl)) (map_option core (clients s x))" for x
    by (simp add: kept_def)
  then show ?thesis by (simp add: inputs_kept_def option.map_comp comp_def core_def)
qed

lemma inputs_kept_update:
  "(\<And>cl. fd (f cl) = fd cl \<and> read_buffer (f cl) = read_buffer cl) \<Longrightarrow> inputs_kept s (update_client x f t) = inputs_kept s t"
  by (auto simp: inputs_kept_def option.map_comp comp_def)

lemma inputs_kept_write [simp]:
  "inputs_kept s (write_to x g t) = inputs_kept s t" "inputs_kept s (update_client x end_transaction t) = inputs_kept s t"
  "inputs_kept s (update_client x addTransactionFlags t) = inputs_kept s t" "inputs_kept s (t\<lparr>users := u\<rparr>) = inputs_kept s t"
  "inputs_kept s (t\<lparr>pubsub_clients := p\<rparr>) = inputs_kept s t" "inputs_kept s (t\<lparr>watching_keys := w\<rparr>) = inputs_kept s t"
  "inputs_kept s (channel_reply verb ch x t) = inputs_kept s t" "inputs_kept s (wrong_pass c t) = inputs_kept s t"
  "inputs_kept s (log_in c n t) = inputs_kept s t"
  unfolding write_to_def channel_reply_def wrong_pass_def log_in_def
  by (simp_all add: inputs_kept_update end_transaction_def resetFlags_def addTransactionFlags_def)
    (simp_all add: inputs_kept_def)

lemma subscribe_inputs:
  "handleSubscribe s c = Some (s', c') \<Longrightarrow> inputs_kept s s'" "handleUnSubscribe s c = Some (s', c') \<Longrightarrow> inputs_kept s s'"
  by (cases "ctx_command c"; cases "the (ctx_command c)";
      force simp: handleSubscribe_def handleUnSubscribe_def Let_def inputs_kept_update setClientPubSub_def
        Option.bind_eq_Some_conv split: if_splits)+

lemma publish_inputs: "handlePublish s c = Some (s', c') \<Longrightarrow> inputs_kept s s'"
proof -
  assume h: "handlePublish s c = Some (s', c')"
  then obtain ch msg where ch: "ctx_command c = Some (PublishCommand ch msg)"
    by (cases "ctx_command c"; cases "the (ctx_command c)") (simp_all add: handlePublish_def)
  let ?t = "s\<lparr>pubsub_clients := (pubsub_clients s)(ch \<mapsto> channel s ch)\<rparr>"
  obtain t d n where p: "publish_loop ch msg (channel s ch) ?t c 0 = (t, d, n)" by (metis prod_cases3)
  have "inputs_kept ?t t" using kept_publish_loop [OF p kept_refl] kept_inputs_kept by blast
  then have "inputs_kept s t" by (simp add: inputs_kept_def)
  moreover have "s' = respond d (\<lambda>b. encode_integer b n) t" using h ch p by (auto simp: handlePublish_def)
  ultimately show ?thesis by simp
qed

lemma call_other_inputs: "call_other e s c cmd = Some (s', c') \<Longrightarrow> inputs_kept s s'"
proof (cases "control_command cmd")
  case False
  then show "call_other e s c cmd = Some (s', c') \<Longrightarrow> inputs_kept s s'"
    using keeps_call_other [of cmd s c e] kept_inputs_kept by (auto simp: keeps_def)
next
  case True
  then show "call_other e s c cmd = Some (s', c') \<Longrightarrow> inputs_kept s s'"
    using kept_inputs_kept [OF kept_ping, of s c] subscribe_inputs publish_inputs
    by (cases cmd) (auto simp: call_other_def control_command_def handle_multi_def handle_discard_def
        Option.bind_eq_Some_conv split: if_splits)
qed

lemma run_inputs: "run e cmds (s, c) = Some (s', c') \<Longrightarrow> inputs_kept s s'"
proof (induction cmds arbitrary: s c)
  case (Cons cmd cmds)
  then show ?case using call_other_inputs inputs_kept_trans by (fastforce simp: Option.bind_eq_Some_conv)
qed simp

lemma call_inputs:
  assumes "db_inv s" "clients s (client c) = Some cl" "call e s c cmd = Some (s', c')"
  shows "inputs_kept s s'"
proof (cases "cmd_type cmd = EXEC")
  case True
  let ?s = "respond c (\<lambda>b. encode_array_header b (length (queued_commands cl))) s"
  have "inputs_kept ?s t \<Longrightarrow> inputs_kept s t" for t using inputs_kept_trans [of s ?s t] by simp
  then show ?thesis
    using assms call_exec [OF True assms(2) queues_okD [OF assms(1,2)]] run_inputs
    by (fastforce simp: exec_sequence_def split: if_splits)
next
  case False
  then show ?thesis using assms call_other_inputs by (simp add: call_simple)
qed

lemma pubsub_inputs: "handlePubSub s c = Some (s', c') \<Longrightarrow> inputs_kept s s'"
proof -
  assume h: "handlePubSub s c = Some (s', c')"
  let ?s = "respond c (\<lambda>b. encode_array_header b 2) s"
  have "inputs_kept s (handle_ping ?s c)" using inputs_kept_trans [of s ?s] kept_inputs_kept [OF kept_ping, of ?s c] by simp
  moreover have "handleSubscribe s c = Some (s', c') \<or> handleUnSubscribe s c = Some (s', c') \<or>
      s' = respond c (\<lambda>b. encode_bulk_string b []) (handle_ping ?s c) \<or> (\<exists>f. s' = respond c f s)"
    using h by (cases "ctx_command c"; cases "the (ctx_command c)") (auto simp: handlePubSub_def Let_def)
  ultimately show ?thesis using subscribe_inputs by auto
qed

lemma admin_inputs:
  "handleGetConfig e s c = Some (s', c') \<Longrightarrow> inputs_kept s s'"
  "handle_acl_setuser e s c = Some (s', c') \<Longrightarrow> inputs_kept s s'"
  "handle_auth e s c = Some (s', c') \<Longrightarrow> inputs_kept s s'"
proof -
  have "inputs_kept s t \<Longrightarrow> inputs_kept s (fold (\<lambda>p s. if P p then respond c f s else s) ps t)" for P f ps t
    by (induction ps arbitrary: t) simp_all
  from this [of s] show "handleGetConfig e s c = Some (s', c') \<Longrightarrow> inputs_kept s s'"
    by (cases "ctx_command c"; cases "the (ctx_command c)") (auto simp: handleGetConfig_def)
  show "handle_acl_setuser e s c = Some (s', c') \<Longrightarrow> inputs_kept s s'"
    by (cases "ctx_command c"; cases "the (ctx_command c)") (auto simp: handle_acl_setuser_def Let_def)
  show "handle_auth e s c = Some (s', c') \<Longrightarrow> inputs_kept s s'"
    by (cases "ctx_command c"; cases "the (ctx_command c)")
      (auto simp: handle_auth_def split: option.splits if_splits)
qed

lemma execute_inputs:
  assumes "db_inv s" "execute e s c = Some (s', c')"
  shows "inputs_kept s s'"
proof (cases "ctx_command c")
  case (Some cmd)
  then obtain cl where cl: "clients s (client c) = Some cl"
    using assms(2) by (auto simp: execute_def Option.bind_eq_Some_conv)
  have "inputs_kept s (fst (queue_command s c cmd))" by (simp add: queue_command_def Let_def inputs_kept_update)
  then show ?thesis
    using assms Some cl call_inputs [OF assms(1) cl, of e cmd]
    by (auto simp: execute_def dest: pubsub_inputs admin_inputs split: if_splits)
qed (use assms in \<open>simp add: execute_def\<close>)

text \<open>Descriptors alone, which also reading from a connection keeps.\<close>

definition fds_kept :: "state \<Rightarrow> state \<Rightarrow> bool" where
  "fds_kept s t \<longleftrightarrow> (\<forall>x. map_option fd (clients t x) = map_option fd (clients s x))"

lemma fds_kept_refl [simp]: "fds_kept s s"
  by (simp add: fds_kept_def)

lemma fds_kept_trans: "fds_kept s t \<Longrightarrow> fds_kept t u \<Longrightarrow> fds_kept s u"
  by (simp add: fds_kept_def)

lemma fds_kept_update: "(\<And>cl. fd (f cl) = fd cl) \<Longrightarrow> fds_kept s (update_client x f t) = fds_kept s t"
  by (auto simp: fds_kept_def option.map_comp comp_def)

lemma inputs_fds_kept: "inputs_kept s t \<Longrightarrow> fds_kept s t"
proof -
  assume "inputs_kept s t"
  then have "map_option fst (map_option (\<lambda>cl. (fd cl, read_buffer cl)) (clients t x)) =
      map_option fst (map_option (\<lambda>cl. (fd cl, read_buffer cl)) (clients s x))" for x
    by (simp add: inputs_kept_def)
  then show ?thesis by (simp add: fds_kept_def option.map_comp comp_def)
qed

lemmas kept_fds_kept = inputs_fds_kept [OF kept_inputs_kept]
lemmas execute_fds = inputs_fds_kept [OF execute_inputs]

end
