(* ===== verification/Replication.thy ===== *)
theory Replication
  imports Db_Inv "HOL-Library.AList"
begin

text \<open>
  The master side of replication, \<open>src/src/replication.cpp\<close>, on the state of the server: the
  database, the configuration (\<open>src/src/models/server-model.h\<close>), the registered replicas,
  the clients that wait for acknowledgements and the connections. A connection and its
  client live and end together, so a connection is named by its client; \<open>flush\<close> asks the
  event loop to write, which is the set \<open>writing\<close>. The map of replicas is an association
  list in iteration order. The theorems: \<open>WAIT\<close> answers with the number of replicas that
  have acknowledged the offset, at once, when an acknowledgement completes it or at the
  timeout, and each waiting client is answered once; a write command reaches every replica.
\<close>

section \<open>Definitions\<close>

datatype ServerRole = MASTER | SLAVE

record ServerConfig =
  role :: ServerRole
  port :: int
  master_host :: string
  master_port :: int
  replication_id :: string
  offset :: u64
  rdb_file_path :: string
  rdb_file_name :: string

definition default_config :: ServerConfig where
  "default_config =
     \<lparr>role = MASTER, port = 6379, master_host = [], master_port = 0,
      replication_id = ''8371b4fb1155b71f4a04d3e1bc3e18c4a990aeeb'', offset = 0,
      rdb_file_path = [], rdb_file_name = []\<rparr>"

record BlockedWaitClient = BlockedClient +
  num_replicas_needed :: u64
  master_offset :: int

record server =
  sdb :: state
  config :: ServerConfig
  slave_connections :: "(int \<times> cid) list"
  blocked_wait_clients :: "BlockedWaitClient list"
  active_connections :: "int \<rightharpoonup> cid"
  writing :: "cid set"

definition on_db :: "(state \<Rightarrow> state) \<Rightarrow> server \<Rightarrow> server" where
  "on_db f v = v\<lparr>sdb := f (sdb v)\<rparr>"

text \<open>\<open>TcpConnection::flush\<close>.\<close>

definition flush :: "cid \<Rightarrow> server \<Rightarrow> server" where
  "flush x v = (if buffer_of (sdb v) x \<noteq> [] then v\<lparr>writing := insert x (writing v)\<rparr> else v)"

definition get_empty_rdb :: string where
  "get_empty_rdb = map char_of [0x52::nat, 0x45, 0x44, 0x49, 0x53, 0x30, 0x30, 0x31, 0x31, 0xFF,
     0, 0, 0, 0, 0, 0, 0, 0]"

text \<open>\<open>fs\<close> gives the bytes of the files that can be opened and read.\<close>

definition read_rdb_file :: "(string \<rightharpoonup> string) \<Rightarrow> string \<Rightarrow> string" where
  "read_rdb_file fs path = (case fs path of None \<Rightarrow> get_empty_rdb | Some content \<Rightarrow> content)"

definition info_text :: "ServerConfig \<Rightarrow> string" where
  "info_text cfg =
     (if role cfg = MASTER
      then ''role:master'' @ CRLF @ ''master_replid:'' @ replication_id cfg @ CRLF @
        ''master_repl_offset:'' @ nat_to_string (unat (offset cfg)) @ CRLF
      else ''role:slave'' @ CRLF)"

definition handle_info :: "server \<Rightarrow> ClientContext \<Rightarrow> server" where
  "handle_info v c = on_db (respond c (\<lambda>b. encode_bulk_string b (info_text (config v)))) v"

text \<open>The replicas that have acknowledged an offset.\<close>

definition acked :: "state \<Rightarrow> (int \<times> cid) list \<Rightarrow> int \<Rightarrow> nat" where
  "acked s slaves off =
     length (filter (\<lambda>(_, x). case clients s x of None \<Rightarrow> False | Some cl \<Rightarrow> off \<le> replica_offset cl) slaves)"

definition wait_reply :: "nat \<Rightarrow> string \<Rightarrow> string" where
  "wait_reply n w = w @ '':'' @ nat_to_string n @ CRLF"

fun check_wait_loop ::
  "(int \<times> cid) list \<Rightarrow> BlockedWaitClient list \<Rightarrow> state \<Rightarrow> ClientContext \<Rightarrow>
     BlockedWaitClient list \<times> state \<times> ClientContext" where
  "check_wait_loop slaves [] s c = ([], s, c)"
| "check_wait_loop slaves (b # bs) s c =
     (if clients s (blocked_cid b) = None then check_wait_loop slaves bs s c
      else
        let n = acked s slaves (master_offset b) in
        if unat (num_replicas_needed b) \<le> n
        then check_wait_loop slaves bs (write_to (blocked_cid b) (wait_reply n) s)
          (c\<lparr>unblocked_client_fd := blocked_fd b\<rparr>)
        else let (bs, s, c) = check_wait_loop slaves bs s c in (b # bs, s, c))"

definition check_blocked_wait_clients :: "server \<Rightarrow> ClientContext \<Rightarrow> server \<times> ClientContext" where
  "check_blocked_wait_clients v c =
     (let (bs, s, c) = check_wait_loop (slave_connections v) (blocked_wait_clients v) (sdb v) c
      in (v\<lparr>sdb := s, blocked_wait_clients := bs\<rparr>, c))"

definition handle_replconf ::
  "server \<Rightarrow> ClientContext \<Rightarrow> ReplConfType \<Rightarrow> int \<Rightarrow> server \<times> ClientContext" where
  "handle_replconf v c subcommand ack_offset =
     (if subcommand = ACK
      then check_blocked_wait_clients
        (on_db (update_client (client c) (\<lambda>cl. cl\<lparr>replica_offset := ack_offset\<rparr>)) v) c
      else (on_db (respond c (\<lambda>b. encode_simple_string b ''OK'')) v, c))"

text \<open>\<open>slave_connections[fd] = conn\<close> and \<open>erase\<close>.\<close>

definition addSlaveConnection :: "int \<Rightarrow> cid \<Rightarrow> server \<Rightarrow> server" where
  "addSlaveConnection n x v = v\<lparr>slave_connections := AList.update n x (slave_connections v)\<rparr>"

definition removeSlaveConnection :: "int \<Rightarrow> server \<Rightarrow> server" where
  "removeSlaveConnection n v = v\<lparr>slave_connections := AList.delete n (slave_connections v)\<rparr>"

definition handle_psync :: "(string \<rightharpoonup> string) \<Rightarrow> server \<Rightarrow> ClientContext \<Rightarrow> server option" where
  "handle_psync fs v c = do {
     cl \<leftarrow> clients (sdb v) (client c);
     let rdb_content = read_rdb_file fs (rdb_file_path (config v));
     let v = on_db (respond c (\<lambda>b.
       encode_simple_string b (''FULLRESYNC '' @ replication_id (config v) @ '' 0'') @
       ''$'' @ nat_to_string (length rdb_content) @ CRLF @ rdb_content)) v;
     Some (if \<not> isslave cl
       then addSlaveConnection (client_fd c) (client c)
         (on_db (update_client (client c) (\<lambda>cl. cl\<lparr>isslave := True\<rparr>)) v)
       else v) }"

definition getack_cmd :: string where
  "getack_cmd = ''*3'' @ CRLF @ bulk ''REPLCONF'' @ bulk ''GETACK'' @ bulk ''*''"

definition send_getacks :: "(int \<times> cid) list \<Rightarrow> server \<Rightarrow> server" where
  "send_getacks slaves v =
     fold (\<lambda>(_, x) v. if clients (sdb v) x \<noteq> None
       then flush x (on_db (write_to x (\<lambda>w. w @ getack_cmd)) v) else v) slaves v"

definition handle_wait :: "env \<Rightarrow> server \<Rightarrow> ClientContext \<Rightarrow> u64 \<Rightarrow> u64 \<Rightarrow> (server \<times> ClientContext) option" where
  "handle_wait e v c num_replica timeout_ms =
     (let off = offset (config v); slaves = slave_connections v in
      if off = 0 then Some (on_db (respond c (wait_reply (length slaves))) v, c)
      else
        let already_acked = acked (sdb v) slaves (sint off) in
        if unat num_replica \<le> already_acked
        then Some (on_db (respond c (wait_reply already_acked)) v, c)
        else do {
          let v = send_getacks slaves v;
          t \<leftarrow> (if timeout_ms = 0 then Some None
                else map_option Some (later (steady_now e) NS_PER_MS (sint timeout_ms)));
          let b = \<lparr>blocked_cid = client c, blocked_fd = client_fd c, timeout_at = t,
                   num_replicas_needed = num_replica, master_offset = sint off\<rparr>;
          Some (v\<lparr>blocked_wait_clients := blocked_wait_clients v @ [b]\<rparr>, c\<lparr>isBlocked := True\<rparr>) })"

fun expire_wait_loop ::
  "time \<Rightarrow> (int \<times> cid) list \<Rightarrow> BlockedWaitClient list \<Rightarrow> state \<Rightarrow>
     BlockedWaitClient list \<times> state \<times> int list" where
  "expire_wait_loop now slaves [] s = ([], s, [])"
| "expire_wait_loop now slaves (b # bs) s =
     (if is_expired now b then
        (if clients s (blocked_cid b) = None then expire_wait_loop now slaves bs s
         else
           let n = acked s slaves (master_offset b);
               (bs, s, fds) = expire_wait_loop now slaves bs (write_to (blocked_cid b) (wait_reply n) s)
           in (bs, s, blocked_fd b # fds))
      else let (bs, s, fds) = expire_wait_loop now slaves bs s in (b # bs, s, fds))"

definition check_and_expire_blocked_wait_clients :: "time \<Rightarrow> server \<Rightarrow> server \<times> int list" where
  "check_and_expire_blocked_wait_clients now v =
     (let (bs, s, fds) = expire_wait_loop now (slave_connections v) (blocked_wait_clients v) (sdb v)
      in (v\<lparr>sdb := s, blocked_wait_clients := bs\<rparr>, fds))"

text \<open>Whole milliseconds of a duration: the conversion truncates towards zero.\<close>

definition duration_ms :: "int \<Rightarrow> int" where
  "duration_ms d = (if d < 0 then - (- d div 1000000) else d div 1000000)"

fun wait_timeout_loop :: "time \<Rightarrow> 'b BlockedClient_scheme list \<Rightarrow> int \<Rightarrow> int" where
  "wait_timeout_loop now [] m = m"
| "wait_timeout_loop now (b # bs) m =
     (case timeout_at b of
        None \<Rightarrow> wait_timeout_loop now bs m
      | Some t \<Rightarrow>
          let remaining = duration_ms (t - now) in
          if remaining \<le> 0 then 0
          else wait_timeout_loop now bs (if m = - 1 \<or> remaining < m then to_int32 remaining else m))"

definition get_next_wait_timeout_ms :: "time \<Rightarrow> server \<Rightarrow> int" where
  "get_next_wait_timeout_ms now v = wait_timeout_loop now (blocked_wait_clients v) (- 1)"

definition handle ::
  "env \<Rightarrow> (string \<rightharpoonup> string) \<Rightarrow> server \<Rightarrow> ClientContext \<Rightarrow> (bool \<times> server \<times> ClientContext) option" where
  "handle e fs v c =
     (case ctx_command c of
        Some (InfoCommand _) \<Rightarrow> Some (True, handle_info v c, c)
      | Some (ReplConfCommand sub _ _ ack) \<Rightarrow> Some (True, handle_replconf v c sub ack)
      | Some (PsyncCommand _ _) \<Rightarrow> map_option (\<lambda>v. (True, v, c)) (handle_psync fs v c)
      | Some (WaitCommand n t) \<Rightarrow> map_option (Pair True) (handle_wait e v c n t)
      | _ \<Rightarrow> Some (False, v, c))"

text \<open>\<open>nbytes\<close> is the member \<open>bytes_processed\<close> of the command of the context.\<close>

definition handle_propagate :: "env \<Rightarrow> server \<Rightarrow> ClientContext \<Rightarrow> nat \<Rightarrow> bool \<times> server" where
  "handle_propagate e v c nbytes =
     (case ctx_command c of
        None \<Rightarrow> (False, v)
      | Some cmd \<Rightarrow>
          if slave_connections v = [] \<or> \<not> is_write_command cmd then (False, v)
          else
            let raw_resp_command = to_resp (fixed e 6) cmd;
                v = v\<lparr>config := (config v)\<lparr>offset := offset (config v) + of_nat nbytes\<rparr>\<rparr>;
                inactive = filter (\<lambda>(_, x). clients (sdb v) x = None) (slave_connections v);
                v = fold (\<lambda>(_, x). on_db (write_to x (\<lambda>w. w @ raw_resp_command))) (slave_connections v) v
            in (True, fold (\<lambda>(n, _). removeSlaveConnection n) inactive v))"

definition propagateAndNotifySlaves :: "env \<Rightarrow> server \<Rightarrow> ClientContext \<Rightarrow> nat \<Rightarrow> server" where
  "propagateAndNotifySlaves e v c nbytes =
     (let v = snd (handle_propagate e v c nbytes)
      in fold (\<lambda>(_, x). flush x) (slave_connections v) v)"

section \<open>Waiting for acknowledgements\<close>

lemma acked_write_to [simp]: "acked (write_to x f s) slaves off = acked s slaves off"
  unfolding acked_def by (intro arg_cong [where f = length] filter_cong) (auto split: option.split)

lemma acked_le: "acked s slaves off \<le> length slaves"
  unfolding acked_def by (rule length_filter_le)

definition alive :: "state \<Rightarrow> 'b BlockedClient_scheme \<Rightarrow> bool" where
  "alive s b \<longleftrightarrow> clients s (blocked_cid b) \<noteq> None"

definition satisfied :: "state \<Rightarrow> (int \<times> cid) list \<Rightarrow> BlockedWaitClient \<Rightarrow> bool" where
  "satisfied s slaves b \<longleftrightarrow> unat (num_replicas_needed b) \<le> acked s slaves (master_offset b)"

text \<open>Each client of a list gets the number of acknowledgements of its offset.\<close>

definition answer_waits :: "(int \<times> cid) list \<Rightarrow> BlockedWaitClient list \<Rightarrow> state \<Rightarrow> state" where
  "answer_waits slaves bs s = fold (\<lambda>b s. write_to (blocked_cid b) (wait_reply (acked s slaves (master_offset b))) s) bs s"

lemma answer_waits_simps [simp]:
  "answer_waits slaves [] s = s"
  "answer_waits slaves (b # bs) s =
     answer_waits slaves bs (write_to (blocked_cid b) (wait_reply (acked s slaves (master_offset b))) s)"
  by (simp_all add: answer_waits_def)

lemma alive_write [simp]: "alive (write_to x f s) b = alive s b"
  by (simp add: alive_def)

lemma satisfied_write [simp]: "satisfied (write_to x f s) slaves b = satisfied s slaves b"
  by (simp add: satisfied_def)

lemma kept_answer_waits: "kept s t \<Longrightarrow> kept s (answer_waits slaves bs t)"
  by (induction bs arbitrary: t) simp_all

lemma acked_answer_waits [simp]: "acked (answer_waits slaves bs s) sl off = acked s sl off"
  by (induction bs arbitrary: s) simp_all

lemma satisfied_answer_waits [simp]: "satisfied (answer_waits slaves bs s) sl b = satisfied s sl b"
  by (simp add: satisfied_def)

lemma check_wait_loop_spec:
  "\<exists>c'. check_wait_loop slaves bs s c =
     (filter (\<lambda>b. alive s b \<and> \<not> satisfied s slaves b) bs,
      answer_waits slaves (filter (\<lambda>b. alive s b \<and> satisfied s slaves b) bs) s, c') \<and>
    client c' = client c \<and> ctx_command c' = ctx_command c \<and> isBlocked c' = isBlocked c"
proof (induction bs arbitrary: s c)
  case (Cons b bs)
  let ?s = "write_to (blocked_cid b) (wait_reply (acked s slaves (master_offset b))) s"
  let ?c = "c\<lparr>unblocked_client_fd := blocked_fd b\<rparr>"
  show ?case
  proof (cases "alive s b \<and> satisfied s slaves b")
    case True
    then have "check_wait_loop slaves (b # bs) s c = check_wait_loop slaves bs ?s ?c"
      by (auto simp: alive_def satisfied_def)
    then show ?thesis using Cons.IH [of ?s ?c] True by simp
  next
    case False
    then have "check_wait_loop slaves (b # bs) s c =
        (let (bs', s', c') = check_wait_loop slaves bs s c in (if alive s b then b # bs' else bs', s', c'))"
      by (auto simp: alive_def satisfied_def Let_def split: prod.split)
    then show ?thesis using Cons.IH [of s c] False by auto
  qed
qed simp

lemma not_alive: "(clients s (blocked_cid b) = None) = (\<not> alive s b)"
  by (simp add: alive_def)

lemma expire_wait_loop_spec:
  "expire_wait_loop now slaves bs s =
     (filter (\<lambda>b. \<not> is_expired now b) bs,
      answer_waits slaves (filter (\<lambda>b. is_expired now b \<and> alive s b) bs) s,
      map blocked_fd (filter (\<lambda>b. is_expired now b \<and> alive s b) bs))"
  by (induction bs arbitrary: s) (simp_all add: not_alive Let_def)

text \<open>What a client is sent by a round of answers.\<close>

lemma buffer_of_answer_waits:
  assumes "clients s x \<noteq> None"
  shows "buffer_of (answer_waits slaves bs s) x = buffer_of s x @
    concat (map (\<lambda>b. wait_reply (acked s slaves (master_offset b)) []) (filter (\<lambda>b. blocked_cid b = x) bs))"
  using assms
proof (induction bs arbitrary: s)
  case (Cons b bs)
  then show ?case by (auto simp: wait_reply_def)
qed simp

lemma check_blocked_wait_clients_spec:
  "\<exists>v' c'. check_blocked_wait_clients v c = (v', c') \<and> client c' = client c \<and>
    v' = v\<lparr>sdb := answer_waits (slave_connections v)
        (filter (\<lambda>b. alive (sdb v) b \<and> satisfied (sdb v) (slave_connections v) b) (blocked_wait_clients v)) (sdb v),
      blocked_wait_clients := filter (\<lambda>b. alive (sdb v) b \<and> \<not> satisfied (sdb v) (slave_connections v) b)
        (blocked_wait_clients v)\<rparr>"
  using check_wait_loop_spec [of "slave_connections v" "blocked_wait_clients v" "sdb v" c]
  by (auto simp: check_blocked_wait_clients_def)

text \<open>After an acknowledgement, no client is left waiting that has what it waits for.\<close>

lemma handle_replconf_ack:
  assumes "handle_replconf v c ACK n = (v', c')" "b \<in> set (blocked_wait_clients v')"
  shows "\<not> satisfied (sdb v') (slave_connections v') b \<and> b \<in> set (blocked_wait_clients v)"
proof -
  let ?v = "on_db (update_client (client c) (\<lambda>cl. cl\<lparr>replica_offset := n\<rparr>)) v"
  have "check_blocked_wait_clients ?v c = (v', c')" using assms(1) by (simp add: handle_replconf_def)
  then show ?thesis using check_blocked_wait_clients_spec [of ?v c] assms(2) by (auto simp: on_db_def)
qed

section \<open>Timeouts of waiting clients\<close>

lemma wait_timeout_loop_bound:
  assumes "0 \<le> m \<or> m = - 1" "wait_timeout_loop now bs m = r"
    "\<forall>b \<in> set bs. \<forall>t. timeout_at b = Some t \<longrightarrow> t - now < 1000000 * 2147483648"
  shows "(0 \<le> m \<longrightarrow> 0 \<le> r \<and> r \<le> m) \<and> - 1 \<le> r \<and>
    (\<forall>b \<in> set bs. \<forall>t. timeout_at b = Some t \<longrightarrow> 0 \<le> r \<and> (now < t \<longrightarrow> now + r * 1000000 \<le> t))"
  using assms
proof (induction now bs m arbitrary: r rule: wait_timeout_loop.induct)
  case (2 now b bs m)
  show ?case
  proof (cases "timeout_at b")
    case None
    then show ?thesis using 2(1) [OF None] 2(3-5) by auto
  next
    case (Some t)
    let ?d = "duration_ms (t - now)"
    show ?thesis
    proof (cases "?d \<le> 0")
      case True
      then have "r = 0" using 2(4) Some by simp
      then show ?thesis using 2(3) by auto
    next
      case False
      have d: "0 < ?d" "now < t" "now + ?d * 1000000 \<le> t" using False by (auto simp: duration_ms_def split: if_splits)
      have "t - now < 1000000 * 2147483648" using 2(5) Some by simp
      then have i: "to_int32 ?d = ?d" using d(1) by (auto simp: to_int32_def duration_ms_def split: if_splits)
      let ?m = "if m = - 1 \<or> ?d < m then to_int32 ?d else m"
      have m: "0 \<le> ?m" "?m \<le> ?d" "0 \<le> m \<longrightarrow> ?m \<le> m" using 2(3) d(1) unfolding i by auto
      have w: "wait_timeout_loop now bs ?m = r" using 2(4) Some False by (simp add: Let_def)
      have "(0 \<le> ?m \<longrightarrow> 0 \<le> r \<and> r \<le> ?m) \<and> - 1 \<le> r \<and>
          (\<forall>b \<in> set bs. \<forall>t. timeout_at b = Some t \<longrightarrow> 0 \<le> r \<and> (now < t \<longrightarrow> now + r * 1000000 \<le> t))"
        using 2(2) [OF Some refl False _ w] m(1) 2(5) by simp
      moreover from this m d have "now + r * 1000000 \<le> t" by auto
      ultimately show ?thesis using Some m by auto
    qed
  qed
qed auto

section \<open>Propagation\<close>

lemma fold_write_slaves:
  "fold (\<lambda>(_, x). on_db (write_to x f)) slaves v =
     v\<lparr>sdb := fold (\<lambda>(_, x). write_to x f) slaves (sdb v)\<rparr>"
  by (induction slaves arbitrary: v) (auto simp: on_db_def)

lemma kept_fold_write: "kept s t \<Longrightarrow> kept s (fold (\<lambda>(n, x). write_to x f) slaves t)"
  by (induction slaves arbitrary: t) auto

lemma store_fold_write: "store (fold (\<lambda>(n, x). write_to x f) slaves s) = store s"
  by (induction slaves arbitrary: s) auto

lemma clients_fold_write:
  assumes "distinct (map snd slaves)"
  shows "clients (fold (\<lambda>(n, x). write_to x f) slaves s) x =
    (if x \<in> snd ` set slaves then map_option (\<lambda>cl. cl\<lparr>write_buffer := f (write_buffer cl)\<rparr>) (clients s x)
     else clients s x)"
  using assms by (induction slaves arbitrary: s) (auto simp: image_iff)

lemma fold_removeSlave:
  "fold (\<lambda>(n, _). removeSlaveConnection n) xs v =
     v\<lparr>slave_connections := fold (\<lambda>(n, _). AList.delete n) xs (slave_connections v)\<rparr>"
  by (induction xs arbitrary: v) (auto simp: removeSlaveConnection_def)

lemma fold_flush_fields [simp]:
  "sdb (fold (\<lambda>(n, x). flush x) xs v) = sdb v" "config (fold (\<lambda>(n, x). flush x) xs v) = config v"
  "slave_connections (fold (\<lambda>(n, x). flush x) xs v) = slave_connections v"
  "blocked_wait_clients (fold (\<lambda>(n, x). flush x) xs v) = blocked_wait_clients v"
  "active_connections (fold (\<lambda>(n, x). flush x) xs v) = active_connections v"
  by (induction xs arbitrary: v) (auto simp: flush_def)

lemma fold_flush_writing:
  "writing (fold (\<lambda>(n, x). flush x) xs v) = writing v \<union> {x \<in> snd ` set xs. buffer_of (sdb v) x \<noteq> []}"
proof (induction xs arbitrary: v)
  case (Cons y xs)
  obtain n z where y: "y = (n, z)" by force
  have "writing (flush z v) = writing v \<union> (if buffer_of (sdb v) z \<noteq> [] then {z} else {})" "sdb (flush z v) = sdb v"
    by (simp_all add: flush_def)
  then show ?case using Cons.IH [of "flush z v"] by (auto simp: y)
qed simp

lemma propagate_spec:
  fixes e nbytes
  assumes "ctx_command c = Some cmd" "is_write_command cmd" "slave_connections v \<noteq> []"
    "distinct (map snd (slave_connections v))" "\<forall>(n, x) \<in> set (slave_connections v). clients (sdb v) x \<noteq> None"
  defines "v' \<equiv> propagateAndNotifySlaves e v c nbytes"
  shows "offset (config v') = offset (config v) + of_nat nbytes" "slave_connections v' = slave_connections v"
    "store (sdb v') = store (sdb v)"
    "x \<in> snd ` set (slave_connections v) \<Longrightarrow>
       buffer_of (sdb v') x = buffer_of (sdb v) x @ to_resp (fixed e 6) cmd"
    "x \<notin> snd ` set (slave_connections v) \<Longrightarrow> clients (sdb v') x = clients (sdb v) x"
    "snd ` set (slave_connections v) \<subseteq> {x. to_resp (fixed e 6) cmd = [] \<or> x \<in> writing v'}"
proof -
  let ?cfg = "(config v)\<lparr>offset := offset (config v) + of_nat nbytes\<rparr>"
  let ?s = "fold (\<lambda>(n, x). write_to x (\<lambda>w. w @ to_resp (fixed e 6) cmd)) (slave_connections v) (sdb v)"
  let ?v = "v\<lparr>config := ?cfg, sdb := ?s\<rparr>"
  have "filter (\<lambda>(_, x). clients (sdb v) x = None) (slave_connections v) = []"
    using assms(5) by (auto simp: filter_empty_conv)
  then have p: "v' = fold (\<lambda>(n, x). flush x) (slave_connections v) ?v"
    using assms(1-3) by (simp add: v'_def propagateAndNotifySlaves_def handle_propagate_def Let_def fold_write_slaves)
  have cl: "clients ?s x = (if x \<in> snd ` set (slave_connections v)
      then map_option (\<lambda>cl. cl\<lparr>write_buffer := write_buffer cl @ to_resp (fixed e 6) cmd\<rparr>) (clients (sdb v) x)
      else clients (sdb v) x)" for x
    by (rule clients_fold_write [OF assms(4)])
  show "offset (config v') = offset (config v) + of_nat nbytes" "slave_connections v' = slave_connections v"
    unfolding p by simp_all
  show "store (sdb v') = store (sdb v)"
    unfolding p by (simp add: store_fold_write)
  show b: "buffer_of (sdb v') x = buffer_of (sdb v) x @ to_resp (fixed e 6) cmd"
    if "x \<in> snd ` set (slave_connections v)" for x
    using that assms(5) unfolding p by (auto simp: buffer_of_def cl split: option.split)
  show "clients (sdb v') x = clients (sdb v) x" if "x \<notin> snd ` set (slave_connections v)"
    using that unfolding p by (simp add: cl)
  show "snd ` set (slave_connections v) \<subseteq> {x. to_resp (fixed e 6) cmd = [] \<or> x \<in> writing v'}"
    using b unfolding p fold_flush_writing by (fastforce simp: image_iff)
qed

section \<open>The invariant of the database under replication\<close>

lemma on_db_simps [simp]:
  "sdb (on_db f v) = f (sdb v)" "config (on_db f v) = config v"
  "slave_connections (on_db f v) = slave_connections v"
  "active_connections (on_db f v) = active_connections v" "writing (on_db f v) = writing v"
  "blocked_wait_clients (on_db f v) = blocked_wait_clients v"
  by (simp_all add: on_db_def)

lemma flush_simps [simp]:
  "sdb (flush x v) = sdb v" "config (flush x v) = config v"
  "slave_connections (flush x v) = slave_connections v" "active_connections (flush x v) = active_connections v"
  "blocked_wait_clients (flush x v) = blocked_wait_clients v"
  by (simp_all add: flush_def)

lemma check_blocked_wait_inv:
  "db_inv (sdb v) \<Longrightarrow> check_blocked_wait_clients v c = (v', c') \<Longrightarrow> db_inv (sdb v')"
  using check_blocked_wait_clients_spec [of v c] kept_inv [OF kept_answer_waits [OF kept_refl]] by auto

lemma handle_replconf_inv: "db_inv (sdb v) \<Longrightarrow> handle_replconf v c sub n = (v', c') \<Longrightarrow> db_inv (sdb v')"
proof (cases "sub = ACK")
  case True
  assume v: "db_inv (sdb v)" and h: "handle_replconf v c sub n = (v', c')"
  have "db_inv (update_client (client c) (\<lambda>cl. cl\<lparr>replica_offset := n\<rparr>) (sdb v))"
    using v by (rule db_inv_update) (simp_all add: queue_ok_def isClientOnTransaction_def)
  then show ?thesis
    using h True check_blocked_wait_inv [of "on_db (update_client (client c) (\<lambda>cl. cl\<lparr>replica_offset := n\<rparr>)) v" c v' c']
    by (simp add: handle_replconf_def)
qed (auto simp: handle_replconf_def)

lemma handle_psync_inv: "db_inv (sdb v) \<Longrightarrow> handle_psync fs v c = Some v' \<Longrightarrow> db_inv (sdb v')"
  by (auto simp: handle_psync_def Let_def Option.bind_eq_Some_conv addSlaveConnection_def
      intro!: db_inv_update db_inv_write split: if_splits) (simp_all add: queue_ok_def isClientOnTransaction_def)

lemma send_getacks_inv: "db_inv (sdb v) \<Longrightarrow> db_inv (sdb (send_getacks xs v))"
  unfolding send_getacks_def by (induction xs arbitrary: v) auto

lemma handle_wait_inv: "db_inv (sdb v) \<Longrightarrow> handle_wait e v c n t = Some (v', c') \<Longrightarrow> db_inv (sdb v')"
  by (auto simp: handle_wait_def Let_def Option.bind_eq_Some_conv send_getacks_inv split: if_splits)

lemma handle_inv:
  assumes "db_inv (sdb v)" "handle e fs v c = Some (b, v', c')"
  shows "db_inv (sdb v')"
proof (cases "ctx_command c")
  case None
  then show ?thesis using assms by (simp add: handle_def)
next
  case (Some cmd)
  show ?thesis
  proof (cases cmd)
    case (ReplConfCommand sub p q n)
    then show ?thesis using assms Some handle_replconf_inv [of v c sub n v' c'] by (simp add: handle_def)
  next
    case (PsyncCommand i n)
    then show ?thesis using assms Some handle_psync_inv [of v fs c v'] by (auto simp: handle_def)
  next
    case (WaitCommand n t)
    then show ?thesis using assms Some handle_wait_inv [of v e c n t v' c'] by (auto simp: handle_def)
  qed (use assms Some in \<open>auto simp: handle_def handle_info_def\<close>)
qed

lemma propagate_inv: "db_inv (sdb v) \<Longrightarrow> db_inv (sdb (propagateAndNotifySlaves e v c nbytes))"
  using kept_inv [OF kept_fold_write [OF kept_refl]]
  by (auto simp: propagateAndNotifySlaves_def handle_propagate_def Let_def fold_write_slaves fold_removeSlave
      split: option.split)

text \<open>
  C21. For a client that waits once: the acknowledgement of a replica answers it with the number
  of replicas that have reached its offset, and ends its waiting, exactly when that number
  is the one it asked for or more; otherwise it is left alone.
\<close>

lemma wait_answered:
  fixes n :: int
  assumes "filter (\<lambda>b'. blocked_cid b' = blocked_cid b) (blocked_wait_clients v) = [b]"
    and "clients (sdb v) (blocked_cid b) \<noteq> None" "client c \<noteq> blocked_cid b"
    and "handle_replconf v c ACK n = (v', c')"
  defines "k \<equiv> acked (update_client (client c) (\<lambda>cl. cl\<lparr>replica_offset := n\<rparr>) (sdb v)) (slave_connections v) (master_offset b)"
  shows "if unat (num_replicas_needed b) \<le> k
    then b \<notin> set (blocked_wait_clients v') \<and>
      buffer_of (sdb v') (blocked_cid b) = buffer_of (sdb v) (blocked_cid b) @ '':'' @ nat_to_string k @ CRLF
    else b \<in> set (blocked_wait_clients v') \<and> buffer_of (sdb v') (blocked_cid b) = buffer_of (sdb v) (blocked_cid b)"
proof -
  let ?s = "update_client (client c) (\<lambda>cl. cl\<lparr>replica_offset := n\<rparr>) (sdb v)"
  let ?v = "on_db (update_client (client c) (\<lambda>cl. cl\<lparr>replica_offset := n\<rparr>)) v"
  let ?sl = "slave_connections v" and ?ws = "blocked_wait_clients v"
  have v': "v' = ?v\<lparr>sdb := answer_waits ?sl (filter (\<lambda>b. alive ?s b \<and> satisfied ?s ?sl b) ?ws) ?s,
      blocked_wait_clients := filter (\<lambda>b. alive ?s b \<and> \<not> satisfied ?s ?sl b) ?ws\<rparr>"
    using check_blocked_wait_clients_spec [of ?v c] assms(4) by (auto simp: handle_replconf_def on_db_def)
  have a: "alive ?s b" "clients ?s (blocked_cid b) \<noteq> None" using assms(2) by (auto simp: alive_def)
  have "b \<in> set (filter (\<lambda>b'. blocked_cid b' = blocked_cid b) ?ws)" by (simp add: assms(1))
  then have b: "b \<in> set ?ws" by simp
  have "filter (\<lambda>b'. blocked_cid b' = blocked_cid b) (filter (\<lambda>b. alive ?s b \<and> satisfied ?s ?sl b) ?ws) =
      filter (\<lambda>b. alive ?s b \<and> satisfied ?s ?sl b) (filter (\<lambda>b'. blocked_cid b' = blocked_cid b) ?ws)"
    by (simp add: conj_ac)
  also have "\<dots> = (if satisfied ?s ?sl b then [b] else [])" using a(1) by (simp add: assms(1))
  finally have f: "filter (\<lambda>b'. blocked_cid b' = blocked_cid b) (filter (\<lambda>b. alive ?s b \<and> satisfied ?s ?sl b) ?ws) =
      (if satisfied ?s ?sl b then [b] else [])" .
  have "buffer_of (sdb v') (blocked_cid b) = buffer_of ?s (blocked_cid b) @
      (if satisfied ?s ?sl b then wait_reply k [] else [])"
    unfolding v' using buffer_of_answer_waits [OF a(2)] f by (simp add: k_def)
  moreover have "buffer_of ?s (blocked_cid b) = buffer_of (sdb v) (blocked_cid b)"
    using assms(3) by (simp add: buffer_of_def)
  moreover have "b \<in> set (blocked_wait_clients v') \<longleftrightarrow> \<not> satisfied ?s ?sl b" using b a(1) by (simp add: v')
  ultimately show ?thesis by (simp add: satisfied_def k_def wait_reply_def)
qed

text \<open>A command that is parsed back has a text.\<close>

lemma parsed_back_not_Nil: "parsed_back stod dtos cmd \<Longrightarrow> to_resp dtos cmd \<noteq> []"
proof
  assume "parsed_back stod dtos cmd" and "to_resp dtos cmd = []"
  then have "bytes (parseCommand stod [] 0) = Some 0" by (metis append_Nil list.size(3) parsed_back_def parse_result.select_convs(2))
  moreover have "bytes (parseCommand stod [] 0) = None"
    by (simp add: parseCommand.simps Parse_def)
  ultimately show False by simp
qed


end
