(* ===== verification/Rdb.thy ===== *)
theory Rdb
  imports Replication
begin

text \<open>
  Loading a snapshot, \<open>src/src/rdb.cpp\<close>, through the file reader of \<open>src/src/io.cpp\<close>. A
  \<open>std::fstream\<close> is its bytes, the read position and the flag \<open>failbit\<close>: a short read sets
  it and every later read gives nothing. Reading more than \<open>PTRDIFF_MAX\<close> bytes throws
  \<open>std::length_error\<close>; the access to the first byte of an empty read is undefined. The
  functions terminate, whatever the bytes of the file. The theorem: loading the encoding of
  a snapshot stores exactly its keys, in order, with their deadlines.
\<close>

section \<open>Definitions\<close>

record RIO =
  file_bytes :: "byte list"
  getPos :: nat
  failed :: bool
  is_open :: bool

datatype rdb_fault = Length_error | Undefined

definition bindE :: "'e + 'a \<Rightarrow> ('a \<Rightarrow> 'e + 'b) \<Rightarrow> 'e + 'b" where
  "bindE r f = (case r of Inl e \<Rightarrow> Inl e | Inr x \<Rightarrow> f x)"

text \<open>\<open>None\<close> is a file that can neither be opened nor made.\<close>

definition open_rio :: "byte list option \<Rightarrow> RIO" where
  "open_rio f =
     (case f of
        None \<Rightarrow> \<lparr>file_bytes = [], getPos = 0, failed = False, is_open = False\<rparr>
      | Some bs \<Rightarrow> \<lparr>file_bytes = bs, getPos = 0, failed = False, is_open = True\<rparr>)"

definition read_rio :: "nat \<Rightarrow> RIO \<Rightarrow> rdb_fault + byte list \<times> RIO" where
  "read_rio n io =
     (if \<not> is_open io then Inr ([], io)
      else if INT64_MAX < n then Inl Length_error
      else if failed io then Inr ([], io)
      else
        let bs = take n (drop (getPos io) (file_bytes io))
        in Inr (bs, io\<lparr>getPos := getPos io + length bs, failed := length bs < n\<rparr>))"

definition seekBackRead :: "nat \<Rightarrow> RIO \<Rightarrow> RIO" where
  "seekBackRead n io =
     (if is_open io \<and> \<not> failed io \<and> n \<le> getPos io then io\<lparr>getPos := getPos io - n\<rparr> else io)"

abbreviation RDB_ENC_INT8 :: byte where "RDB_ENC_INT8 \<equiv> 0xC0"
abbreviation RDB_ENC_INT16 :: byte where "RDB_ENC_INT16 \<equiv> 0xC1"
abbreviation RDB_ENC_INT32 :: byte where "RDB_ENC_INT32 \<equiv> 0xC2"
abbreviation RDB_OPCODE_AUX :: byte where "RDB_OPCODE_AUX \<equiv> 0xFA"
abbreviation RDB_OPCODE_RESIZEDB :: byte where "RDB_OPCODE_RESIZEDB \<equiv> 0xFB"
abbreviation RDB_OPCODE_EXPIRETIME_MS :: byte where "RDB_OPCODE_EXPIRETIME_MS \<equiv> 0xFC"
abbreviation RDB_OPCODE_EXPIRETIME :: byte where "RDB_OPCODE_EXPIRETIME \<equiv> 0xFD"
abbreviation RDB_OPCODE_SELECTDB :: byte where "RDB_OPCODE_SELECTDB \<equiv> 0xFE"
abbreviation RDB_OPCODE_EOF :: byte where "RDB_OPCODE_EOF \<equiv> 0xFF"
abbreviation RDB_TYPE_STRING :: byte where "RDB_TYPE_STRING \<equiv> 0"

definition RDB_LENERR :: u64 where
  "RDB_LENERR = - 1"

text \<open>The length and whether the byte announces an encoded value.\<close>

definition getLength :: "byte \<Rightarrow> RIO \<Rightarrow> rdb_fault + (u64 \<times> bool) \<times> RIO" where
  "getLength b io =
     (let lengthType = drop_bit 6 b AND 3 in
      if lengthType = 0 then Inr ((ucast (b AND 0x3f), False), io)
      else if lengthType = 1 then
        bindE (read_rio 1 io) (\<lambda>(bs, io).
          Inr ((if bs = [] then RDB_LENERR else push_bit 8 (ucast (b AND 0x3f)) OR ucast (bs ! 0), False), io))
      else if lengthType = 2 then
        bindE (read_rio 4 io) (\<lambda>(bs, io).
          Inr ((if length bs < 4 then RDB_LENERR
                else push_bit 24 (ucast (bs ! 0)) OR push_bit 16 (ucast (bs ! 1)) OR
                  push_bit 8 (ucast (bs ! 2)) OR ucast (bs ! 3), False), io))
      else Inr ((RDB_LENERR, True), io))"

definition getSpecialString :: "byte \<Rightarrow> RIO \<Rightarrow> rdb_fault + string \<times> RIO" where
  "getSpecialString b io =
     (if b = RDB_ENC_INT8 then
        bindE (read_rio 1 io) (\<lambda>(bs, io).
          Inr (if length bs < 1 then [] else int_to_string (sint (bs ! 0)), io))
      else if b = RDB_ENC_INT16 then
        bindE (read_rio 2 io) (\<lambda>(bs, io).
          Inr (if length bs < 2 then []
               else int_to_string (sint (ucast (bs ! 0) OR push_bit 8 (ucast (bs ! 1)) :: 16 word)), io))
      else if b = RDB_ENC_INT32 then
        bindE (read_rio 4 io) (\<lambda>(bs, io).
          Inr (if length bs < 4 then []
               else int_to_string (sint (ucast (bs ! 0) OR push_bit 8 (ucast (bs ! 1)) OR
                 push_bit 16 (ucast (bs ! 2)) OR push_bit 24 (ucast (bs ! 3)) :: 32 word)), io))
      else Inr ([], io))"

definition parseNormalString :: "u64 \<Rightarrow> RIO \<Rightarrow> rdb_fault + string \<times> RIO" where
  "parseNormalString n io =
     (if n = 0 then Inr ([], io)
      else bindE (read_rio (unat n) io) (\<lambda>(bs, io).
        Inr (if length bs \<noteq> unat n then [] else string_of_bytes bs, io)))"

definition parseString :: "RIO \<Rightarrow> rdb_fault + string \<times> RIO" where
  "parseString io =
     bindE (read_rio 1 io) (\<lambda>(bs, io).
       if bs = [] then Inr ([], io)
       else bindE (getLength (bs ! 0) io) (\<lambda>((n, isEncType), io).
         if isEncType then getSpecialString (bs ! 0) io else parseNormalString n io))"

definition parseHeader :: "RIO \<Rightarrow> rdb_fault + bool \<times> RIO" where
  "parseHeader io =
     bindE (read_rio 5 io) (\<lambda>(magic, io).
       if magic \<noteq> bytes_of_string ''REDIS'' then Inr (False, io)
       else bindE (read_rio 4 io) (\<lambda>(version, io). Inr (length version = 4, io)))"

definition parseExpiry :: "byte \<Rightarrow> RIO \<Rightarrow> rdb_fault + u64 \<times> RIO" where
  "parseExpiry opcode io =
     (if opcode = RDB_OPCODE_EXPIRETIME_MS then
        bindE (read_rio 8 io) (\<lambda>(bs, io).
          Inr (if length bs < 8 then 0
               else foldl (\<lambda>expiry i. expiry OR push_bit (i * 8) (ucast (bs ! i))) 0 [0..<8], io))
      else if opcode = RDB_OPCODE_EXPIRETIME then
        bindE (read_rio 4 io) (\<lambda>(bs, io).
          Inr (if length bs < 4 then 0
               else ucast (foldl (\<lambda>expiry i. expiry OR push_bit (i * 8) (ucast (bs ! i))) (0 :: 32 word) [0..<4]) * 1000, io))
      else Inr (0, io))"

text \<open>The bytes a reader can still deliver; a failed reader delivers none.\<close>

definition left :: "RIO \<Rightarrow> nat" where
  "left io = (if is_open io \<and> \<not> failed io then Suc (length (file_bytes io) - getPos io) else 0)"

lemma read_left:
  assumes "read_rio n io = Inr (bs, io')"
  shows "left io' \<le> left io" "bs \<noteq> [] \<Longrightarrow> left io' < left io"
  using assms by (auto simp: read_rio_def left_def Let_def split: if_splits)

lemma read_length: "read_rio n io = Inr (bs, io') \<Longrightarrow> bs \<noteq> [] \<Longrightarrow> left io' + length bs \<le> left io"
  by (auto simp: read_rio_def left_def Let_def split: if_splits)

lemma bindE_Inr: "bindE r f = Inr y \<longleftrightarrow> (\<exists>x. r = Inr x \<and> f x = Inr y)"
  by (cases r) (simp_all add: bindE_def)

lemma getLength_left: "getLength b io = Inr (r, io') \<Longrightarrow> left io' \<le> left io"
  by (auto simp: getLength_def bindE_Inr Let_def split: if_splits dest: read_left(1))

lemma parseString_left:
  assumes "parseString io = Inr (s, io')"
  shows "left io' \<le> left io"
proof -
  have special: "getSpecialString b io = Inr (s, io') \<Longrightarrow> left io' \<le> left io" for b io
    by (auto simp: getSpecialString_def bindE_Inr split: if_splits dest: read_left(1))
  have normal: "parseNormalString n io = Inr (s, io') \<Longrightarrow> left io' \<le> left io" for n io
    by (auto simp: parseNormalString_def bindE_Inr split: if_splits dest: read_left(1))
  show ?thesis
    using assms
    by (auto simp: parseString_def bindE_Inr split: if_splits
        dest!: read_left(1) getLength_left special normal)
qed

function parseMetadata :: "RIO \<Rightarrow> rdb_fault + RIO" where
  "parseMetadata io =
     (case read_rio 1 io of
        Inl f \<Rightarrow> Inl f
      | Inr (bs, io1) \<Rightarrow>
          if bs = [] then Inr io1
          else if bs ! 0 = RDB_OPCODE_AUX then
            (case parseString io1 of
               Inl f \<Rightarrow> Inl f
             | Inr (metaKey, io2) \<Rightarrow>
                 (case parseString io2 of
                    Inl f \<Rightarrow> Inl f
                  | Inr (metaValue, io3) \<Rightarrow> parseMetadata io3))
          else Inr (seekBackRead 1 io1))"
  by pat_completeness auto
termination
  by (relation "measure left") (auto dest!: read_left(2) parseString_left)

text \<open>The expiry of an entry, if it has one, and its type; \<open>None\<close> when the type is missing.\<close>

definition entry_type :: "byte \<Rightarrow> RIO \<Rightarrow> rdb_fault + (byte \<times> u64 option) option \<times> RIO" where
  "entry_type opcode io =
     (if opcode = RDB_OPCODE_EXPIRETIME_MS \<or> opcode = RDB_OPCODE_EXPIRETIME then
        bindE (parseExpiry opcode io) (\<lambda>(expiry, io).
          bindE (read_rio 1 io) (\<lambda>(bs, io).
            Inr (if bs = [] then None else Some (bs ! 0, Some expiry), io)))
      else Inr (Some (opcode, None), io))"

definition store_entry :: "env \<Rightarrow> string \<Rightarrow> string \<Rightarrow> u64 option \<Rightarrow> state \<Rightarrow> state option" where
  "store_entry e key val expiry s =
     (case expiry of None \<Rightarrow> Some (set_db s key val) | Some t \<Rightarrow> setWithExpiry e s key val t)"

lemma entry_type_left: "entry_type opcode io = Inr (r, io') \<Longrightarrow> left io' \<le> left io"
  by (auto simp: entry_type_def parseExpiry_def bindE_Inr split: if_splits dest!: read_left(1))

text \<open>The loop over the entries of a database.\<close>

function entry_loop :: "env \<Rightarrow> RIO \<Rightarrow> state \<Rightarrow> (rdb_fault + bool \<times> RIO) \<times> state" where
  "entry_loop e io s =
     (case read_rio 1 io of
        Inl f \<Rightarrow> (Inl f, s)
      | Inr (bs, io1) \<Rightarrow>
          if bs = [] then (Inr (False, io1), s)
          else if bs ! 0 = RDB_OPCODE_SELECTDB \<or> bs ! 0 = RDB_OPCODE_EOF
          then (Inr (True, seekBackRead 1 io1), s)
          else
            (case entry_type (bs ! 0) io1 of
               Inl f \<Rightarrow> (Inl f, s)
             | Inr (None, io2) \<Rightarrow> (Inr (False, io2), s)
             | Inr (Some (t, expiry), io2) \<Rightarrow>
                 if t \<noteq> RDB_TYPE_STRING then (Inr (False, io2), s)
                 else
                   (case parseString io2 of
                      Inl f \<Rightarrow> (Inl f, s)
                    | Inr (key, io3) \<Rightarrow>
                        (case parseString io3 of
                           Inl f \<Rightarrow> (Inl f, s)
                         | Inr (val, io4) \<Rightarrow>
                             (case store_entry e key val expiry s of
                                None \<Rightarrow> (Inl Undefined, s)
                              | Some s' \<Rightarrow> entry_loop e io4 s')))))"
  by pat_completeness auto
termination
  by (relation "measure (\<lambda>(e, io, s). left io)")
    (auto dest!: read_left(2) entry_type_left parseString_left)

declare parseMetadata.simps [simp del] entry_loop.simps [simp del]

text \<open>\<open>getLength(io.read(1)[0], _)\<close>.\<close>

definition read_length_field :: "RIO \<Rightarrow> rdb_fault + (u64 \<times> bool) \<times> RIO" where
  "read_length_field io =
     bindE (read_rio 1 io) (\<lambda>(bs, io). if bs = [] then Inl Undefined else getLength (bs ! 0) io)"

definition select_db :: "RIO \<Rightarrow> rdb_fault + RIO" where
  "select_db io =
     bindE (read_length_field io) (\<lambda>(dbNum, io).
       bindE (read_rio 1 io) (\<lambda>(bs, io).
         if bs \<noteq> [] \<and> bs ! 0 = RDB_OPCODE_RESIZEDB then
           bindE (read_length_field io) (\<lambda>(hashTableSize, io).
             bindE (read_length_field io) (\<lambda>(expireTableSize, io). Inr io))
         else Inr io))"

definition parseDatabase :: "env \<Rightarrow> RIO \<Rightarrow> state \<Rightarrow> (rdb_fault + bool \<times> RIO) \<times> state" where
  "parseDatabase e io s =
     (case read_rio 1 io of
        Inl f \<Rightarrow> (Inl f, s)
      | Inr (bs, io) \<Rightarrow>
          if bs = [] \<or> bs ! 0 = RDB_OPCODE_EOF then (Inr (False, io), s)
          else
            (case (if bs ! 0 = RDB_OPCODE_SELECTDB then select_db io else Inr io) of
               Inl f \<Rightarrow> (Inl f, s)
             | Inr io \<Rightarrow> entry_loop e io s))"

text \<open>
  A database that is followed by another has consumed a byte of its own, so the loop over
  the databases ends: the byte put back is the first of the next one.
\<close>

lemma seekBack_left:
  "read_rio 1 io = Inr (bs, io') \<Longrightarrow> bs \<noteq> [] \<Longrightarrow> left (seekBackRead 1 io') \<le> left io"
  by (auto simp: read_rio_def left_def seekBackRead_def Let_def split: if_splits)

lemma entry_loop_left: "entry_loop e io s = (Inr (True, io'), s') \<Longrightarrow> left io' \<le> left io"
proof (induction "left io" arbitrary: io s rule: less_induct)
  case less
  obtain bs io1 where r: "read_rio 1 io = Inr (bs, io1)" "bs \<noteq> []"
    using less.prems by (subst (asm) entry_loop.simps) (auto split: sum.splits if_splits)
  have l: "left io1 < left io" "left (seekBackRead 1 io1) \<le> left io"
    using read_left(2) [OF r] seekBack_left [OF r] by auto
  have ih: "left io' \<le> left io" if "entry_loop e io4 s4 = (Inr (True, io'), s')"
    "left io4 \<le> left io3" "left io3 \<le> left io2" "left io2 \<le> left io1" for io2 io3 io4 s4
    using less.hyps [OF _ that(1)] that(2-4) l(1) by simp
  from less.prems r l show ?case
    by (subst (asm) entry_loop.simps)
      (auto split: sum.splits option.splits if_splits dest!: entry_type_left parseString_left,
        rule ih, assumption+)
qed

lemma select_db_left: "select_db io = Inr io' \<Longrightarrow> left io' \<le> left io"
  by (auto simp: select_db_def read_length_field_def bindE_Inr split: if_splits
      dest!: getLength_left read_left(1))

lemma parseDatabase_left:
  assumes "parseDatabase e io s = (Inr (True, io'), s')"
  shows "left io' < left io"
  using assms
  by (auto simp: parseDatabase_def split: sum.splits if_splits
      dest!: read_left(2) select_db_left entry_loop_left)

function parse_databases :: "env \<Rightarrow> RIO \<Rightarrow> state \<Rightarrow> (rdb_fault + RIO) \<times> state" where
  "parse_databases e io s =
     (case parseDatabase e io s of
        (Inl f, s') \<Rightarrow> (Inl f, s')
      | (Inr (again, io'), s') \<Rightarrow> if again then parse_databases e io' s' else (Inr io', s'))"
  by pat_completeness auto
termination
  by (relation "measure (\<lambda>(e, io, s). left io)") (auto dest: parseDatabase_left [OF sym])

declare parse_databases.simps [simp del]

text \<open>\<open>Rdb::parse\<close>; the flag tells whether the header was accepted.\<close>

definition parse :: "env \<Rightarrow> byte list option \<Rightarrow> state \<Rightarrow> (rdb_fault + bool) \<times> state" where
  "parse e file s =
     (case parseHeader (open_rio file) of
        Inl f \<Rightarrow> (Inl f, s)
      | Inr (ok, io) \<Rightarrow>
          if \<not> ok then (Inr False, s)
          else
            (case parseMetadata io of
               Inl f \<Rightarrow> (Inl f, s)
             | Inr io \<Rightarrow>
                 (case parse_databases e io s of
                    (Inl f, s) \<Rightarrow> (Inl f, s)
                  | (Inr io, s) \<Rightarrow> (Inr True, s))))"

text \<open>
  The start of \<open>Server::run\<close>: the file is read when it is configured, and an exception is
  caught, which keeps what has been stored. \<open>None\<close> is the undefined access.
\<close>

definition load_snapshot :: "env \<Rightarrow> (string \<Rightarrow> byte list option) \<Rightarrow> server \<Rightarrow> server option" where
  "load_snapshot e files v =
     (let dir = rdb_file_path (config v); name = rdb_file_name (config v) in
      if dir = [] \<or> name = [] then Some v
      else
        (case parse e (files (dir @ ''/'' @ name)) (sdb v) of
           (Inl Undefined, s) \<Rightarrow> None
         | (_, s) \<Rightarrow> Some (v\<lparr>sdb := s\<rparr>)))"


section \<open>Reading what was written\<close>

text \<open>The bytes still to come; advancing past some of them.\<close>

definition ahead :: "RIO \<Rightarrow> byte list \<Rightarrow> bool" where
  "ahead io bs \<longleftrightarrow> is_open io \<and> \<not> failed io \<and> drop (getPos io) (file_bytes io) = bs"

definition adv :: "nat \<Rightarrow> RIO \<Rightarrow> RIO" where
  "adv n io = io\<lparr>getPos := getPos io + n\<rparr>"

lemma adv_0 [simp]: "adv 0 io = io"
  by (simp add: adv_def)

lemma adv_adv [simp]: "adv m (adv n io) = adv (n + m) io"
  by (simp add: adv_def add.assoc)

lemma ahead_adv: "ahead io (bs @ r) \<Longrightarrow> n = length bs \<Longrightarrow> ahead (adv n io) r"
  unfolding ahead_def adv_def by (simp add: add.commute flip: drop_drop)

lemma read_ahead:
  assumes "ahead io (bs @ r)" "length bs = n" "n \<le> INT64_MAX"
  shows "read_rio n io = Inr (bs, adv n io)"
proof -
  have "take n (drop (getPos io) (file_bytes io)) = bs" using assms by (simp add: ahead_def)
  then show ?thesis using assms(1-3) by (simp add: read_rio_def ahead_def adv_def Let_def)
qed

lemma read_one: "ahead io (b # r) \<Longrightarrow> read_rio (Suc 0) io = Inr ([b], adv (Suc 0) io)"
  using read_ahead [of io "[b]" r 1] by simp

lemma ahead_one: "ahead io (b # r) \<Longrightarrow> ahead (adv (Suc 0) io) r"
  using ahead_adv [of io "[b]" r 1] by simp

text \<open>A reader that turns \<open>bs\<close> into \<open>x\<close>, whatever follows.\<close>

definition decodes :: "(RIO \<Rightarrow> rdb_fault + 'a \<times> RIO) \<Rightarrow> byte list \<Rightarrow> 'a \<Rightarrow> bool" where
  "decodes f bs x \<longleftrightarrow> (\<forall>io r. ahead io (bs @ r) \<longrightarrow> f io = Inr (x, adv (length bs) io))"

lemma decodesD: "decodes f bs x \<Longrightarrow> ahead io (bs @ r) \<Longrightarrow> f io = Inr (x, adv (length bs) io)"
  unfolding decodes_def by blast

definition enc_len :: "u64 \<Rightarrow> byte list" where
  "enc_len w =
     (if w < 64 then [ucast w]
      else if w < 16384 then [0x40 OR ucast (drop_bit 8 w), ucast w]
      else [0x80, ucast (drop_bit 24 w), ucast (drop_bit 16 w), ucast (drop_bit 8 w), ucast w])"

lemma below_bit: "unat (w :: 'a :: len word) < 2 ^ k \<Longrightarrow> bit w i \<Longrightarrow> i < k"
  by (metis bit_imp_le_length bit_take_bit_iff bit_unsigned_iff take_bit_nat_eq_self possible_bit_def
      possible_bit_nat)

lemma bit_64: "bit (64 :: nat) k \<longleftrightarrow> k = 6" "bit (64 :: int) k \<longleftrightarrow> k = 6"
proof -
  have "bit (push_bit 6 1 :: nat) k \<longleftrightarrow> k = 6" "bit (push_bit 6 1 :: int) k \<longleftrightarrow> k = 6"
    by (simp_all only: bit_push_bit_iff bit_1_iff possible_bit_nat possible_bit_int) auto
  then show "bit (64 :: nat) k \<longleftrightarrow> k = 6" "bit (64 :: int) k \<longleftrightarrow> k = 6" by simp_all
qed

lemma bytes_join:
  fixes w :: u64
  shows "unat w < 2 ^ 6 \<Longrightarrow> ucast (ucast w AND 0x3f :: byte) = w"
    and "unat w < 2 ^ 14 \<Longrightarrow>
      push_bit 8 (ucast ((0x40 OR ucast (drop_bit 8 w)) AND 0x3f :: byte)) OR ucast (ucast w :: byte) = w"
    and "unat w < 2 ^ 32 \<Longrightarrow>
      push_bit 24 (ucast (ucast (drop_bit 24 w) :: byte)) OR push_bit 16 (ucast (ucast (drop_bit 16 w) :: byte)) OR
      push_bit 8 (ucast (ucast (drop_bit 8 w) :: byte)) OR ucast (ucast w :: byte) = w"
proof -
  have m: "(0x3f :: byte) = mask 6" by (simp add: mask_eq_exp_minus_1)
  show "ucast (ucast w AND 0x3f :: byte) = w" if "unat w < 2 ^ 6"
  proof (rule bit_word_eqI)
    show "bit (ucast (ucast w AND 0x3f :: byte) :: u64) n = bit w n" for n
      using below_bit [OF that, of n] unfolding m by (cases "bit w n") (auto simp: bit_simps)
  qed
  show "push_bit 8 (ucast ((0x40 OR ucast (drop_bit 8 w)) AND 0x3f :: byte)) OR ucast (ucast w :: byte) = w"
    (is "?l = w") if "unat w < 2 ^ 14"
  proof (rule bit_word_eqI)
    show "bit ?l n = bit w n" for n
      using below_bit [OF that, of n] unfolding m by (cases "bit w n") (auto simp: bit_simps bit_64)
  qed
  show "push_bit 24 (ucast (ucast (drop_bit 24 w) :: byte)) OR push_bit 16 (ucast (ucast (drop_bit 16 w) :: byte)) OR
      push_bit 8 (ucast (ucast (drop_bit 8 w) :: byte)) OR ucast (ucast w :: byte) = w" (is "?l = w")
    if "unat w < 2 ^ 32"
  proof (rule bit_word_eqI)
    show "bit ?l n = bit w n" for n
      using below_bit [OF that, of n]
      by (cases "n < 8"; cases "n < 16"; cases "n < 24"; cases "bit w n") (auto simp: bit_simps)
  qed
qed

lemma length_types:
  fixes w :: u64
  shows "unat w < 2 ^ 6 \<Longrightarrow> drop_bit 6 (ucast w :: byte) AND 3 = 0"
    and "unat w < 2 ^ 14 \<Longrightarrow> drop_bit 6 (0x40 OR ucast (drop_bit 8 w) :: byte) AND 3 = 1"
proof -
  have m: "(3 :: byte) = mask 2" by (simp add: mask_eq_exp_minus_1)
  show "drop_bit 6 (ucast w :: byte) AND 3 = 0" (is "?l = 0") if "unat w < 2 ^ 6"
  proof (rule bit_word_eqI)
    show "bit ?l n = bit 0 n" for n
      using below_bit [OF that, of "6 + n"] unfolding m by (auto simp: bit_simps)
  qed
  show "drop_bit 6 (0x40 OR ucast (drop_bit 8 w) :: byte) AND 3 = 1" (is "?l = 1") if "unat w < 2 ^ 14"
  proof (rule bit_word_eqI)
    show "bit ?l n = bit 1 n" for n
      using below_bit [OF that, of "8 + (6 + n)"] unfolding m by (auto simp: bit_simps bit_64)
  qed
qed

lemma read_length_decodes:
  assumes "unat w < 2 ^ 32" "ahead io (enc_len w @ r)"
  shows "\<exists>b. read_rio (Suc 0) io = Inr ([b], adv (Suc 0) io) \<and>
    getLength b (adv (Suc 0) io) = Inr ((w, False), adv (length (enc_len w)) io)"
proof -
  consider (small) "unat w < 2 ^ 6" "enc_len w = [ucast w]"
    | (medium) "unat w < 2 ^ 14" "enc_len w = [0x40 OR ucast (drop_bit 8 w), ucast w]"
    | (big) "enc_len w = [0x80, ucast (drop_bit 24 w), ucast (drop_bit 16 w), ucast (drop_bit 8 w), ucast w]"
    by (cases "w < 64"; cases "w < 16384") (auto simp: enc_len_def word_less_nat_alt)
  then show ?thesis
  proof cases
    case small
    then show ?thesis
      using assms(2) bytes_join(1) [of w] length_types(1) [of w] read_one [of io]
      by (auto simp: getLength_def)
  next
    case medium
    let ?b = "0x40 OR ucast (drop_bit 8 w) :: byte"
    have "ahead io (?b # ucast w # r)" using assms(2) medium by simp
    from read_one [OF this] read_one [OF ahead_one [OF this]] medium show ?thesis
      using bytes_join(2) [of w] length_types(2) [of w]
      by (auto simp: getLength_def bindE_def)
  next
    case big
    let ?bs = "[ucast (drop_bit 24 w), ucast (drop_bit 16 w), ucast (drop_bit 8 w), ucast w] :: byte list"
    have a: "ahead io (0x80 # ?bs @ r)" using assms(2) big by simp
    have "drop_bit 6 (0x80 :: byte) AND 3 = 2" by code_simp
    with read_one [OF a] read_ahead [OF ahead_one [OF a], of 4] big show ?thesis
      using bytes_join(3) [OF assms(1)]
      by (auto simp: getLength_def bindE_def) (simp add: numeral_eq_Suc)
  qed
qed

text \<open>The forms a string has in a snapshot: its bytes, or an integer in 8, 16 or 32 bits.\<close>

datatype rdb_string = Raw string | Int8 byte | Int16 "16 word" | Int32 "32 word"

fun string_text :: "rdb_string \<Rightarrow> string" where
  "string_text (Raw s) = s"
| "string_text (Int8 w) = int_to_string (sint w)"
| "string_text (Int16 w) = int_to_string (sint w)"
| "string_text (Int32 w) = int_to_string (sint w)"

fun string_ok :: "rdb_string \<Rightarrow> bool" where
  "string_ok (Raw s) \<longleftrightarrow> length s < 2 ^ 32"
| "string_ok _ \<longleftrightarrow> True"

fun enc_string :: "rdb_string \<Rightarrow> byte list" where
  "enc_string (Raw s) = enc_len (of_nat (length s)) @ bytes_of_string s"
| "enc_string (Int8 w) = [RDB_ENC_INT8, w]"
| "enc_string (Int16 w) = [RDB_ENC_INT16, ucast w, ucast (drop_bit 8 w)]"
| "enc_string (Int32 w) =
     [RDB_ENC_INT32, ucast w, ucast (drop_bit 8 w), ucast (drop_bit 16 w), ucast (drop_bit 24 w)]"

lemma le_join:
  "ucast (ucast w :: byte) OR push_bit 8 (ucast (ucast (drop_bit 8 w) :: byte)) = (w :: 16 word)"
  "ucast (ucast v :: byte) OR push_bit 8 (ucast (ucast (drop_bit 8 v) :: byte)) OR
   push_bit 16 (ucast (ucast (drop_bit 16 v) :: byte)) OR push_bit 24 (ucast (ucast (drop_bit 24 v) :: byte)) = (v :: 32 word)"
    (is "?l = v")
proof -
  show "ucast (ucast w :: byte) OR push_bit 8 (ucast (ucast (drop_bit 8 w) :: byte)) = (w :: 16 word)"
    by (rule bit_word_eqI) (auto simp: bit_simps)
  show "?l = v"
  proof (rule bit_word_eqI)
    show "n < LENGTH(32) \<Longrightarrow> bit ?l n = bit v n" for n
      by (cases "n < 8"; cases "n < 16"; cases "n < 24"; cases "bit v n") (auto simp: bit_simps)
  qed
qed

lemma parseString_special:
  assumes "ahead io (b # bs @ r)" "drop_bit 6 b AND 3 = 3"
  shows "parseString io = getSpecialString b (adv (Suc 0) io)"
  using assms read_one [of io b "bs @ r"] by (simp add: parseString_def bindE_def getLength_def)

lemma parseString_decodes:
  assumes "string_ok x"
  shows "decodes parseString (enc_string x) (string_text x)"
  unfolding decodes_def
proof (intro allI impI)
  fix io r assume a: "ahead io (enc_string x @ r)"
  show "parseString io = Inr (string_text x, adv (length (enc_string x)) io)"
  proof (cases x)
    case (Raw s)
    let ?w = "of_nat (length s) :: u64"
    have n: "length s < 4294967296" using assms Raw by simp
    have w: "unat ?w = length s" "unat ?w < 2 ^ 32" using n by (simp_all add: unsigned_of_nat take_bit_nat_eq_self)
    have a': "ahead io (enc_len ?w @ bytes_of_string s @ r)" using a Raw by simp
    obtain b where b: "read_rio (Suc 0) io = Inr ([b], adv (Suc 0) io)"
      "getLength b (adv (Suc 0) io) = Inr ((?w, False), adv (length (enc_len ?w)) io)"
      using read_length_decodes [OF w(2) a'] by blast
    have "parseNormalString ?w (adv (length (enc_len ?w)) io) = Inr (s, adv (length (enc_string x)) io)"
    proof (cases "s = []")
      case False
      then have "?w \<noteq> 0" using w(1) by auto
      moreover have "read_rio (length s) (adv (length (enc_len ?w)) io) =
          Inr (bytes_of_string s, adv (length s) (adv (length (enc_len ?w)) io))"
        using n by (intro read_ahead [OF ahead_adv [OF a']]) auto
      ultimately show ?thesis using Raw w(1) by (simp add: parseNormalString_def bindE_def)
    qed (use Raw in \<open>simp add: parseNormalString_def\<close>)
    then show ?thesis using b Raw by (simp add: parseString_def bindE_def)
  next
    case (Int8 w)
    have "drop_bit 6 RDB_ENC_INT8 AND 3 = 3" by code_simp
    moreover have "ahead io (RDB_ENC_INT8 # [w] @ r)" using a Int8 by simp
    ultimately show ?thesis
      using parseString_special [of io RDB_ENC_INT8 "[w]" r] read_ahead [OF ahead_one, of io _ "[w]" r 1] Int8
      by (simp add: getSpecialString_def bindE_def numeral_2_eq_2)
  next
    case (Int16 w)
    let ?bs = "[ucast w, ucast (drop_bit 8 w)] :: byte list"
    have "drop_bit 6 RDB_ENC_INT16 AND 3 = 3" by code_simp
    moreover have "ahead io (RDB_ENC_INT16 # ?bs @ r)" using a Int16 by simp
    ultimately show ?thesis
      using parseString_special [of io RDB_ENC_INT16 ?bs r] read_ahead [OF ahead_one, of io _ ?bs r 2] Int16 le_join(1) [of w]
      by (simp add: getSpecialString_def bindE_def numeral_3_eq_3)
  next
    case (Int32 w)
    let ?bs = "[ucast w, ucast (drop_bit 8 w), ucast (drop_bit 16 w), ucast (drop_bit 24 w)] :: byte list"
    have "drop_bit 6 RDB_ENC_INT32 AND 3 = 3" by code_simp
    moreover have "ahead io (RDB_ENC_INT32 # ?bs @ r)" using a Int32 by simp
    ultimately show ?thesis
      using parseString_special [of io RDB_ENC_INT32 ?bs r] read_ahead [OF ahead_one, of io _ ?bs r 4] Int32 le_join(2) [of w]
      by (simp add: getSpecialString_def bindE_def) (simp add: numeral_eq_Suc)
  qed
qed

section \<open>Loading a snapshot\<close>

type_synonym rdb_entry = "rdb_string \<times> rdb_string \<times> (u64 + 32 word) option"

definition le_bytes :: "nat \<Rightarrow> 'a :: len word \<Rightarrow> byte list" where
  "le_bytes k w = map (\<lambda>i. ucast (drop_bit (i * 8) w)) [0..<k]"

text \<open>An expiry is in milliseconds or in seconds.\<close>

fun enc_expiry :: "(u64 + 32 word) option \<Rightarrow> byte list" where
  "enc_expiry None = []"
| "enc_expiry (Some (Inl t)) = RDB_OPCODE_EXPIRETIME_MS # le_bytes 8 t"
| "enc_expiry (Some (Inr t)) = RDB_OPCODE_EXPIRETIME # le_bytes 4 t"

fun expiry_ms :: "(u64 + 32 word) option \<Rightarrow> u64 option" where
  "expiry_ms None = None"
| "expiry_ms (Some (Inl t)) = Some t"
| "expiry_ms (Some (Inr t)) = Some (ucast t * 1000)"

fun enc_entry :: "rdb_entry \<Rightarrow> byte list" where
  "enc_entry (k, v, x) = enc_expiry x @ RDB_TYPE_STRING # enc_string k @ enc_string v"

fun entry_ok :: "rdb_entry \<Rightarrow> bool" where
  "entry_ok (k, v, x) \<longleftrightarrow> string_ok k \<and> string_ok v"

fun store_entries :: "env \<Rightarrow> rdb_entry list \<Rightarrow> state \<Rightarrow> state option" where
  "store_entries e [] s = Some s"
| "store_entries e ((k, v, x) # es) s =
     Option.bind (store_entry e (string_text k) (string_text v) (expiry_ms x) s) (store_entries e es)"

lemma le_foldl:
  "k \<le> m \<Longrightarrow> foldl (\<lambda>y i. y OR push_bit (i * 8) (ucast (le_bytes m w ! i))) 0 [0..<k] = take_bit (k * 8) (w :: 'a :: len word)"
proof (induction k)
  case (Suc k)
  have "take_bit (k * 8) w OR push_bit (k * 8) (ucast (ucast (drop_bit (k * 8) w) :: byte)) = take_bit (Suc k * 8) w"
    (is "?l = ?r")
  proof (rule bit_word_eqI)
    show "n < LENGTH('a) \<Longrightarrow> bit ?l n = bit ?r n" for n
      by (cases "n < k * 8") (auto simp: bit_simps)
  qed
  then show ?case using Suc by (simp add: le_bytes_def)
qed simp

lemma length_le_bytes [simp]: "length (le_bytes k w) = k"
  by (simp add: le_bytes_def)

lemma parseExpiry_decodes:
  "decodes (parseExpiry RDB_OPCODE_EXPIRETIME_MS) (le_bytes 8 t) t"
  "decodes (parseExpiry RDB_OPCODE_EXPIRETIME) (le_bytes 4 (u :: 32 word)) (ucast u * 1000)"
proof -
  have "foldl (\<lambda>y i. y OR push_bit (i * 8) (ucast (le_bytes 8 t ! i))) 0 [0..<8] = t"
    using le_foldl [of 8 8 t] by (simp add: take_bit_word_eq_self)
  then show "decodes (parseExpiry RDB_OPCODE_EXPIRETIME_MS) (le_bytes 8 t) t"
    by (auto simp: decodes_def parseExpiry_def bindE_def read_ahead)
  have "foldl (\<lambda>y i. y OR push_bit (i * 8) (ucast (le_bytes 4 u ! i))) 0 [0..<4] = u"
    using le_foldl [of 4 4 u] by (simp add: take_bit_word_eq_self)
  then show "decodes (parseExpiry RDB_OPCODE_EXPIRETIME) (le_bytes 4 u) (ucast u * 1000)"
    by (auto simp: decodes_def parseExpiry_def bindE_def read_ahead)
qed

text \<open>The start of an entry: its first byte and what \<open>entry_type\<close> makes of it.\<close>

lemma entry_start:
  assumes "ahead io (enc_expiry x @ t # r)" "t = RDB_TYPE_STRING"
  shows "\<exists>b. read_rio (Suc 0) io = Inr ([b], adv (Suc 0) io) \<and> b \<noteq> RDB_OPCODE_SELECTDB \<and> b \<noteq> RDB_OPCODE_EOF \<and>
    entry_type b (adv (Suc 0) io) = Inr (Some (t, expiry_ms x), adv (Suc (length (enc_expiry x))) io)"
proof (cases x)
  case None
  then show ?thesis using assms read_one [of io t r] by (simp add: entry_type_def)
next
  case (Some y)
  have *: "\<exists>b. read_rio (Suc 0) io = Inr ([b], adv (Suc 0) io) \<and> b \<noteq> RDB_OPCODE_SELECTDB \<and> b \<noteq> RDB_OPCODE_EOF \<and>
      entry_type b (adv (Suc 0) io) = Inr (Some (t, Some z), adv (Suc (Suc (length bs))) io)"
    if "ahead io (b # bs @ t # r)" "decodes (parseExpiry b) bs z" "b = RDB_OPCODE_EXPIRETIME_MS \<or> b = RDB_OPCODE_EXPIRETIME"
    for b bs z
  proof -
    have a: "ahead (adv (Suc 0) io) (bs @ t # r)" using ahead_one [OF that(1)] .
    have "ahead (adv (length bs) (adv (Suc 0) io)) (t # r)" using ahead_adv [OF a refl] .
    from read_one [OF this] decodesD [OF that(2) a] read_one [OF that(1)] that(3)
    show ?thesis by (auto simp: entry_type_def bindE_def)
  qed
  show ?thesis
    using assms(1) Some *[OF _ parseExpiry_decodes(1)] *[OF _ parseExpiry_decodes(2)] by (cases y) auto
qed

lemma entry_loop_entries:
  assumes "list_all entry_ok es" "store_entries e es s = Some s'"
    and "ahead io (concat (map enc_entry es) @ c # r)" "c = RDB_OPCODE_SELECTDB \<or> c = RDB_OPCODE_EOF"
  shows "entry_loop e io s = (Inr (True, adv (length (concat (map enc_entry es))) io), s')"
  using assms
proof (induction es arbitrary: io s)
  case Nil
  then have "read_rio (Suc 0) io = Inr ([c], adv (Suc 0) io)" using read_one [of io c r] by simp
  moreover have "seekBackRead (Suc 0) (adv (Suc 0) io) = io"
    using Nil.prems by (simp add: seekBackRead_def adv_def ahead_def)
  ultimately show ?case using Nil.prems by (subst entry_loop.simps) auto
next
  case (Cons en es)
  obtain k v x where en: "en = (k, v, x)" by (cases en)
  let ?rest = "concat (map enc_entry es) @ c # r"
  obtain s1 where s1: "store_entry e (string_text k) (string_text v) (expiry_ms x) s = Some s1"
    "store_entries e es s1 = Some s'"
    using Cons.prems(2) en by (auto simp: Option.bind_eq_Some_conv)
  have a: "ahead io (enc_expiry x @ RDB_TYPE_STRING # enc_string k @ enc_string v @ ?rest)"
    using Cons.prems(3) en by simp
  obtain b where b: "read_rio (Suc 0) io = Inr ([b], adv (Suc 0) io)" "b \<noteq> RDB_OPCODE_SELECTDB" "b \<noteq> RDB_OPCODE_EOF"
    "entry_type b (adv (Suc 0) io) = Inr (Some (RDB_TYPE_STRING, expiry_ms x), adv (Suc (length (enc_expiry x))) io)"
    using entry_start [OF a refl] by blast
  have a1: "ahead (adv (Suc (length (enc_expiry x))) io) (enc_string k @ enc_string v @ ?rest)"
    using ahead_one [OF ahead_adv [OF a refl]] by simp
  note a2 = ahead_adv [OF a1 refl]
  note a3 = ahead_adv [OF a2 refl]
  have ok: "string_ok k" "string_ok v" using Cons.prems(1) en by simp_all
  show ?case
    using b s1 decodesD [OF parseString_decodes [OF ok(1)] a1] decodesD [OF parseString_decodes [OF ok(2)] a2]
      Cons.IH [OF _ s1(2) a3] Cons.prems(1,4) en
    by (subst entry_loop.simps) (simp add: add.assoc)
qed

record rdb_database =
  db_num :: u64
  hash_size :: u64
  expire_size :: u64
  entries :: "rdb_entry list"

definition enc_database :: "rdb_database \<Rightarrow> byte list" where
  "enc_database d =
     RDB_OPCODE_SELECTDB # enc_len (db_num d) @ RDB_OPCODE_RESIZEDB # enc_len (hash_size d) @
     enc_len (expire_size d) @ concat (map enc_entry (entries d))"

definition database_ok :: "rdb_database \<Rightarrow> bool" where
  "database_ok d \<longleftrightarrow> unat (db_num d) < 2 ^ 32 \<and> unat (hash_size d) < 2 ^ 32 \<and> unat (expire_size d) < 2 ^ 32 \<and>
     list_all entry_ok (entries d)"

lemma read_length_field_decodes: "unat w < 2 ^ 32 \<Longrightarrow> decodes read_length_field (enc_len w) (w, False)"
  unfolding decodes_def
  using read_length_decodes by (fastforce simp: read_length_field_def bindE_def)

lemma select_db_decodes:
  assumes "database_ok d"
    and "ahead io (enc_len (db_num d) @ RDB_OPCODE_RESIZEDB # enc_len (hash_size d) @ enc_len (expire_size d) @ r)"
  shows "select_db io = Inr (adv (length (enc_len (db_num d)) + Suc (length (enc_len (hash_size d)) + length (enc_len (expire_size d)))) io)"
proof -
  have ok: "unat (db_num d) < 2 ^ 32" "unat (hash_size d) < 2 ^ 32" "unat (expire_size d) < 2 ^ 32"
    using assms(1) by (simp_all add: database_ok_def)
  note a1 = ahead_adv [OF assms(2) refl]
  note a2 = ahead_one [OF a1]
  note a3 = ahead_adv [OF a2 refl]
  from decodesD [OF read_length_field_decodes [OF ok(1)] assms(2)] read_one [OF a1]
    decodesD [OF read_length_field_decodes [OF ok(2)] a2] decodesD [OF read_length_field_decodes [OF ok(3)] a3]
  show ?thesis by (simp add: select_db_def bindE_def add.assoc)
qed

lemma parseDatabase_decodes:
  assumes "database_ok d" "store_entries e (entries d) s = Some s'"
    and "ahead io (enc_database d @ c # r)" "c = RDB_OPCODE_SELECTDB \<or> c = RDB_OPCODE_EOF"
  shows "parseDatabase e io s = (Inr (True, adv (length (enc_database d)) io), s')"
proof -
  let ?es = "concat (map enc_entry (entries d))"
  let ?hdr = "enc_len (db_num d) @ RDB_OPCODE_RESIZEDB # enc_len (hash_size d) @ enc_len (expire_size d)"
  have a: "ahead io (RDB_OPCODE_SELECTDB # ?hdr @ ?es @ c # r)"
    using assms(3) by (simp add: enc_database_def)
  note a1 = ahead_one [OF a]
  have sel: "select_db (adv (Suc 0) io) = Inr (adv (length ?hdr) (adv (Suc 0) io))"
    using select_db_decodes [OF assms(1), of "adv (Suc 0) io" "?es @ c # r"] a1 by simp
  have a2: "ahead (adv (length ?hdr) (adv (Suc 0) io)) (?es @ c # r)" using ahead_adv [OF a1 refl] .
  have "entry_loop e (adv (length ?hdr) (adv (Suc 0) io)) s = (Inr (True, adv (length ?es) (adv (length ?hdr) (adv (Suc 0) io))), s')"
    using assms by (intro entry_loop_entries [OF _ _ a2]) (auto simp: database_ok_def)
  with read_one [OF a] sel show ?thesis
    by (simp add: parseDatabase_def enc_database_def add.assoc)
qed

lemma store_entries_append:
  "store_entries e (es @ fs) s = Option.bind (store_entries e es s) (store_entries e fs)"
proof (induction es arbitrary: s)
  case (Cons en es)
  then show ?case by (cases en) (auto split: Option.bind_split)
qed simp

lemma parse_databases_decodes:
  assumes "list_all database_ok ds" "store_entries e (concat (map entries ds)) s = Some s'"
    and "ahead io (concat (map enc_database ds) @ RDB_OPCODE_EOF # r)"
  shows "\<exists>io'. parse_databases e io s = (Inr io', s')"
  using assms
proof (induction ds arbitrary: io s)
  case Nil
  then show ?case
    using read_one [of io RDB_OPCODE_EOF r] by (subst parse_databases.simps) (simp add: parseDatabase_def)
next
  case (Cons d ds)
  obtain s1 where s1: "store_entries e (entries d) s = Some s1" "store_entries e (concat (map entries ds)) s1 = Some s'"
    using Cons.prems(2) by (auto simp: store_entries_append Option.bind_eq_Some_conv)
  obtain c r' where c: "concat (map enc_database ds) @ RDB_OPCODE_EOF # r = c # r'" "c = RDB_OPCODE_SELECTDB \<or> c = RDB_OPCODE_EOF"
    by (cases ds) (auto simp: enc_database_def)
  have a: "ahead io (enc_database d @ concat (map enc_database ds) @ RDB_OPCODE_EOF # r)" using Cons.prems(3) by simp
  have "parseDatabase e io s = (Inr (True, adv (length (enc_database d)) io), s1)"
    using parseDatabase_decodes [OF _ s1(1) _ c(2)] a Cons.prems(1) by (simp add: c(1))
  then show ?case
    using Cons.IH [OF _ s1(2) ahead_adv [OF a refl]] Cons.prems(1) by (subst parse_databases.simps) simp
qed

definition enc_aux :: "rdb_string \<times> rdb_string \<Rightarrow> byte list" where
  "enc_aux p = RDB_OPCODE_AUX # enc_string (fst p) @ enc_string (snd p)"

lemma parseMetadata_decodes:
  assumes "list_all (\<lambda>(k, v). string_ok k \<and> string_ok v) aux" "c \<noteq> RDB_OPCODE_AUX"
    and "ahead io (concat (map enc_aux aux) @ c # r)"
  shows "parseMetadata io = Inr (adv (length (concat (map enc_aux aux))) io)"
  using assms
proof (induction aux arbitrary: io)
  case Nil
  then have "read_rio (Suc 0) io = Inr ([c], adv (Suc 0) io)" using read_one [of io c r] by simp
  moreover have "seekBackRead (Suc 0) (adv (Suc 0) io) = io"
    using Nil.prems by (simp add: seekBackRead_def adv_def ahead_def)
  ultimately show ?case using Nil.prems by (subst parseMetadata.simps) auto
next
  case (Cons p aux)
  let ?rest = "concat (map enc_aux aux) @ c # r"
  have a: "ahead io (RDB_OPCODE_AUX # enc_string (fst p) @ enc_string (snd p) @ ?rest)"
    using Cons.prems(3) by (simp add: enc_aux_def [of p])
  note a1 = ahead_one [OF a]
  note a2 = ahead_adv [OF a1 refl]
  note a3 = ahead_adv [OF a2 refl]
  have ok: "string_ok (fst p)" "string_ok (snd p)" using Cons.prems(1) by (simp_all add: case_prod_beta)
  show ?case
    using read_one [OF a] decodesD [OF parseString_decodes [OF ok(1)] a1]
      decodesD [OF parseString_decodes [OF ok(2)] a2] Cons.IH [OF _ Cons.prems(2) a3] Cons.prems(1)
    by (subst parseMetadata.simps) (simp add: enc_aux_def [of p] add.assoc)
qed

text \<open>A whole file; behind the end mark stands a checksum that is not read.\<close>

definition enc_snapshot ::
  "byte list \<Rightarrow> (rdb_string \<times> rdb_string) list \<Rightarrow> rdb_database list \<Rightarrow> byte list \<Rightarrow> byte list" where
  "enc_snapshot version aux ds checksum =
     bytes_of_string ''REDIS'' @ version @ concat (map enc_aux aux) @ concat (map enc_database ds) @
     RDB_OPCODE_EOF # checksum"

lemma parse_snapshot:
  assumes "length version = 4" "list_all (\<lambda>(k, v). string_ok k \<and> string_ok v) aux" "list_all database_ok ds"
    and "store_entries e (concat (map entries ds)) s = Some s'"
  shows "parse e (Some (enc_snapshot version aux ds checksum)) s = (Inr True, s')"
proof -
  let ?io = "open_rio (Some (enc_snapshot version aux ds checksum))"
  let ?rest = "concat (map enc_database ds) @ RDB_OPCODE_EOF # checksum"
  have a: "ahead ?io (bytes_of_string ''REDIS'' @ version @ concat (map enc_aux aux) @ ?rest)"
    by (simp add: ahead_def open_rio_def enc_snapshot_def)
  have a1: "ahead (adv 5 ?io) (version @ concat (map enc_aux aux) @ ?rest)"
    using ahead_adv [OF a, of 5] by simp
  note a2 = ahead_adv [OF a1 refl]
  note a3 = ahead_adv [OF a2 refl]
  obtain c r where c: "?rest = c # r" "c \<noteq> RDB_OPCODE_AUX"
    by (cases ds) (auto simp: enc_database_def)
  have "parseHeader ?io = Inr (True, adv (length version) (adv 5 ?io))"
    using read_ahead [OF a, of 5] read_ahead [OF a1, of 4] assms(1) by (simp add: parseHeader_def bindE_def)
  moreover note parseMetadata_decodes [OF assms(2) c(2) a2 [unfolded c(1)]]
  moreover note parse_databases_decodes [OF assms(3,4) a3]
  ultimately show ?thesis by (auto simp: parse_def)
qed

text \<open>What is stored: the last value of each key.\<close>

lemma store_entries_store:
  "store_entries e es s = Some s' \<Longrightarrow>
   store s' = store s ++ map_of (rev (map (\<lambda>(k, v, x). (string_text k, STRING (string_text v))) es))"
proof (induction es arbitrary: s)
  case (Cons en es)
  obtain k v x where en: "en = (k, v, x)" by (cases en)
  then obtain s1 where s1: "store_entry e (string_text k) (string_text v) (expiry_ms x) s = Some s1"
    "store_entries e es s1 = Some s'"
    using Cons.prems by (auto simp: Option.bind_eq_Some_conv)
  have "store s1 = (store s)(string_text k \<mapsto> STRING (string_text v))"
    using s1(1) by (auto simp: store_entry_def set_db_def setWithExpiry_def Let_def Option.bind_eq_Some_conv split: option.splits)
  with Cons.IH [OF s1(2)] en show ?case by (simp add: map_add_def fun_eq_iff split: option.split)
qed simp

section \<open>Any file\<close>

text \<open>
  Whatever the bytes of the file, loading ends (the functions are total) and keeps what
  every command keeps, also when it gives up or an exception ends it.
\<close>

lemma kept_store_entry: "store_entry e key val x s = Some s' \<Longrightarrow> kept s s'"
proof -
  have "kept s (set_db s key val)"
    by (auto simp: kept_def set_db_def deadlines_ok_def objects_ok_def ran_def)
  moreover have "setWithExpiry e s key val t = Some u \<Longrightarrow> kept s u" for t u
    by (auto simp: setWithExpiry_def kept_def set_db_def Let_def deadlines_ok_def objects_ok_def ran_def
        Option.bind_eq_Some_conv split: if_splits) blast
  ultimately show "store_entry e key val x s = Some s' \<Longrightarrow> kept s s'"
    by (auto simp: store_entry_def split: option.splits)
qed

lemma kept_entry_loop: "entry_loop e io s = (r, s') \<Longrightarrow> kept s s'"
proof (induction "left io" arbitrary: io s rule: less_induct)
  case less
  have ih: "kept s s'" if "read_rio (Suc 0) io = Inr (bs, io1)" "bs \<noteq> []"
    "left io4 \<le> left io3" "left io3 \<le> left io2" "left io2 \<le> left io1"
    "store_entry e key val x s = Some s4" "entry_loop e io4 s4 = (r, s')" for bs io1 io2 io3 io4 key val x s4
    using less.hyps [OF _ that(7)] that(3-5) read_left(2) [OF that(1,2)]
      kept_trans [OF kept_store_entry [OF that(6)]] by simp
  from less.prems show ?case
    by (subst (asm) entry_loop.simps)
      (auto split: sum.splits option.splits if_splits dest!: entry_type_left parseString_left, rule ih, assumption+)
qed

lemma kept_parse_databases: "parse_databases e io s = (r, s') \<Longrightarrow> kept s s'"
proof (induction e io s rule: parse_databases.induct)
  case (1 e io s)
  have k: "kept s (snd (parseDatabase e io s))"
    by (auto simp: parseDatabase_def split: sum.split if_split intro: kept_entry_loop [OF surjective_pairing])
  obtain q s1 where p: "parseDatabase e io s = (q, s1)" by (cases "parseDatabase e io s")
  show ?case
  proof (cases "\<exists>io'. q = Inr (True, io')")
    case True
    then obtain io' where q: "q = Inr (True, io')" by blast
    then have "parse_databases e io' s1 = (r, s')" using 1(2) p by (subst (asm) parse_databases.simps) simp
    then have "kept s1 s'" using 1(1) p q by simp
    then show ?thesis using p k kept_trans by fastforce
  next
    case False
    then show ?thesis using 1(2) p k by (subst (asm) parse_databases.simps) (auto split: sum.splits)
  qed
qed

lemma kept_parse: "kept s (snd (parse e file s))"
  by (auto simp: parse_def split: sum.split prod.split dest: kept_parse_databases)

lemma load_snapshot_kept:
  "load_snapshot e files v = Some w \<Longrightarrow> kept (sdb v) (sdb w) \<and> (\<exists>s. w = v\<lparr>sdb := s\<rparr>)"
  using kept_parse [of "sdb v" e "files (rdb_file_path (config v) @ ''/'' @ rdb_file_name (config v))"]
  by (auto simp: load_snapshot_def Let_def split: if_splits prod.splits sum.splits rdb_fault.splits intro: exI [of _ "sdb v"])

end
