(* ===== verification/Connection.thy ===== *)
theory Connection
  imports Db_State
begin

text \<open>
  One connection: \<open>src/src/connection.cpp\<close>. The kernel is an argument, the results of the
  successive calls of \<open>read\<close> and \<open>write\<close>; the interest registered with the event loop is
  the result. Reading ends with the callback when the socket is drained. The theorems:
  no byte that arrives is lost or reordered, and what the kernel took, followed by what
  stays in the write buffer, is what was in it.
\<close>

section \<open>Definitions\<close>

datatype read_result = Got string | Would_block | Read_error | Eof
datatype write_result = Wrote nat | Write_would_block | Write_error

text \<open>What the event loop is asked for: an unchanged or a new interest, or to forget the handler.\<close>

datatype interest = Unchanged | Read_event | Read_write_event | Removed

text \<open>
  \<open>handleRead\<close>: the client and whether the callback is called; \<open>None\<close> when the results end
  before the loop does.
\<close>

fun handleRead :: "read_result list \<Rightarrow> Client \<Rightarrow> (Client \<times> interest \<times> bool) option" where
  "handleRead [] cl = None"
| "handleRead (Got dat # rs) cl = handleRead rs (cl\<lparr>read_buffer := read_buffer cl @ dat\<rparr>)"
| "handleRead (Would_block # rs) cl = Some (cl, Unchanged, True)"
| "handleRead (Read_error # rs) cl = Some (cl, Removed, False)"
| "handleRead (Eof # rs) cl = Some (cl, Removed, False)"

text \<open>The loop of \<open>handleWrite\<close>; \<open>sent\<close> is what the kernel took.\<close>

fun write_loop :: "write_result list \<Rightarrow> Client \<Rightarrow> nat \<Rightarrow> string \<Rightarrow> (Client \<times> interest \<times> string) option" where
  "write_loop ws cl written_total sent =
     (if written_total < length (write_buffer cl) then
        (case ws of
           [] \<Rightarrow> None
         | Wrote n # ws \<Rightarrow>
             write_loop ws cl (written_total + n) (sent @ take n (drop written_total (write_buffer cl)))
         | Write_would_block # _ \<Rightarrow>
             Some (cl\<lparr>write_buffer := drop written_total (write_buffer cl)\<rparr>, Unchanged, sent)
         | Write_error # _ \<Rightarrow> Some (cl, Removed, sent))
      else Some (cl\<lparr>write_buffer := []\<rparr>, Read_event, sent))"

definition handleWrite :: "write_result list \<Rightarrow> Client \<Rightarrow> (Client \<times> interest \<times> string) option" where
  "handleWrite ws cl = write_loop ws cl 0 []"

definition send_data :: "string \<Rightarrow> Client \<Rightarrow> Client \<times> interest" where
  "send_data dat cl =
     (if dat = [] then (cl, Unchanged)
      else (cl\<lparr>write_buffer := write_buffer cl @ dat\<rparr>,
            if write_buffer cl = [] then Read_write_event else Unchanged))"

section \<open>Nothing is lost\<close>

declare write_loop.simps [simp del]

text \<open>The data of a sequence of results of \<open>read\<close>, up to the one that ends it.\<close>

fun arrived :: "read_result list \<Rightarrow> string" where
  "arrived (Got dat # rs) = dat @ arrived rs"
| "arrived rs = []"

lemma handleRead_arrived:
  "handleRead rs cl = Some (cl', i, cb) \<Longrightarrow> cl' = cl\<lparr>read_buffer := read_buffer cl @ arrived rs\<rparr>"
  by (induction rs arbitrary: cl rule: arrived.induct) (fastforce+)

lemma handleRead_total: "list_ex (\<lambda>r. \<forall>d. r \<noteq> Got d) rs \<Longrightarrow> \<exists>r. handleRead rs cl = Some r"
proof (induction rs arbitrary: cl)
  case (Cons r rs)
  then show ?case by (cases r) auto
qed simp

text \<open>The kernel never takes more than it is offered.\<close>

fun offers_ok :: "write_result list \<Rightarrow> nat \<Rightarrow> bool" where
  "offers_ok (Wrote n # ws) left = (n \<le> left \<and> offers_ok ws (left - n))"
| "offers_ok _ left = True"

lemma write_loop_sent:
  assumes "write_loop ws cl k sent = Some (cl', i, sent')" "sent = take k (write_buffer cl)"
    "k \<le> length (write_buffer cl)" "offers_ok ws (length (write_buffer cl) - k)" "i \<noteq> Removed"
  shows "sent' @ write_buffer cl' = write_buffer cl"
  using assms
proof (induction ws cl k sent rule: write_loop.induct)
  case (1 ws cl k sent)
  show ?case
  proof (cases "k < length (write_buffer cl)")
    case False
    then show ?thesis using 1(2-4) by (subst (asm) write_loop.simps) auto
  next
    case True
    note l = 1(2) [unfolded write_loop.simps [of ws cl k sent], simplified True if_True]
    then obtain w ws' where ws: "ws = w # ws'" by (cases ws) auto
    show ?thesis
    proof (cases w)
      case (Wrote n)
      have le: "k + n \<le> length (write_buffer cl)" "offers_ok ws' (length (write_buffer cl) - (k + n))"
        using 1(5) True unfolding ws Wrote by (auto simp: diff_diff_eq)
      have "sent @ take n (drop k (write_buffer cl)) = take (k + n) (write_buffer cl)"
        using 1(3) by (simp add: take_add)
      then show ?thesis using 1(1) [OF True ws Wrote] l le 1(6) unfolding ws Wrote by simp
    qed (use l 1(3,6) in \<open>auto simp: ws\<close>)
  qed
qed

text \<open>
  C30. Whatever pieces the kernel takes, the bytes it has taken followed by the ones that stay in
  the write buffer are those that were in it, in order, unless the connection fails.
\<close>

lemma handleWrite_sent:
  assumes "handleWrite ws cl = Some (cl', i, sent)" "offers_ok ws (length (write_buffer cl))" "i \<noteq> Removed"
  shows "sent @ write_buffer cl' = write_buffer cl"
  using write_loop_sent [of ws cl 0 "[]" cl' i sent] assms by (simp add: handleWrite_def)

text \<open>A kernel that takes everything empties the buffer.\<close>

lemma handleWrite_all:
  assumes "write_buffer cl \<noteq> []"
  shows "handleWrite [Wrote (length (write_buffer cl))] cl =
    Some (cl\<lparr>write_buffer := []\<rparr>, Read_event, write_buffer cl)"
  using assms by (simp add: handleWrite_def write_loop.simps)

end
