(* ===== verification/Server.thy ===== *)
theory Server
  imports Rdb Connection
begin

text \<open>
  The server, \<open>src/src/server.cpp\<close>: a new connection, a message, the timeouts and the poll
  interval, as the steps of a transition system. Each step is one callback of the event
  loop. A connection is never erased from \<open>active_connections\<close>, not even when the peer
  closes (\<open>handleClose\<close> only drops the event handler), so clients stay. The theorems: in
  every reachable state the database is consistent, every connection and every registered
  replica has its client with its descriptor, and each replica is registered once.
\<close>

section \<open>Definitions\<close>

definition init_state :: state where
  "init_state = \<lparr>store = Map.empty, expiration = Map.empty, blocked_keys = Map.empty,
     blocked_xread_keys = Map.empty, watching_keys = Map.empty, pubsub_clients = Map.empty,
     clients = Map.empty, users = ACLManager\<rparr>"

definition init_server :: "ServerConfig \<Rightarrow> server" where
  "init_server cfg = \<lparr>sdb = init_state, config = cfg, slave_connections = [], blocked_wait_clients = [],
     active_connections = Map.empty, writing = {}\<rparr>"

text \<open>\<open>x\<close> is the new client object and \<open>n\<close> its descriptor.\<close>

definition onNewConnection :: "cid \<Rightarrow> int \<Rightarrow> server \<Rightarrow> server option" where
  "onNewConnection x n v = do {
     u \<leftarrow> users (sdb v) ''default'';
     let cl = (new_client n)\<lparr>user := Some ''default'', is_authenticated := nopass u \<or> passwords u = []\<rparr>;
     Some (v\<lparr>sdb := (sdb v)\<lparr>clients := (clients (sdb v))(x \<mapsto> cl)\<rparr>,
             active_connections := (active_connections v)(n \<mapsto> x)\<rparr>) }"

definition flush_fd :: "int \<Rightarrow> server \<Rightarrow> server" where
  "flush_fd n v = (case active_connections v n of None \<Rightarrow> v | Some x \<Rightarrow> flush x v)"

definition flush_ready :: "cid list \<Rightarrow> server \<Rightarrow> server" where
  "flush_ready xs v =
     fold (\<lambda>x v. case clients (sdb v) x of None \<Rightarrow> v | Some cl \<Rightarrow> flush_fd (fd cl) v) xs v"

text \<open>The replies of one request: to the client, to the one it unblocked, to its subscribers.\<close>

definition notify_clients :: "cid \<Rightarrow> ClientContext \<Rightarrow> server \<Rightarrow> server" where
  "notify_clients x c v =
     (let v = (if isBlocked c then v else flush x v);
          v = (if unblocked_client_fd c \<noteq> - 1 then flush_fd (unblocked_client_fd c) v else v)
      in flush_ready (ready_to_write_clients c) v)"

definition processClientRequest ::
  "env \<Rightarrow> (string \<rightharpoonup> string) \<Rightarrow> (string \<Rightarrow> real option) \<Rightarrow> int \<Rightarrow> server \<Rightarrow> server option" where
  "processClientRequest e fs stod n v =
     (case active_connections v n of
        None \<Rightarrow> Some v
      | Some x \<Rightarrow> do {
          cl \<leftarrow> clients (sdb v) x;
          let r = parseCommand stod (read_buffer cl) 0;
          let v = on_db (update_client x (\<lambda>cl. cl\<lparr>read_buffer := buffer r\<rparr>)) v;
          let c = (new_context x n)\<lparr>ctx_command := Some (command r)\<rparr>;
          (status, v, c) \<leftarrow> handle e fs v c;
          (v, c) \<leftarrow> (if status then Some (v, c)
            else do {
              (s, c) \<leftarrow> execute e (sdb v) c;
              Some (propagateAndNotifySlaves e (v\<lparr>sdb := s\<rparr>) c (case bytes r of None \<Rightarrow> 0 | Some k \<Rightarrow> k), c) });
          Some (notify_clients x c v) })"

definition handle_expired_blocked_clients :: "time \<Rightarrow> string list \<Rightarrow> string list \<Rightarrow> server \<Rightarrow> server" where
  "handle_expired_blocked_clients now ks xks v =
     (let (s, expired_fds) = check_and_expire_blocked_clients now ks xks (sdb v);
          v = fold flush_fd expired_fds (v\<lparr>sdb := s\<rparr>);
          (v, expired_wait_fds) = check_and_expire_blocked_wait_clients now v
      in fold flush_fd expired_wait_fds v)"

text \<open>The timeout \<open>run\<close> gives to the event loop.\<close>

definition poll_timeout :: "time \<Rightarrow> string list \<Rightarrow> string list \<Rightarrow> server \<Rightarrow> int" where
  "poll_timeout now ks xks v =
     (let timeout_ms = get_next_timeout_ms now ks xks (sdb v);
          wait_timeout_ms = get_next_wait_timeout_ms now v
      in if 0 \<le> wait_timeout_ms
         then (if timeout_ms < 0 then wait_timeout_ms else min timeout_ms wait_timeout_ms)
         else timeout_ms)"

text \<open>
  The callbacks. The kernel gives a new connection a descriptor that is not in use, and a
  new client object is none that a pointer is left to.
\<close>

inductive server_step :: "server \<Rightarrow> server \<Rightarrow> bool" where
  accept: "onNewConnection x n v = Some v' \<Longrightarrow> clients (sdb v) x = None \<Longrightarrow>
    \<forall>ch. x \<notin> set (channel (sdb v) ch) \<Longrightarrow> \<forall>y cl. clients (sdb v) y = Some cl \<longrightarrow> fd cl \<noteq> n \<Longrightarrow>
    server_step v v'"
| message: "active_connections v n = Some x \<Longrightarrow> clients (sdb v) x = Some cl \<Longrightarrow>
    handleRead rs cl = Some (cl', i, True) \<Longrightarrow>
    processClientRequest e fs stod n (on_db (update_client x (\<lambda>_. cl')) v) = Some v' \<Longrightarrow>
    server_step v v'"
| closed: "active_connections v n = Some x \<Longrightarrow> clients (sdb v) x = Some cl \<Longrightarrow>
    handleRead rs cl = Some (cl', Removed, False) \<Longrightarrow>
    server_step v ((on_db (update_client x (\<lambda>_. cl')) v)\<lparr>writing := writing v - {x}\<rparr>)"
| writable: "x \<in> writing v \<Longrightarrow> clients (sdb v) x = Some cl \<Longrightarrow>
    handleWrite ws cl = Some (cl', i, sent) \<Longrightarrow>
    server_step v ((on_db (update_client x (\<lambda>_. cl')) v)
      \<lparr>writing := (if i = Unchanged then writing v else writing v - {x})\<rparr>)"
| timeout: "server_step v (handle_expired_blocked_clients now ks xks v)"
| load: "load_snapshot e files v = Some v' \<Longrightarrow> server_step v v'"

inductive reachable :: "ServerConfig \<Rightarrow> server \<Rightarrow> bool" for cfg where
  start: "reachable cfg (init_server cfg)"
| step: "reachable cfg v \<Longrightarrow> server_step v v' \<Longrightarrow> reachable cfg v'"

section \<open>The invariant of the server\<close>

definition conns_ok :: "server \<Rightarrow> bool" where
  "conns_ok v \<longleftrightarrow> (\<forall>n x. active_connections v n = Some x \<longrightarrow>
     (\<exists>cl. clients (sdb v) x = Some cl \<and> fd cl = n))"

definition slaves_ok :: "server \<Rightarrow> bool" where
  "slaves_ok v \<longleftrightarrow> distinct (map fst (slave_connections v)) \<and>
     (\<forall>(n, x) \<in> set (slave_connections v). active_connections v n = Some x)"

definition server_inv :: "server \<Rightarrow> bool" where
  "server_inv v \<longleftrightarrow> db_inv (sdb v) \<and> conns_ok v \<and> slaves_ok v"

text \<open>What the steps after the accepting of a connection keep.\<close>

definition framed :: "server \<Rightarrow> server \<Rightarrow> bool" where
  "framed v w \<longleftrightarrow> active_connections w = active_connections v \<and> fds_kept (sdb v) (sdb w) \<and> db_inv (sdb w) \<and> slaves_ok w"

lemma framed_inv: "framed v w \<Longrightarrow> server_inv v \<Longrightarrow> server_inv w"
proof -
  assume f: "framed v w" and v: "server_inv v"
  have "conns_ok w" unfolding conns_ok_def
  proof (intro allI impI)
    fix n x assume "active_connections w n = Some x"
    then obtain cl where "clients (sdb v) x = Some cl" "fd cl = n"
      using f v by (auto simp: framed_def server_inv_def conns_ok_def)
    moreover have "map_option fd (clients (sdb w) x) = map_option fd (clients (sdb v) x)"
      using f by (simp add: framed_def fds_kept_def)
    ultimately show "\<exists>cl. clients (sdb w) x = Some cl \<and> fd cl = n" by (cases "clients (sdb w) x") auto
  qed
  then show "server_inv w" using f by (simp add: server_inv_def framed_def)
qed

lemma framed_refl: "server_inv v \<Longrightarrow> framed v v"
  by (simp add: framed_def server_inv_def)

lemma framed_trans: "framed v w \<Longrightarrow> framed w u \<Longrightarrow> framed v u"
  using fds_kept_trans by (auto simp: framed_def)

lemma slaves_ok_cong:
  "slave_connections w = slave_connections v \<Longrightarrow> active_connections w = active_connections v \<Longrightarrow> slaves_ok w = slaves_ok v"
  by (simp add: slaves_ok_def)

lemma framed_db:
  "slaves_ok v \<Longrightarrow> active_connections w = active_connections v \<Longrightarrow> slave_connections w = slave_connections v \<Longrightarrow>
   fds_kept (sdb v) (sdb w) \<Longrightarrow> db_inv (sdb w) \<Longrightarrow> framed v w"
  using slaves_ok_cong [of w v] by (simp add: framed_def)

text \<open>Steps that only answer clients.\<close>

lemma framed_kept:
  "server_inv v \<Longrightarrow> active_connections w = active_connections v \<Longrightarrow> slave_connections w = slave_connections v \<Longrightarrow>
   kept (sdb v) (sdb w) \<Longrightarrow> framed v w"
  by (intro framed_db) (auto simp: server_inv_def kept_fds_kept kept_inv)

lemma framed_update:
  assumes "server_inv v" "\<And>cl. fd (f cl) = fd cl \<and> total_subscribed_channels (f cl) = total_subscribed_channels cl"
    "\<And>cl. queued_commands (f cl) = queued_commands cl \<and> flags (f cl) = flags cl"
  shows "framed v (on_db (update_client x f) v)"
  using assms
  by (intro framed_db) (auto simp: server_inv_def fds_kept_update queue_ok_def isClientOnTransaction_def intro!: db_inv_update)

lemma flush_fd_simps [simp]:
  "sdb (flush_fd n v) = sdb v" "slave_connections (flush_fd n v) = slave_connections v"
  "active_connections (flush_fd n v) = active_connections v" "config (flush_fd n v) = config v"
  "blocked_wait_clients (flush_fd n v) = blocked_wait_clients v"
  by (simp_all add: flush_fd_def split: option.split)

lemma fold_flush_fd_simps [simp]:
  "sdb (fold flush_fd ns v) = sdb v" "slave_connections (fold flush_fd ns v) = slave_connections v"
  "active_connections (fold flush_fd ns v) = active_connections v"
  "blocked_wait_clients (fold flush_fd ns v) = blocked_wait_clients v"
  by (induction ns arbitrary: v) simp_all

lemma flush_ready_simps [simp]:
  "sdb (flush_ready xs v) = sdb v" "slave_connections (flush_ready xs v) = slave_connections v"
  "active_connections (flush_ready xs v) = active_connections v"
  unfolding flush_ready_def by (induction xs arbitrary: v) (simp_all split: option.split)

text \<open>Replication: the one that registers a replica is \<open>PSYNC\<close>.\<close>

lemma update_subset: "set (AList.update n x al) \<subseteq> insert (n, x) (set al)"
  by (induction al) auto

lemma slaves_ok_add:
  assumes "slaves_ok v" "active_connections v n = Some x"
  shows "slaves_ok (addSlaveConnection n x v)"
proof -
  have "set (AList.update n x (slave_connections v)) \<subseteq> insert (n, x) (set (slave_connections v))"
    by (rule update_subset)
  then show ?thesis
    using assms distinct_update [of "slave_connections v" n x]
    by (force simp: slaves_ok_def addSlaveConnection_def)
qed

lemma framed_same:
  "framed v y \<Longrightarrow> sdb z = sdb y \<Longrightarrow> active_connections z = active_connections y \<Longrightarrow>
   slave_connections z = slave_connections y \<Longrightarrow> framed v z"
  using slaves_ok_cong [of z y] by (simp add: framed_def)

lemma framed_notify: "framed v y \<Longrightarrow> framed v (notify_clients x c y)"
  by (rule framed_same [of v y]) (simp_all add: notify_clients_def Let_def)

lemma handle_psync_framed:
  assumes "server_inv v" "active_connections v (client_fd c) = Some (client c)" "handle_psync fs v c = Some w"
  shows "framed v w"
proof -
  let ?t = "\<lambda>b. encode_simple_string b (''FULLRESYNC '' @ replication_id (config v) @ '' 0'') @
    ''$'' @ nat_to_string (length (read_rdb_file fs (rdb_file_path (config v)))) @ CRLF @
    read_rdb_file fs (rdb_file_path (config v))"
  let ?v = "on_db (respond c ?t) v"
  let ?w = "on_db (update_client (client c) (\<lambda>cl. cl\<lparr>isslave := True\<rparr>)) ?v"
  have 1: "framed v ?v" using assms(1) by (intro framed_kept) simp_all
  have "framed ?v ?w" by (rule framed_update [OF framed_inv [OF 1 assms(1)]]) simp_all
  then have 2: "framed v ?w" by (rule framed_trans [OF 1])
  have "framed v (addSlaveConnection (client_fd c) (client c) ?w)"
    using 2 assms(2) slaves_ok_add [of ?w "client_fd c" "client c"] by (simp add: framed_def addSlaveConnection_def)
  with 1 show ?thesis
    using assms(3) by (auto simp: handle_psync_def Let_def Option.bind_eq_Some_conv split: if_splits)
qed

lemma handle_replconf_framed:
  assumes "server_inv v" "handle_replconf v c sub n = (w, d)"
  shows "framed v w"
proof (cases "sub = ACK")
  case True
  let ?v = "on_db (update_client (client c) (\<lambda>cl. cl\<lparr>replica_offset := n\<rparr>)) v"
  have 1: "framed v ?v" by (rule framed_update [OF assms(1)]) simp_all
  have "check_blocked_wait_clients ?v c = (w, d)" using assms(2) True by (simp add: handle_replconf_def)
  then have "framed ?v w"
    using check_blocked_wait_clients_spec [of ?v c] framed_inv [OF 1 assms(1)]
    by (intro framed_kept) (auto intro: kept_answer_waits)
  with 1 show ?thesis by (rule framed_trans)
next
  case False
  then show ?thesis using assms by (intro framed_kept) (auto simp: handle_replconf_def)
qed

lemma send_getacks_frame:
  "active_connections (send_getacks xs v) = active_connections v"
  "slave_connections (send_getacks xs v) = slave_connections v"
  "kept s (sdb v) \<Longrightarrow> kept s (sdb (send_getacks xs v))"
  unfolding send_getacks_def by (induction xs arbitrary: v) auto

lemma handle_wait_framed:
  assumes "server_inv v" "handle_wait e v c n t = Some (w, d)"
  shows "framed v w"
  using assms
  by (intro framed_kept)
    (auto simp: handle_wait_def Let_def Option.bind_eq_Some_conv send_getacks_frame split: if_splits)

lemma handle_framed:
  assumes "server_inv v" "active_connections v (client_fd c) = Some (client c)" "handle e fs v c = Some (b, w, d)"
  shows "framed v w"
proof (cases "ctx_command c")
  case None
  then show ?thesis using assms framed_refl by (simp add: handle_def)
next
  case (Some cmd)
  show ?thesis
  proof (cases cmd)
    case (InfoCommand b)
    then show ?thesis using assms Some by (intro framed_kept) (auto simp: handle_def handle_info_def)
  next
    case (ReplConfCommand sub p q n)
    then show ?thesis using assms Some handle_replconf_framed [of v c sub n w d] by (simp add: handle_def)
  next
    case (PsyncCommand i n)
    then show ?thesis using assms Some handle_psync_framed [of v c fs w] by (auto simp: handle_def)
  next
    case (WaitCommand n t)
    then show ?thesis using assms Some handle_wait_framed [of v e c n t w d] by (auto simp: handle_def)
  qed (use assms Some framed_refl in \<open>auto simp: handle_def\<close>)
qed

lemma propagate_framed:
  assumes "server_inv v"
  shows "framed v (propagateAndNotifySlaves e v c k)"
proof -
  have del: "slaves_ok u \<Longrightarrow> slaves_ok (u\<lparr>slave_connections := fold (\<lambda>(n, _). AList.delete n) xs (slave_connections u)\<rparr>)"
    for xs :: "(int \<times> cid) list" and u
  proof (induction xs arbitrary: u)
    case (Cons y xs)
    have "slaves_ok (u\<lparr>slave_connections := AList.delete (fst y) (slave_connections u)\<rparr>)"
      using Cons.prems distinct_delete [of "slave_connections u" "fst y"]
      by (auto simp: slaves_ok_def AList.delete_eq)
    from Cons.IH [OF this] show ?case by (simp add: split_def)
  qed simp
  let ?cfg = "(config v)\<lparr>offset := offset (config v) + of_nat k\<rparr>"
  have "framed v (snd (handle_propagate e v c k))"
  proof (cases "fst (handle_propagate e v c k)")
    case True
    then obtain cmd where cmd: "ctx_command c = Some cmd" by (auto simp: handle_propagate_def split: option.splits)
    let ?s = "fold (\<lambda>(n, x). write_to x (\<lambda>w. w @ to_resp (fixed e 6) cmd)) (slave_connections v) (sdb v)"
    let ?u = "v\<lparr>config := ?cfg, sdb := ?s\<rparr>"
    let ?xs = "filter (\<lambda>(_, x). clients (sdb v) x = None) (slave_connections v)"
    have 1: "framed v ?u" using assms by (intro framed_kept) (simp_all add: kept_fold_write)
    then have "slaves_ok ?u" by (simp add: framed_def)
    from del [OF this, of ?xs] have "framed v (?u\<lparr>slave_connections :=
        fold (\<lambda>(n, _). AList.delete n) ?xs (slave_connections v)\<rparr>)"
      using 1 by (simp add: framed_def)
    then show ?thesis using True cmd
      by (simp add: handle_propagate_def Let_def fold_write_slaves fold_removeSlave split: if_splits)
  next
    case False
    then show ?thesis using framed_refl [OF assms]
      by (auto simp: handle_propagate_def Let_def split: option.splits if_splits)
  qed
  then show ?thesis
    by (rule framed_trans) (use \<open>framed v _\<close> framed_inv assms in
      \<open>auto simp: propagateAndNotifySlaves_def Let_def intro!: framed_kept\<close>)
qed

lemma processClientRequest_framed:
  assumes "server_inv v" "processClientRequest e fs stod n v = Some w"
  shows "framed v w"
proof (cases "active_connections v n")
  case None
  then show ?thesis using assms framed_refl by (simp add: processClientRequest_def)
next
  case (Some x)
  obtain cl where cl: "clients (sdb v) x = Some cl" using assms(2) Some
    by (auto simp: processClientRequest_def Option.bind_eq_Some_conv)
  define r where "r = parseCommand stod (read_buffer cl) 0"
  define u where "u = on_db (update_client x (\<lambda>cl. cl\<lparr>read_buffer := buffer r\<rparr>)) v"
  define c where "c = (new_context x n)\<lparr>ctx_command := Some (command r)\<rparr>"
  have 1: "framed v u" unfolding u_def by (rule framed_update [OF assms(1)]) simp_all
  note iu = framed_inv [OF 1 assms(1)]
  have ac: "active_connections u (client_fd c) = Some (client c)" using Some 1 by (simp add: framed_def c_def new_context_def)
  obtain st u1 c1 where h: "handle e fs u c = Some (st, u1, c1)"
    using assms(2) Some cl
    by (auto simp: processClientRequest_def Let_def Option.bind_eq_Some_conv simp flip: r_def u_def c_def)
  have 2: "framed v u1" using framed_trans [OF 1 handle_framed [OF iu ac h]] .
  note i1 = framed_inv [OF 2 assms(1)]
  have ex: "framed v (propagateAndNotifySlaves e (u1\<lparr>sdb := s\<rparr>) d k)" if "execute e (sdb u1) c1 = Some (s, d)" for s d k
  proof -
    have "framed u1 (u1\<lparr>sdb := s\<rparr>)"
      using i1 that by (intro framed_db) (auto simp: server_inv_def dest: execute_fds execute_inv)
    then show ?thesis
      using framed_trans 2 propagate_framed framed_inv i1 by blast
  qed
  show ?thesis
    using assms(2) Some cl h 2 ex
    by (auto simp: processClientRequest_def Let_def Option.bind_eq_Some_conv simp flip: r_def u_def c_def
        intro!: framed_notify split: if_splits)
qed

section \<open>Reachable states\<close>

lemma kept_expire_queue: "kept s t \<Longrightarrow> kept s (fst (snd (expire_queue now q t)))"
  by (induction now q t rule: expire_queue.induct) (auto simp: Let_def split_def)

lemma kept_expire_blocked: "kept s t \<Longrightarrow> kept s (fst (expire_blocked now ks t))"
proof (induction ks arbitrary: t)
  case (Cons k ks)
  then show ?case by (simp add: Let_def split_def kept_expire_queue)
qed simp

lemma kept_expire_blocked_xread: "kept s t \<Longrightarrow> kept s (fst (expire_blocked_xread now ks t))"
proof (induction ks arbitrary: t)
  case (Cons k ks)
  then show ?case by (simp add: Let_def split_def kept_expire_queue)
qed simp

lemma timeout_framed: "server_inv v \<Longrightarrow> framed v (handle_expired_blocked_clients now ks xks v)"
  by (rule framed_kept)
    (auto simp: handle_expired_blocked_clients_def check_and_expire_blocked_clients_def Let_def split_def
      check_and_expire_blocked_wait_clients_def expire_wait_loop_spec
      intro!: kept_answer_waits kept_expire_blocked_xread kept_expire_blocked)

lemma accept_inv:
  assumes "server_inv v" "onNewConnection x n v = Some w" "clients (sdb v) x = None"
    "\<forall>ch. x \<notin> set (channel (sdb v) ch)" "\<forall>y cl. clients (sdb v) y = Some cl \<longrightarrow> fd cl \<noteq> n"
  shows "server_inv w"
proof -
  obtain u where u: "users (sdb v) ''default'' = Some u"
    using assms(2) by (auto simp: onNewConnection_def Option.bind_eq_Some_conv)
  define cl where "cl = (new_client n)\<lparr>user := Some ''default'', is_authenticated := nopass u \<or> passwords u = []\<rparr>"
  have cl: "fd cl = n" "queued_commands cl = []" "total_subscribed_channels cl = 0"
    by (simp_all add: cl_def new_client_def)
  have w: "w = v\<lparr>sdb := (sdb v)\<lparr>clients := (clients (sdb v))(x \<mapsto> cl)\<rparr>,
      active_connections := (active_connections v)(n \<mapsto> x)\<rparr>"
    using assms(2) u by (simp add: onNewConnection_def cl_def)
  let ?s = "(sdb v)\<lparr>clients := (clients (sdb v))(x \<mapsto> cl)\<rparr>"
  have sub: "subscriptions ?s y = subscriptions (sdb v) y" for y by (rule subscriptions_cong) simp
  have "count_list (channel (sdb v) ch) x = 0" for ch using assms(4) by (simp add: count_list_0_iff)
  then have 0: "subscriptions (sdb v) x = 0" by (simp add: subscriptions_def)
  have n: "active_connections v m = Some y \<Longrightarrow> m \<noteq> n" for m y
    using assms(1,5) by (fastforce simp: server_inv_def conns_ok_def)
  have v: "deadlines_ok (sdb v)" "objects_ok (sdb v)" "counters_ok (sdb v)" "queues_ok (sdb v)" "fds_ok (sdb v)"
    "conns_ok v" "slaves_ok v" using assms(1) by (simp_all add: server_inv_def db_inv_def)
  have "deadlines_ok ?s" "objects_ok ?s" using v(1,2) by (simp_all add: deadlines_ok_def objects_ok_def)
  moreover have "counters_ok ?s" using v(3) 0 cl(3) by (auto simp: counters_ok_def sub)
  moreover have "queues_ok ?s" using v(4) cl(2) by (auto simp: queues_ok_def ran_def queue_ok_def)
  moreover have "fds_ok ?s" using v(5) assms(5) cl(1) unfolding fds_ok_def by (auto split: if_splits) metis
  moreover have "conns_ok w" using v(6) assms(3) cl(1) unfolding w conns_ok_def by auto (metis option.distinct(1))
  moreover have "slaves_ok w" using v(7) n unfolding w slaves_ok_def by fastforce
  ultimately show ?thesis by (simp add: server_inv_def db_inv_def w)
qed

lemma replace_framed:
  assumes "server_inv v" "clients (sdb v) x = Some cl" "fd cl' = fd cl" "queued_commands cl' = queued_commands cl"
    "flags cl' = flags cl" "total_subscribed_channels cl' = total_subscribed_channels cl"
  shows "framed v (on_db (update_client x (\<lambda>_. cl')) v)"
proof -
  let ?f = "\<lambda>c. if c = cl then cl' else c"
  have e: "update_client x (\<lambda>_. cl') (sdb v) = update_client x ?f (sdb v)"
    using assms(2) by (simp add: update_client_def)
  have "framed v (on_db (update_client x ?f) v)" using assms by (intro framed_update) auto
  then show ?thesis by (simp add: on_db_def e)
qed

lemma handleRead_client:
  "handleRead rs cl = Some (cl', i, b) \<Longrightarrow> fd cl' = fd cl \<and> queued_commands cl' = queued_commands cl \<and>
     flags cl' = flags cl \<and> total_subscribed_channels cl' = total_subscribed_channels cl"
  using handleRead_arrived [of rs cl cl' i b] by simp

lemma write_loop_client:
  "write_loop ws cl k sent = Some (cl', i, sent') \<Longrightarrow> \<exists>b. cl' = cl\<lparr>write_buffer := b\<rparr>"
proof (induction ws cl k sent rule: write_loop.induct)
  case (1 ws cl k sent)
  show ?case
  proof (cases "k < length (write_buffer cl)")
    case True
    note l = 1(2) [unfolded write_loop.simps [of ws cl k sent], simplified True if_True]
    show ?thesis
    proof (cases ws)
      case (Cons w ws')
      show ?thesis
      proof (cases w)
        case (Wrote n)
        then show ?thesis using 1(1) [OF True Cons Wrote] l Cons by simp
      qed (use l Cons in \<open>auto intro: exI [of _ "write_buffer cl"]\<close>)
    qed (use l in simp)
  next
    case False
    then show ?thesis using 1(2) by (subst (asm) write_loop.simps) auto
  qed
qed

lemma load_inv:
  assumes "load_snapshot e files v = Some w" "server_inv v"
  shows "server_inv w"
proof -
  obtain s where s: "w = v\<lparr>sdb := s\<rparr>" "kept (sdb v) (sdb w)"
    using load_snapshot_kept [OF assms(1)] by blast
  then show ?thesis by (intro framed_inv [OF framed_kept [OF assms(2)] assms(2)]) simp_all
qed

lemma server_step_inv: "server_step v w \<Longrightarrow> server_inv v \<Longrightarrow> server_inv w"
proof (induction rule: server_step.induct)
  case (accept x n v v')
  then show ?case using accept_inv by blast
next
  case (message v n x cl rs cl' i e fs stod v')
  have "framed v (on_db (update_client x (\<lambda>_. cl')) v)"
    using message handleRead_client by (intro replace_framed) blast+
  then show ?case using framed_inv message processClientRequest_framed by blast
next
  case (closed v n x cl rs cl')
  have "framed v (on_db (update_client x (\<lambda>_. cl')) v)"
    using closed handleRead_client by (intro replace_framed) blast+
  then show ?case by (rule framed_inv [OF framed_same]) (simp_all add: closed(4))
next
  case (writable x v cl ws cl' i sent)
  obtain b where b: "cl' = cl\<lparr>write_buffer := b\<rparr>"
    using writable(3) write_loop_client unfolding handleWrite_def by blast
  have "framed v (on_db (update_client x (\<lambda>_. cl')) v)"
    by (rule replace_framed [OF writable(4,2)]) (simp_all add: b)
  then show ?case by (rule framed_inv [OF framed_same]) (simp_all add: writable(4))
next
  case (timeout v now ks xks)
  then show ?case using timeout_framed framed_inv by blast
next
  case (load e files v v')
  then show ?case using load_inv by blast
qed

lemma init_inv: "server_inv (init_server cfg)"
  by (simp add: server_inv_def init_server_def init_state_def db_inv_def deadlines_ok_def objects_ok_def
      counters_ok_def queues_ok_def fds_ok_def conns_ok_def slaves_ok_def)

lemma reachable_inv: "reachable cfg v \<Longrightarrow> server_inv v"
  by (induction rule: reachable.induct) (auto intro: init_inv server_step_inv)

text \<open>A replica is registered once, and under its own connection.\<close>

lemma server_inv_slaves:
  assumes "server_inv v"
  shows "distinct (map snd (slave_connections v))" "\<forall>(n, x) \<in> set (slave_connections v). clients (sdb v) x \<noteq> None"
proof -
  have *: "\<exists>cl. clients (sdb v) x = Some cl \<and> fd cl = n" if "(n, x) \<in> set (slave_connections v)" for n x
    using that assms by (auto simp: server_inv_def slaves_ok_def conns_ok_def)
  then show "\<forall>(n, x) \<in> set (slave_connections v). clients (sdb v) x \<noteq> None" by fastforce
  have "inj_on snd (set (slave_connections v))"
  proof (rule inj_onI)
    fix p q assume "p \<in> set (slave_connections v)" "q \<in> set (slave_connections v)" "snd p = snd q"
    then show "p = q" using *[of "fst p" "snd p"] *[of "fst q" "snd p"] by (cases p; cases q) auto
  qed
  moreover have "distinct (slave_connections v)"
    using assms distinct_map by (auto simp: server_inv_def slaves_ok_def distinct_map)
  ultimately show "distinct (map snd (slave_connections v))" by (simp add: distinct_map)
qed

section \<open>The poll interval\<close>

text \<open>The deadlines the event loop has to wake up for.\<close>

definition due :: "string list \<Rightarrow> server \<Rightarrow> time set" where
  "due ks v = {t. (\<exists>k \<in> set ks. front_deadline (blocked_keys (sdb v) k) = Some t) \<or>
     (\<exists>b \<in> set (blocked_wait_clients v). timeout_at b = Some t)}"



section \<open>Propagation\<close>


end
