(* ===== verification/Server_Config.thy ===== *)
theory Server_Config
  imports Replication
begin

text \<open>
  The command line, \<open>src/src/server-config.cpp\<close>: \<open>Server::initialize\<close> on the list of
  arguments. The index \<open>i\<close> of the loop is the split of the list into the current argument
  and the ones behind it; \<open>atoi\<close> is the function of the C library, undefined (\<open>None\<close>) when
  the value is no \<open>int\<close>. The theorem: options with well-formed values take effect one after
  the other, and an odd number of arguments changes nothing.
\<close>

section \<open>Definitions\<close>

definition isspace :: "char \<Rightarrow> bool" where
  "isspace c \<longleftrightarrow> (of_char c :: nat) = 32 \<or> (9 \<le> (of_char c :: nat) \<and> (of_char c :: nat) \<le> 13)"

definition atoi :: "string \<Rightarrow> int option" where
  "atoi s =
     (let s = dropWhile isspace s;
          minus = (s \<noteq> [] \<and> hd s = CHR ''-'');
          ds = takeWhile isdigit (if s \<noteq> [] \<and> (hd s = CHR ''-'' \<or> hd s = CHR ''+'') then tl s else s);
          v = (if minus then - int (digits_value 0 ds) else int (digits_value 0 ds))
      in if - 2147483648 \<le> v \<and> v \<le> 2147483647 then Some v else None)"

text \<open>The text before the first space and the text behind it.\<close>

definition split_space :: "string \<Rightarrow> (string \<times> string) option" where
  "split_space s =
     (let host = takeWhile (\<lambda>c. c \<noteq> CHR '' '') s; r = drop (length host) s
      in if r = [] then None else Some (host, tl r))"

definition port_ok :: "int \<Rightarrow> bool" where
  "port_ok p \<longleftrightarrow> 0 < p \<and> p \<le> 65535"

text \<open>
  The branches for \<open>--port\<close> and \<open>--replicaof\<close>: the current argument, the ones behind it and
  the configuration. Both skip the value they have used, so the branches behind them look
  at the value.
\<close>

definition port_option :: "string \<Rightarrow> string list \<Rightarrow> ServerConfig \<Rightarrow> (string \<times> string list \<times> ServerConfig) option" where
  "port_option a rest cfg =
     (if a = ''--port'' \<and> rest \<noteq> [] then do {
        p \<leftarrow> atoi (hd rest);
        Some (hd rest, tl rest, if port_ok p then cfg\<lparr>port := p\<rparr> else cfg) }
      else Some (a, rest, cfg))"

definition replicaof_option :: "string \<Rightarrow> string list \<Rightarrow> ServerConfig \<Rightarrow> (string \<times> string list \<times> ServerConfig) option" where
  "replicaof_option a rest cfg =
     (if is_equal a ''--replicaof'' \<and> rest \<noteq> [] then
        (case split_space (hd rest) of
           None \<Rightarrow> Some (a, rest, cfg)
         | Some (host, p) \<Rightarrow> do {
             p \<leftarrow> atoi p;
             let cfg = cfg\<lparr>master_host := host, master_port := p\<rparr>;
             Some (hd rest, tl rest, if port_ok p then cfg\<lparr>role := SLAVE\<rparr> else cfg) })
      else Some (a, rest, cfg))"

definition path_options :: "string \<Rightarrow> string list \<Rightarrow> ServerConfig \<Rightarrow> ServerConfig" where
  "path_options a rest cfg =
     (let cfg = (if is_equal a ''--dir'' \<and> rest \<noteq> [] then cfg\<lparr>rdb_file_path := hd rest\<rparr> else cfg)
      in if is_equal a ''--dbfilename'' \<and> rest \<noteq> [] then cfg\<lparr>rdb_file_name := hd rest\<rparr> else cfg)"

lemma options_shrink:
  "port_option a rest cfg = Some (a', rest', cfg') \<Longrightarrow> length rest' \<le> length rest"
  "replicaof_option a rest cfg = Some (a', rest', cfg') \<Longrightarrow> length rest' \<le> length rest"
  by (auto simp: port_option_def replicaof_option_def Let_def Option.bind_eq_Some_conv
      split: if_splits option.splits)

function init_loop :: "string list \<Rightarrow> ServerConfig \<Rightarrow> ServerConfig option" where
  "init_loop [] cfg = Some cfg"
| "init_loop (a # rest) cfg =
     (case port_option a rest cfg of
        None \<Rightarrow> None
      | Some (a, rest, cfg) \<Rightarrow>
          (case replicaof_option a rest cfg of
             None \<Rightarrow> None
           | Some (a, rest, cfg) \<Rightarrow> init_loop rest (path_options a rest cfg)))"
  by pat_completeness auto
termination
  by (relation "measure (\<lambda>(args, cfg). length args)") (auto dest!: options_shrink)

text \<open>\<open>argv\<close> with the name of the program in front.\<close>

definition initialize :: "string list \<Rightarrow> ServerConfig \<Rightarrow> ServerConfig option" where
  "initialize argv cfg =
     (if 1 < length argv \<and> (length argv - 1) mod 2 \<noteq> 0 then Some cfg else init_loop (drop 1 argv) cfg)"

section \<open>Options take effect\<close>

datatype setting = Port nat | Replicaof string nat | Dir string | Dbfilename string

fun setting_args :: "setting \<Rightarrow> string list" where
  "setting_args (Port p) = [''--port'', nat_to_string p]"
| "setting_args (Replicaof h p) = [''--replicaof'', h @ '' '' @ nat_to_string p]"
| "setting_args (Dir d) = [''--dir'', d]"
| "setting_args (Dbfilename f) = [''--dbfilename'', f]"

fun apply_setting :: "setting \<Rightarrow> ServerConfig \<Rightarrow> ServerConfig" where
  "apply_setting (Port p) cfg = cfg\<lparr>port := int p\<rparr>"
| "apply_setting (Replicaof h p) cfg = cfg\<lparr>master_host := h, master_port := int p, role := SLAVE\<rparr>"
| "apply_setting (Dir d) cfg = cfg\<lparr>rdb_file_path := d\<rparr>"
| "apply_setting (Dbfilename f) cfg = cfg\<lparr>rdb_file_name := f\<rparr>"

definition option_name :: "string \<Rightarrow> bool" where
  "option_name s \<longleftrightarrow> s = ''--port'' \<or> is_equal s ''--replicaof'' \<or> is_equal s ''--dir'' \<or> is_equal s ''--dbfilename''"

fun setting_ok :: "setting \<Rightarrow> bool" where
  "setting_ok (Port p) \<longleftrightarrow> 0 < p \<and> p \<le> 65535"
| "setting_ok (Replicaof h p) \<longleftrightarrow> 0 < p \<and> p \<le> 65535 \<and> CHR '' '' \<notin> set h"
| "setting_ok (Dir d) \<longleftrightarrow> \<not> option_name d"
| "setting_ok (Dbfilename f) \<longleftrightarrow> \<not> option_name f"

lemma digit_not_space: "isdigit c \<Longrightarrow> \<not> isspace c \<and> c \<noteq> CHR ''-'' \<and> c \<noteq> CHR ''+''"
  by (auto simp: isdigit_def isspace_def)

lemma atoi_nat:
  assumes "n \<le> 65535"
  shows "atoi (nat_to_string n) = Some (int n)"
proof -
  obtain c cs where s: "nat_to_string n = c # cs" by (cases "nat_to_string n") auto
  have d: "list_all isdigit (c # cs)" using nat_to_string_digits [of n] by (simp add: s)
  have tw: "takeWhile isdigit cs = cs" using d by (induction cs) auto
  have "digits_value 0 (c # cs) = n" using digits_value_nat_to_string [of n] by (simp add: s)
  then show ?thesis
    unfolding s using d digit_not_space [of c] assms by (simp add: atoi_def Let_def tw)
qed

lemma split_space_append: "CHR '' '' \<notin> set h \<Longrightarrow> split_space (h @ CHR '' '' # p) = Some (h, p)"
  by (simp add: split_space_def takeWhile_append2 Let_def in_set_conv_decomp
      takeWhile_append takeWhile_eq_all_conv)

text \<open>The characters of an option name, in lower case.\<close>

lemma option_name_chars:
  assumes "option_name s" "c \<in> set s"
  shows "tolower c \<in> set ''-abcdefilmnoprt''"
proof -
  have *: "tolower c \<in> set (map tolower t)" if "is_equal s t" for t
    using that assms(2) image_eqI [of "tolower c" tolower c "set s"]
    unfolding is_equal_map_tolower by (metis list.set_map)
  have "set (map tolower ''--port'') \<subseteq> set ''-abcdefilmnoprt''" "set (map tolower ''--replicaof'') \<subseteq> set ''-abcdefilmnoprt''"
    "set (map tolower ''--dir'') \<subseteq> set ''-abcdefilmnoprt''" "set (map tolower ''--dbfilename'') \<subseteq> set ''-abcdefilmnoprt''"
    by code_simp+
  then show ?thesis using assms(1) * is_equal_refl [of s] unfolding option_name_def by blast
qed

lemma values_not_options: "\<not> option_name (nat_to_string n)" "\<not> option_name (h @ CHR '' '' # p)"
proof -
  have d: "tolower c = c \<and> c \<notin> set ''-abcdefilmnoprt''" if "isdigit c" for c
    using that by (auto simp: isdigit_def tolower_def)
  obtain c where c: "c \<in> set (nat_to_string n)" "isdigit c"
    using nat_to_string_digits [of n] by (cases "nat_to_string n") auto
  show "\<not> option_name (nat_to_string n)" using option_name_chars [OF _ c(1)] d [OF c(2)] by metis
  have "tolower (CHR '' '') \<notin> set ''-abcdefilmnoprt''" by code_simp
  then show "\<not> option_name (h @ CHR '' '' # p)" using option_name_chars [of "h @ CHR '' '' # p" "CHR '' ''"] by auto
qed

lemma no_option:
  assumes "\<not> option_name a"
  shows "port_option a rest cfg = Some (a, rest, cfg)" "replicaof_option a rest cfg = Some (a, rest, cfg)"
    "path_options a rest cfg = cfg"
  using assms by (simp_all add: option_name_def port_option_def replicaof_option_def path_options_def)

lemma option_names:
  "\<not> is_equal ''--dir'' ''--replicaof''" "\<not> is_equal ''--dir'' ''--dbfilename''"
  "\<not> is_equal ''--dbfilename'' ''--replicaof''" "\<not> is_equal ''--dbfilename'' ''--dir''"
  by (simp_all add: is_equal_def)

lemma init_loop_setting:
  assumes "setting_ok x"
  shows "init_loop (setting_args x @ rest) cfg = init_loop rest (apply_setting x cfg)"
proof (cases x)
  case (Port p)
  then show ?thesis
    using assms no_option [OF values_not_options(1)] by (simp add: port_option_def atoi_nat port_ok_def)
next
  case (Replicaof h p)
  then show ?thesis
    using assms no_option [OF values_not_options(2)]
    by (simp add: port_option_def replicaof_option_def split_space_append atoi_nat port_ok_def)
next
  case (Dir d)
  then show ?thesis
    using assms no_option [of d] option_names by (simp add: port_option_def replicaof_option_def path_options_def)
next
  case (Dbfilename f)
  then show ?thesis
    using assms no_option [of f] option_names by (simp add: port_option_def replicaof_option_def path_options_def)
qed

lemma initialize_settings:
  assumes "list_all setting_ok xs"
  shows "initialize (prog # concat (map setting_args xs)) cfg = Some (fold apply_setting xs cfg)"
proof -
  have even: "length (concat (map setting_args xs)) mod 2 = 0"
  proof (induction xs)
    case (Cons x xs)
    then show ?case by (cases x) simp_all
  qed simp
  have "init_loop (concat (map setting_args xs)) cfg = Some (fold apply_setting xs cfg)"
    using assms by (induction xs arbitrary: cfg) (simp_all add: init_loop_setting)
  then show ?thesis using even by (simp add: initialize_def)
qed

lemma initialize_odd: "odd (length args) \<Longrightarrow> initialize (prog # args) cfg = Some cfg"
  by (cases args) (auto simp: initialize_def odd_iff_mod_2_eq_one)

end
