(* ===== verification/Slave.thy ===== *)
theory Slave
  imports Replication
begin

text \<open>
  The replica side of replication, \<open>src/src/slave-replication.cpp\<close>: the handshake as a state
  machine and the execution of the command stream of the master. The replica's client is
  an object of the heap of clients, whose buffers it uses; \<open>self\<close> is its name. The theorems:
  the replies of the master of \<open>Replication\<close> take the handshake to its end and leave the
  bytes behind the snapshot; a stream of serialised commands is executed command by
  command, in order, and the acknowledged offset counts its bytes.
\<close>

section \<open>Definitions\<close>

datatype ReplicationStatus =
  IDLE | PING_SENT | PING_SENT_SUCCESS | REPLCONF_PORT_SENT | REPLCONF_PORT_SUCCESS
| REPLCONF_CAPA_SENT | REPLCONF_CAPA_SUCCESS | PSYNC_SENT | HANDSHAKE_SUCCESS

record SlaveReplicationClient =
  self :: cid
  replication_status :: ReplicationStatus
  slave_port :: nat
  is_handshake_completed :: bool
  repl_id :: string
  slave_offset :: int
  bytes_processed :: int

definition new_slave :: "cid \<Rightarrow> nat \<Rightarrow> SlaveReplicationClient" where
  "new_slave x p =
     \<lparr>self = x, replication_status = IDLE, slave_port = p, is_handshake_completed = False,
      repl_id = ''?'', slave_offset = - 1, bytes_processed = 0\<rparr>"

definition set_read_buffer :: "cid \<Rightarrow> string \<Rightarrow> state \<Rightarrow> state" where
  "set_read_buffer x b = update_client x (\<lambda>cl. cl\<lparr>read_buffer := b\<rparr>)"

definition clear_write_buffer :: "cid \<Rightarrow> state \<Rightarrow> state" where
  "clear_write_buffer x = update_client x (\<lambda>cl. cl\<lparr>write_buffer := []\<rparr>)"

definition prepare_handshake_write ::
  "SlaveReplicationClient \<Rightarrow> state \<Rightarrow> SlaveReplicationClient \<times> state" where
  "prepare_handshake_write sl s =
     (if replication_status sl = IDLE then
        (sl\<lparr>replication_status := PING_SENT\<rparr>,
         write_to (self sl) (\<lambda>w. encode_bulk_string (encode_array_header w 1) ''PING'') s)
      else if replication_status sl = PING_SENT_SUCCESS then
        (sl\<lparr>replication_status := REPLCONF_PORT_SENT\<rparr>,
         write_to (self sl) (\<lambda>w. foldl encode_bulk_string (encode_array_header w 3)
           [''REPLCONF'', ''listening-port'', nat_to_string (slave_port sl)]) s)
      else if replication_status sl = REPLCONF_PORT_SUCCESS then
        (sl\<lparr>replication_status := REPLCONF_CAPA_SENT\<rparr>,
         write_to (self sl) (\<lambda>w. foldl encode_bulk_string (encode_array_header w 3)
           [''REPLCONF'', ''capa'', ''psync2'']) s)
      else if replication_status sl = REPLCONF_CAPA_SUCCESS then
        (sl\<lparr>replication_status := PSYNC_SENT\<rparr>,
         write_to (self sl) (\<lambda>w. foldl encode_bulk_string (encode_array_header w 3)
           [''PSYNC'', repl_id sl, int_to_string (slave_offset sl)]) s)
      else (sl, s))"

text \<open>The text up to the first line end and the text behind it.\<close>

fun split_line :: "string \<Rightarrow> (string \<times> string) option" where
  "split_line [] = None"
| "split_line [x] = None"
| "split_line (x # y # zs) =
     (if x = CR \<and> y = LF then Some ([], zs)
      else map_option (\<lambda>(l, r). (x # l, r)) (split_line (y # zs)))"

text \<open>
  The snapshot behind the answer to \<open>PSYNC\<close>: \<open>Inl\<close> is an early return, waiting for more
  bytes. The end of the snapshot is computed in 64 bits.
\<close>

definition skip_snapshot :: "string \<Rightarrow> unit + string" where
  "skip_snapshot buf =
     (if buf \<noteq> [] \<and> hd buf = CHR ''$'' then
        (case split_line (tl buf) of
           None \<Rightarrow> Inl ()
         | Some (length_str, rest) \<Rightarrow>
             let (ok, rdb_length) = convert_positive_string_to_number length_str in
             if ok then
               let rdb_end = (1 + length length_str + 2 + unat rdb_length) mod 18446744073709551616
               in if length buf < rdb_end then Inl () else Inr (drop rdb_end buf)
             else Inr buf)
      else Inr buf)"

definition handle_handshake_read ::
  "SlaveReplicationClient \<Rightarrow> state \<Rightarrow> (SlaveReplicationClient \<times> state) option" where
  "handle_handshake_read sl s = do {
     cl \<leftarrow> clients s (self sl);
     let (status, response) = parse_simple_string (read_buffer cl);
     let next = (\<lambda>st. prepare_handshake_write (sl\<lparr>replication_status := st\<rparr>) (set_read_buffer (self sl) [] s));
     let clear = (\<lambda>(sl, s). (sl, set_read_buffer (self sl) [] s));
     Some (if \<not> status then (sl, s)
       else if replication_status sl = PING_SENT \<and> is_equal response ''PONG'' then clear (next PING_SENT_SUCCESS)
       else if replication_status sl = REPLCONF_PORT_SENT \<and> is_equal response ''OK''
       then clear (next REPLCONF_PORT_SUCCESS)
       else if replication_status sl = REPLCONF_CAPA_SENT \<and> is_equal response ''OK''
       then clear (next REPLCONF_CAPA_SUCCESS)
       else if replication_status sl = PSYNC_SENT then
         (case split_line (read_buffer cl) of
            None \<Rightarrow> (sl, s)
          | Some (_, rest) \<Rightarrow>
              (case skip_snapshot rest of
                 Inl _ \<Rightarrow> (sl, set_read_buffer (self sl) rest s)
               | Inr rest \<Rightarrow>
                   (sl\<lparr>replication_status := HANDSHAKE_SUCCESS, is_handshake_completed := True\<rparr>,
                    set_read_buffer (self sl) rest s)))
       else clear (sl, s)) }"

definition ack_reply :: "int \<Rightarrow> string" where
  "ack_reply n = foldl encode_bulk_string (encode_array_header [] 3) [''REPLCONF'', ''ACK'', int_to_string n]"

definition is_getack :: "Command \<Rightarrow> bool" where
  "is_getack cmd \<longleftrightarrow> (case cmd of ReplConfCommand sub _ _ _ \<Rightarrow> sub = GETACK | _ \<Rightarrow> False)"

text \<open>
  \<open>process_commands\<close>: the loop has no bound of its own, so not returning is \<open>None\<close>, as is
  the null pointer of a command that \<open>execute\<close> has moved into a queue.
\<close>

partial_function (option) process_commands ::
  "env \<Rightarrow> (string \<Rightarrow> real option) \<Rightarrow> SlaveReplicationClient \<Rightarrow> state \<Rightarrow>
     (SlaveReplicationClient \<times> state) option" where
  "process_commands e stod sl s =
     Option.bind (clients s (self sl)) (\<lambda>cl.
       if read_buffer cl = [] then Some (sl, s)
       else
         (let r = parseCommand stod (read_buffer cl) 0;
              s = set_read_buffer (self sl) (buffer r) s;
              n = (case bytes r of None \<Rightarrow> 0 | Some k \<Rightarrow> int k)
          in if cmd_type (command r) = UNKNOWN then Some (sl, s)
             else if is_getack (command r) then
               process_commands e stod (sl\<lparr>bytes_processed := bytes_processed sl + n\<rparr>)
                 (write_to (self sl) (\<lambda>_. ack_reply (bytes_processed sl)) s)
             else Option.bind
               (execute e s ((new_context (self sl) (fd cl))\<lparr>ctx_command := Some (command r)\<rparr>))
               (\<lambda>sc. if ctx_command (snd sc) = None then None
                 else process_commands e stod (sl\<lparr>bytes_processed := bytes_processed sl + n\<rparr>)
                   (clear_write_buffer (self sl) (fst sc)))))"

definition process_read_buffer ::
  "env \<Rightarrow> (string \<Rightarrow> real option) \<Rightarrow> SlaveReplicationClient \<Rightarrow> state \<Rightarrow>
     (SlaveReplicationClient \<times> state) option" where
  "process_read_buffer e stod sl s =
     (if \<not> is_handshake_completed sl then do {
        (sl, s) \<leftarrow> handle_handshake_read sl s;
        if is_handshake_completed sl then process_commands e stod sl s else Some (sl, s) }
      else process_commands e stod sl s)"

section \<open>The handshake\<close>

lemma parse_simple_string_line:
  assumes "CR \<notin> set t"
  shows "parse_simple_string (CHR ''+'' # t @ CR # LF # rest) = (True, t)"
proof -
  have "takeWhile (\<lambda>x. x \<noteq> CR) (t @ CR # LF # rest) = t"
    using assms by (subst takeWhile_append2) auto
  then show ?thesis by (simp add: parse_simple_string_def)
qed

lemma split_line_append: "CR \<notin> set l \<Longrightarrow> split_line (l @ CR # LF # rest) = Some (l, rest)"
proof (induction l)
  case (Cons x l)
  then show ?case by (cases l) auto
qed simp

lemma length_nat_to_string: "length (nat_to_string n) \<le> n + 1"
proof (induction n rule: nat_to_string.induct)
  case (1 n)
  then show ?case by (subst nat_to_string.simps) (auto intro: le_trans)
qed

lemma skip_snapshot_all:
  assumes "length rdb < 2 ^ 62"
  shows "skip_snapshot (''$'' @ nat_to_string (length rdb) @ CRLF @ rdb @ rest) = Inr rest"
proof -
  let ?l = "nat_to_string (length rdb)"
  have u: "unat (of_nat (length rdb) :: 64 word) = length rdb"
    using assms by (simp add: unsigned_of_nat take_bit_nat_eq_self)
  have m: "(1 + length ?l + 2 + length rdb) mod 18446744073709551616 = 1 + length ?l + 2 + length rdb"
    using assms length_nat_to_string [of "length rdb"] by (intro mod_less) simp
  show ?thesis
    using m by (simp add: skip_snapshot_def split_line_append u Let_def)
qed

text \<open>One round: the answer of the master has been read and the last request has been sent.\<close>

definition handshake_round ::
  "SlaveReplicationClient \<times> state \<Rightarrow> string \<Rightarrow> (SlaveReplicationClient \<times> state) option" where
  "handshake_round p answer =
     (case p of (sl, s) \<Rightarrow>
        handle_handshake_read sl (set_read_buffer (self sl) answer (clear_write_buffer (self sl) s)))"

definition request :: "string list \<Rightarrow> string" where
  "request ss = foldl encode_bulk_string (encode_array_header [] (length ss)) ss"

definition received :: "state \<Rightarrow> cid \<Rightarrow> string" where
  "received s x = (case clients s x of None \<Rightarrow> [] | Some cl \<Rightarrow> read_buffer cl)"

lemma clients_set_buffers [simp]:
  "clients (set_read_buffer x b s) y =
     (if y = x then map_option (\<lambda>cl. cl\<lparr>read_buffer := b\<rparr>) (clients s x) else clients s y)"
  "clients (clear_write_buffer x s) y =
     (if y = x then map_option (\<lambda>cl. cl\<lparr>write_buffer := []\<rparr>) (clients s x) else clients s y)"
  by (simp_all add: set_read_buffer_def clear_write_buffer_def)

lemma store_set_buffers [simp]:
  "store (set_read_buffer x b s) = store s" "store (clear_write_buffer x s) = store s"
  by (simp_all add: set_read_buffer_def clear_write_buffer_def)

text \<open>The state after a round: the status, the next request in the write buffer, the store as before.\<close>

definition asked :: "cid \<Rightarrow> SlaveReplicationClient \<Rightarrow> state \<Rightarrow> string list \<Rightarrow> SlaveReplicationClient \<times> state \<Rightarrow> bool" where
  "asked x sl s req p \<longleftrightarrow>
     fst p = sl \<and> clients (snd p) x \<noteq> None \<and> buffer_of (snd p) x = request req \<and> store (snd p) = store s"

lemmas handshake_defs = handshake_round_def handle_handshake_read_def prepare_handshake_write_def
  asked_def request_def is_equal_def buffer_of_def numeral_3_eq_3

lemma handshake_rounds:
  assumes "clients s (self sl) \<noteq> None"
  shows "replication_status sl = PING_SENT \<Longrightarrow>
      \<exists>p. handshake_round (sl, s) (''+PONG'' @ CRLF) = Some p \<and>
        asked (self sl) (sl\<lparr>replication_status := REPLCONF_PORT_SENT\<rparr>) s
          [''REPLCONF'', ''listening-port'', nat_to_string (slave_port sl)] p"
    and "replication_status sl = REPLCONF_PORT_SENT \<Longrightarrow>
      \<exists>p. handshake_round (sl, s) (''+OK'' @ CRLF) = Some p \<and>
        asked (self sl) (sl\<lparr>replication_status := REPLCONF_CAPA_SENT\<rparr>) s [''REPLCONF'', ''capa'', ''psync2''] p"
    and "replication_status sl = REPLCONF_CAPA_SENT \<Longrightarrow>
      \<exists>p. handshake_round (sl, s) (''+OK'' @ CRLF) = Some p \<and>
        asked (self sl) (sl\<lparr>replication_status := PSYNC_SENT\<rparr>) s
          [''PSYNC'', repl_id sl, int_to_string (slave_offset sl)] p"
  using assms by (auto simp: handshake_defs parse_simple_string_def)

lemma handshake_psync:
  assumes "clients s (self sl) \<noteq> None" "replication_status sl = PSYNC_SENT"
    and "CR \<notin> set rid" "length rdb < 2 ^ 62"
  shows "\<exists>s'. handshake_round (sl, s) (''+FULLRESYNC '' @ rid @ '' 0'' @ CRLF @
      ''$'' @ nat_to_string (length rdb) @ CRLF @ rdb @ rest) =
        Some (sl\<lparr>replication_status := HANDSHAKE_SUCCESS, is_handshake_completed := True\<rparr>, s') \<and>
      received s' (self sl) = rest \<and> store s' = store s"
proof -
  let ?line = "''FULLRESYNC '' @ rid @ '' 0''"
  let ?rest = "''$'' @ nat_to_string (length rdb) @ CRLF @ rdb @ rest"
  have cr: "CR \<notin> set ?line" "CR \<notin> set (CHR ''+'' # ?line)" using assms(3) by auto
  from split_line_append [OF cr(2), of ?rest] parse_simple_string_line [OF cr(1), of ?rest]
    skip_snapshot_all [OF assms(4), of rest] assms(1,2)
  show ?thesis by (auto simp: handshake_round_def handle_handshake_read_def received_def)
qed

text \<open>
  C20. The whole handshake: the replica sends \<open>PING\<close>, \<open>REPLCONF listening-port\<close>, \<open>REPLCONF capa\<close>
  and \<open>PSYNC\<close>, each after the answer to the one before, and after the answer to the last one,
  a snapshot of any length included, the handshake is complete, the bytes behind the
  snapshot are left for the commands and the store is as it was.
\<close>

lemma handshake_runs:
  fixes n :: nat
  assumes "clients s x = Some cl" "write_buffer cl = []" "CR \<notin> set rid" "length rdb < 2 ^ 62"
  defines "sl \<equiv> new_slave x n"
  shows "\<exists>p0 p1 p2 p3 s'.
     prepare_handshake_write sl s = p0 \<and> asked x (sl\<lparr>replication_status := PING_SENT\<rparr>) s [''PING''] p0 \<and>
     handshake_round p0 (''+PONG'' @ CRLF) = Some p1 \<and>
     asked x (sl\<lparr>replication_status := REPLCONF_PORT_SENT\<rparr>) s [''REPLCONF'', ''listening-port'', nat_to_string n] p1 \<and>
     handshake_round p1 (''+OK'' @ CRLF) = Some p2 \<and>
     asked x (sl\<lparr>replication_status := REPLCONF_CAPA_SENT\<rparr>) s [''REPLCONF'', ''capa'', ''psync2''] p2 \<and>
     handshake_round p2 (''+OK'' @ CRLF) = Some p3 \<and>
     asked x (sl\<lparr>replication_status := PSYNC_SENT\<rparr>) s [''PSYNC'', ''?'', ''-1''] p3 \<and>
     handshake_round p3 (''+FULLRESYNC '' @ rid @ '' 0'' @ CRLF @
         ''$'' @ nat_to_string (length rdb) @ CRLF @ rdb @ rest) =
       Some (sl\<lparr>replication_status := HANDSHAKE_SUCCESS, is_handshake_completed := True\<rparr>, s') \<and>
     received s' x = rest \<and> store s' = store s"
proof -
  have self [simp]: "self sl = x" "slave_port sl = n" "repl_id sl = ''?''" "slave_offset sl = - 1"
      "replication_status sl = IDLE"
    by (simp_all add: sl_def new_slave_def)
  have minus_one: "int_to_string (- 1) = ''-1''" by code_simp
  obtain s0 where p0: "prepare_handshake_write sl s = (sl\<lparr>replication_status := PING_SENT\<rparr>, s0)"
    and s0: "clients s0 x \<noteq> None" "buffer_of s0 x = request [''PING'']" "store s0 = store s"
    using assms(1,2) by (auto simp: handshake_defs)
  from handshake_rounds(1) [of s0 "sl\<lparr>replication_status := PING_SENT\<rparr>"] s0
  obtain s1 where p1: "handshake_round (sl\<lparr>replication_status := PING_SENT\<rparr>, s0) (''+PONG'' @ CRLF) =
      Some (sl\<lparr>replication_status := REPLCONF_PORT_SENT\<rparr>, s1)"
    and s1: "asked x (sl\<lparr>replication_status := REPLCONF_PORT_SENT\<rparr>) s [''REPLCONF'', ''listening-port'', nat_to_string n]
      (sl\<lparr>replication_status := REPLCONF_PORT_SENT\<rparr>, s1)"
    by (auto simp: asked_def)
  from handshake_rounds(2) [of s1 "sl\<lparr>replication_status := REPLCONF_PORT_SENT\<rparr>"] s1
  obtain s2 where p2: "handshake_round (sl\<lparr>replication_status := REPLCONF_PORT_SENT\<rparr>, s1) (''+OK'' @ CRLF) =
      Some (sl\<lparr>replication_status := REPLCONF_CAPA_SENT\<rparr>, s2)"
    and s2: "asked x (sl\<lparr>replication_status := REPLCONF_CAPA_SENT\<rparr>) s [''REPLCONF'', ''capa'', ''psync2'']
      (sl\<lparr>replication_status := REPLCONF_CAPA_SENT\<rparr>, s2)"
    by (auto simp: asked_def)
  from handshake_rounds(3) [of s2 "sl\<lparr>replication_status := REPLCONF_CAPA_SENT\<rparr>"] s2
  obtain s3 where p3: "handshake_round (sl\<lparr>replication_status := REPLCONF_CAPA_SENT\<rparr>, s2) (''+OK'' @ CRLF) =
      Some (sl\<lparr>replication_status := PSYNC_SENT\<rparr>, s3)"
    and s3: "asked x (sl\<lparr>replication_status := PSYNC_SENT\<rparr>) s [''PSYNC'', ''?'', ''-1'']
      (sl\<lparr>replication_status := PSYNC_SENT\<rparr>, s3)"
    by (auto simp: asked_def minus_one)
  from handshake_psync [of s3 "sl\<lparr>replication_status := PSYNC_SENT\<rparr>" rid rdb rest] s3 assms(3,4)
  show ?thesis using p0 p1 p2 p3 s0 s1 s2 by (auto simp: asked_def)
qed

section \<open>The stream of commands\<close>

text \<open>
  The commands of the master executed one after the other; while one is executed, the ones
  behind it are still in the read buffer. \<open>n\<close> counts the bytes.
\<close>

fun replay ::
  "env \<Rightarrow> (real \<Rightarrow> string) \<Rightarrow> cid \<Rightarrow> Command list \<Rightarrow> int \<Rightarrow> state \<Rightarrow> (int \<times> state) option" where
  "replay e dtos x [] n s = Some (n, s)"
| "replay e dtos x (cmd # cmds) n s =
     (let s = set_read_buffer x (concat (map (to_resp dtos) cmds)) s;
          m = n + int (length (to_resp dtos cmd))
      in if is_getack cmd then replay e dtos x cmds m (write_to x (\<lambda>_. ack_reply n) s)
         else do {
           cl \<leftarrow> clients s x;
           (s, c) \<leftarrow> execute e s ((new_context x (fd cl))\<lparr>ctx_command := Some cmd\<rparr>);
           if ctx_command c = None then None
           else replay e dtos x cmds m (clear_write_buffer x s) })"

lemma db_inv_buffers [simp]:
  "db_inv s \<Longrightarrow> db_inv (set_read_buffer x b s)" "db_inv s \<Longrightarrow> db_inv (clear_write_buffer x s)"
  unfolding set_read_buffer_def clear_write_buffer_def
  by (auto simp: queue_ok_def isClientOnTransaction_def intro!: db_inv_update)

lemma process_commands_replay:
  assumes "db_inv s" "clients s (self sl) = Some cl" "read_buffer cl = concat (map (to_resp dtos) cmds)"
    and "list_all (\<lambda>cmd. wire_ok stod dtos cmd \<and> cmd_type cmd \<noteq> UNKNOWN) cmds"
  shows "process_commands e stod sl s =
    map_option (\<lambda>(n, s). (sl\<lparr>bytes_processed := n\<rparr>, s)) (replay e dtos (self sl) cmds (bytes_processed sl) s)"
  using assms
proof (induction cmds arbitrary: s sl cl)
  case Nil
  then show ?case by (subst process_commands.simps) simp
next
  case (Cons cmd cmds)
  let ?rest = "concat (map (to_resp dtos) cmds)"
  let ?s = "set_read_buffer (self sl) ?rest s"
  let ?sl = "sl\<lparr>bytes_processed := bytes_processed sl + int (length (to_resp dtos cmd))\<rparr>"
  have pb: "parsed_back stod dtos cmd" using Cons.prems wire_ok_parsed_back by simp
  have parse: "parseCommand stod (read_buffer cl) 0 =
      \<lparr>command = cmd, bytes = Some (length (to_resp dtos cmd)), buffer = ?rest, position = 0\<rparr>"
    using pb Cons.prems(3) by (simp add: parsed_back_def)
  note ne = parsed_back_not_Nil [OF pb]
  show ?case
  proof (cases "is_getack cmd")
    case True
    then show ?thesis
      using Cons.IH [of "write_to (self sl) (\<lambda>_. ack_reply (bytes_processed sl)) ?s" ?sl] Cons.prems ne parse
      by (subst process_commands.simps) (simp add: db_inv_write Let_def)
  next
    case False
    define r where "r = execute e ?s ((new_context (self sl) (fd cl))\<lparr>ctx_command := Some cmd\<rparr>)"
    have "process_commands e stod ?sl (clear_write_buffer (self sl) s') =
        map_option (\<lambda>(n, s). (?sl\<lparr>bytes_processed := n\<rparr>, s))
          (replay e dtos (self sl) cmds (bytes_processed ?sl) (clear_write_buffer (self sl) s'))"
      if "r = Some (s', c')" for s' c'
    proof -
      have inv: "db_inv s'" using execute_inv that Cons.prems(1) unfolding r_def by (meson db_inv_buffers)
      have "inputs_kept ?s s'" using execute_inputs that Cons.prems(1) unfolding r_def by (meson db_inv_buffers)
      then have "map_option (\<lambda>cl. (fd cl, read_buffer cl)) (clients s' (self sl)) =
          map_option (\<lambda>cl. (fd cl, read_buffer cl)) (clients ?s (self sl))"
        unfolding inputs_kept_def by blast
      then obtain cl' where "clients s' (self sl) = Some cl'" "read_buffer cl' = ?rest"
        using Cons.prems(2) by auto
      with inv Cons.IH [of "clear_write_buffer (self sl) s'" ?sl "cl'\<lparr>write_buffer := []\<rparr>"] Cons.prems(4)
      show ?thesis by simp
    qed
    then show ?thesis
      using Cons.prems False ne parse r_def
      by (subst process_commands.simps) (auto simp: Let_def split: Option.bind_split)
  qed
qed

text \<open>
  A snapshot that arrives in several pieces: the line before it is taken off the read buffer
  at the first piece, so that no later read finds the simple string the status needs.
\<close>

lemma skip_snapshot_part:
  assumes "length rdb < 2 ^ 62" "k < length rdb"
  shows "skip_snapshot (''$'' @ nat_to_string (length rdb) @ CRLF @ take k rdb) = Inl ()"
proof -
  let ?l = "nat_to_string (length rdb)"
  have u: "unat (of_nat (length rdb) :: 64 word) = length rdb"
    using assms by (simp add: unsigned_of_nat take_bit_nat_eq_self)
  have m: "(1 + length ?l + 2 + length rdb) mod 18446744073709551616 = 1 + length ?l + 2 + length rdb"
    using assms length_nat_to_string [of "length rdb"] by (intro mod_less) simp
  show ?thesis
    using m assms(2) by (simp add: skip_snapshot_def split_line_append u Let_def)
qed

text \<open>
  C38. A snapshot of which the last bytes are missing in the first read leaves the handshake
  incomplete for good: the line before it has been taken off the read buffer, and whatever
  arrives later, no further read changes anything.
\<close>

lemma handshake_part:
  assumes "clients s (self sl) \<noteq> None" "replication_status sl = PSYNC_SENT"
    and "CR \<notin> set rid" "length rdb < 2 ^ 62" "k < length rdb"
  shows "\<exists>s'. handshake_round (sl, s) (''+FULLRESYNC '' @ rid @ '' 0'' @ CRLF @
      ''$'' @ nat_to_string (length rdb) @ CRLF @ take k rdb) = Some (sl, s') \<and>
    (\<forall>more. handle_handshake_read sl (set_read_buffer (self sl) (received s' (self sl) @ more) s') =
      Some (sl, set_read_buffer (self sl) (received s' (self sl) @ more) s'))"
proof -
  let ?line = "''FULLRESYNC '' @ rid @ '' 0''"
  let ?rest = "''$'' @ nat_to_string (length rdb) @ CRLF @ take k rdb"
  have cr: "CR \<notin> set ?line" "CR \<notin> set (CHR ''+'' # ?line)" using assms(3) by auto
  from split_line_append [OF cr(2), of ?rest] parse_simple_string_line [OF cr(1), of ?rest]
    skip_snapshot_part [OF assms(4,5)] assms(1,2)
  have "handshake_round (sl, s) (''+'' @ ?line @ CRLF @ ?rest) =
      Some (sl, set_read_buffer (self sl) ?rest (set_read_buffer (self sl) (''+'' @ ?line @ CRLF @ ?rest)
        (clear_write_buffer (self sl) s)))"
    by (auto simp: handshake_round_def handle_handshake_read_def)
  then show ?thesis
    using assms(1) by (auto simp: handle_handshake_read_def parse_simple_string_def received_def)
qed

end
