(* ===== verification/Master_Link.thy ===== *)
theory Master_Link
  imports Slave Connection
begin

text \<open>
  The connection of a replica to its master, \<open>src/src/master-connection.cpp\<close>: the event
  handler that reads, lets \<open>Slave\<close> work on the bytes and writes what it leaves. The kernel is
  an argument, as in \<open>Connection\<close>. A read error closes the connection, which ends the
  process (\<open>Server::handle_master_disconnection\<close>); the end of the stream does nothing. The
  theorems: a stream of commands that arrives in any pieces during one event is executed
  command by command; the acknowledgement asked for last is what is sent back.
\<close>

section \<open>Definitions\<close>

datatype link_event = Link_unchanged | Link_read | Link_write | Server_exit

text \<open>The reading loop: whether the socket was drained, failed or was at its end.\<close>

datatype link_end = Drained | Failed | Ended

fun read_master :: "read_result list \<Rightarrow> Client \<Rightarrow> (Client \<times> link_end) option" where
  "read_master [] cl = None"
| "read_master (Got dat # rs) cl = read_master rs (cl\<lparr>read_buffer := read_buffer cl @ dat\<rparr>)"
| "read_master (Would_block # rs) cl = Some (cl, Drained)"
| "read_master (Read_error # rs) cl = Some (cl, Failed)"
| "read_master (Eof # rs) cl = Some (cl, Ended)"

definition connect_master :: "cid \<Rightarrow> int \<Rightarrow> nat \<Rightarrow> state \<Rightarrow> SlaveReplicationClient \<times> state \<times> link_event" where
  "connect_master x sockfd own_port s =
     (let s = s\<lparr>clients := (clients s)(x \<mapsto> new_client sockfd)\<rparr>;
          (sl, s) = prepare_handshake_write (new_slave x own_port) s
      in (sl, s, Link_write))"

definition master_handleRead ::
  "env \<Rightarrow> (string \<Rightarrow> real option) \<Rightarrow> read_result list \<Rightarrow> SlaveReplicationClient \<Rightarrow> state \<Rightarrow>
     (SlaveReplicationClient \<times> state \<times> link_event) option" where
  "master_handleRead e stod rs sl s = do {
     cl \<leftarrow> clients s (self sl);
     (cl, fin) \<leftarrow> read_master rs cl;
     let s = update_client (self sl) (\<lambda>_. cl) s;
     case fin of
       Failed \<Rightarrow> Some (sl, update_client (self sl) (\<lambda>cl. cl\<lparr>fd := - 1\<rparr>) s, Server_exit)
     | Ended \<Rightarrow> Some (sl, s, Link_unchanged)
     | Drained \<Rightarrow> do {
         (sl, s) \<leftarrow> process_read_buffer e stod sl s;
         Some (sl, s, if buffer_of s (self sl) \<noteq> [] then Link_write else Link_read) } }"

text \<open>The writing loop: the client, whether it came to its end, and what the kernel took.\<close>

fun write_master :: "write_result list \<Rightarrow> Client \<Rightarrow> nat \<Rightarrow> string \<Rightarrow> (Client \<times> bool \<times> string) option" where
  "write_master ws cl written_total sent =
     (if written_total < length (write_buffer cl) then
        (case ws of
           [] \<Rightarrow> None
         | Wrote n # ws \<Rightarrow>
             write_master ws cl (written_total + n) (sent @ take n (drop written_total (write_buffer cl)))
         | Write_would_block # _ \<Rightarrow>
             Some (cl\<lparr>write_buffer := drop written_total (write_buffer cl)\<rparr>, False, sent)
         | Write_error # _ \<Rightarrow> Some (cl, False, sent))
      else Some (cl\<lparr>write_buffer := []\<rparr>, True, sent))"

definition master_handleWrite ::
  "write_result list \<Rightarrow> SlaveReplicationClient \<Rightarrow> state \<Rightarrow> (state \<times> link_event \<times> string) option" where
  "master_handleWrite ws sl s = do {
     cl \<leftarrow> clients s (self sl);
     if write_buffer cl = [] then Some (s, Link_read, [])
     else do {
       (cl, finished, sent) \<leftarrow> write_master ws cl 0 [];
       Some (update_client (self sl) (\<lambda>_. cl) s, if finished then Link_read else Link_unchanged, sent) } }"

declare write_master.simps [simp del]

section \<open>The stream in pieces\<close>

lemma read_master_pieces:
  "read_master (map Got ps @ [Would_block]) cl = Some (cl\<lparr>read_buffer := read_buffer cl @ concat ps\<rparr>, Drained)"
  by (induction ps arbitrary: cl) simp_all

lemma stream_replayed:
  assumes "db_inv s" "clients s (self sl) = Some cl" "is_handshake_completed sl"
    and "read_buffer cl @ concat ps = concat (map (to_resp dtos) cmds)"
    and "list_all (\<lambda>cmd. wire_ok stod dtos cmd \<and> cmd_type cmd \<noteq> UNKNOWN) cmds"
    and "replay e dtos (self sl) cmds (bytes_processed sl)
      (set_read_buffer (self sl) (concat (map (to_resp dtos) cmds)) s) = Some (n, t)"
  shows "master_handleRead e stod (map Got ps @ [Would_block]) sl s =
    Some (sl\<lparr>bytes_processed := n\<rparr>, t, if buffer_of t (self sl) \<noteq> [] then Link_write else Link_read)"
proof -
  let ?b = "concat (map (to_resp dtos) cmds)"
  let ?s = "update_client (self sl) (\<lambda>_. cl\<lparr>read_buffer := ?b\<rparr>) s"
  have s: "?s = set_read_buffer (self sl) ?b s"
    using assms(2) by (simp add: update_client_def set_read_buffer_def)
  have "process_commands e stod sl ?s = Some (sl\<lparr>bytes_processed := n\<rparr>, t)"
    using process_commands_replay [of ?s sl "cl\<lparr>read_buffer := ?b\<rparr>" dtos cmds stod e]
      assms(1,2,5,6) by (simp add: s)
  then show ?thesis
    using assms(2,3,4) by (simp add: master_handleRead_def read_master_pieces process_read_buffer_def Let_def)
qed


text \<open>The bytes written in one piece.\<close>

lemma master_handleWrite_all:
  assumes "clients s (self sl) = Some cl" "write_buffer cl \<noteq> []"
  shows "\<exists>s'. master_handleWrite [Wrote (length (write_buffer cl))] sl s = Some (s', Link_read, write_buffer cl) \<and>
    buffer_of s' (self sl) = []"
  using assms by (simp add: master_handleWrite_def write_master.simps buffer_of_def)

section \<open>Truncated commands and lost acknowledgements\<close>

text \<open>
  A bulk string ends at the next carriage return or at the end of the buffer, its announced
  length is not compared: a command of which a part has arrived is executed with a
  truncated argument, and what follows is not understood any more.
\<close>

lemma partial_command:
  "command (parseCommand stod (take 21 (to_resp dtos (EchoCommand ''hello''))) 0) = EchoCommand ''hel''"
  by code_simp

text \<open>
  What is left to send after a stream: the acknowledgement when the last command asked for
  it, and nothing otherwise, even when an earlier one did.
\<close>

lemma replay_last:
  assumes "db_inv s" "clients s x \<noteq> None" "cmds \<noteq> []" "replay e dtos x cmds n s = Some (m, t)"
  shows "buffer_of t x = (if is_getack (last cmds) then ack_reply (m - int (length (to_resp dtos (last cmds)))) else [])"
  using assms
proof (induction cmds arbitrary: n s)
  case (Cons cmd cmds)
  let ?s = "set_read_buffer x (concat (map (to_resp dtos) cmds)) s"
  have inv: "db_inv ?s" using Cons.prems(1) by simp
  show ?case
  proof (cases "is_getack cmd")
    case True
    then show ?thesis
      using Cons.IH [of "write_to x (\<lambda>_. ack_reply n) ?s"] Cons.prems
      by (cases "cmds = []") (auto simp: Let_def db_inv_write buffer_of_def)
  next
    case False
    obtain cl :: Client and s' c' where ex: "execute e ?s ((new_context x (fd cl))\<lparr>ctx_command := Some cmd\<rparr>) = Some (s', c')"
      and rest: "replay e dtos x cmds (n + int (length (to_resp dtos cmd))) (clear_write_buffer x s') = Some (m, t)"
      using Cons.prems(4) False by (auto simp: Let_def Option.bind_eq_Some_conv split: if_splits)
    have "inputs_kept ?s s'" "db_inv s'" using execute_inputs [OF inv ex] execute_inv [OF inv ex] .
    then have "clients s' x \<noteq> None" using Cons.prems(2) unfolding inputs_kept_def
      by (metis (no_types, lifting) clients_set_buffers(1) map_option_eq_Some option.exhaust option.map_disc_iff)
    with \<open>db_inv s'\<close> Cons.IH [OF _ _ _ rest] rest False show ?thesis
      by (cases "cmds = []") (auto simp: buffer_of_def)
  qed
qed simp

end
