(* ===== verification/Db_Sessions.thy ===== *)
theory Db_Sessions
  imports Db_Inv
begin

text \<open>
  Requests as the server serves them: each one is given to \<open>DB::execute\<close> with a context of
  its own. The theorems follow a value through several requests of several clients: what
  \<open>SET\<close> stored is what \<open>GET\<close> answers until the deadline, what \<open>RPUSH\<close> appended is what
  \<open>LRANGE\<close> lists, a blocked \<open>BLPOP\<close> is answered by the next push, and so on.
\<close>

section \<open>Requests\<close>

definition ctx_of :: "state \<Rightarrow> cid \<Rightarrow> Command \<Rightarrow> ClientContext" where
  "ctx_of s x cmd = (new_context x (case clients s x of None \<Rightarrow> - 1 | Some cl \<Rightarrow> fd cl))\<lparr>ctx_command := Some cmd\<rparr>"

definition perform :: "env \<Rightarrow> cid \<Rightarrow> Command \<Rightarrow> state \<Rightarrow> step" where
  "perform e x cmd s = execute e s (ctx_of s x cmd)"

text \<open>A client that is neither in a transaction nor in the subscribed mode.\<close>

definition plain :: "state \<Rightarrow> cid \<Rightarrow> bool" where
  "plain s x \<longleftrightarrow> (\<exists>cl. clients s x = Some cl \<and> \<not> isClientOnTransaction cl \<and> \<not> isClientOnPubSub cl)"

definition data_command :: "Command \<Rightarrow> bool" where
  "data_command cmd \<longleftrightarrow> cmd_type cmd \<notin> {EXEC, GETCONFIG, ACL_SETUSER, AUTH, ACL_WHOAMI} \<and> \<not> control_command cmd"

lemma ctx_of_simps [simp]:
  "client (ctx_of s x cmd) = x" "ctx_command (ctx_of s x cmd) = Some cmd"
  "unblocked_client_fd (ctx_of s x cmd) = - 1" "isBlocked (ctx_of s x cmd) = False"
  "ready_to_write_clients (ctx_of s x cmd) = []"
  by (simp_all add: ctx_of_def new_context_def)

lemma plain_client: "plain s x \<Longrightarrow> clients s x \<noteq> None"
  by (auto simp: plain_def)

lemma perform_data:
  assumes "plain s x" "data_command cmd"
  shows "perform e x cmd s = call_other e s (ctx_of s x cmd) cmd"
  using assms by (auto simp: perform_def execute_def plain_def data_command_def control_command_def call_simple)

lemma plain_kept: "kept s t \<Longrightarrow> plain t x = plain s x"
proof -
  assume "kept s t"
  then have "map_option core (clients t x) = map_option core (clients s x)" by (simp add: kept_def)
  then show ?thesis
    by (cases "clients s x"; cases "clients t x") (auto simp: plain_def dest: core_eqD(2,3))
qed

lemma perform_kept:
  assumes "plain s x" "data_command cmd" "perform e x cmd s = Some (t, d)"
  shows "kept s t"
  using keeps_call_other [of cmd s "ctx_of s x cmd" e] assms
  by (simp add: perform_data [OF assms(1,2)] keeps_def data_command_def)

lemma perform_plain:
  "plain s x \<Longrightarrow> data_command cmd \<Longrightarrow> perform e x cmd s = Some (t, d) \<Longrightarrow> plain t y = plain s y"
  using perform_kept plain_kept by blast

lemma perform_inv: "db_inv s \<Longrightarrow> perform e x cmd s = Some (t, d) \<Longrightarrow> db_inv t"
  using execute_inv unfolding perform_def by blast

section \<open>Strings\<close>

text \<open>Whether a key that was set with these options is still there.\<close>

definition alive_at :: "time option \<Rightarrow> time \<Rightarrow> bool" where
  "alive_at d now \<longleftrightarrow> (case d of None \<Rightarrow> True | Some t \<Rightarrow> now < t)"

definition set_deadline :: "time \<Rightarrow> int option \<Rightarrow> int option \<Rightarrow> time option \<Rightarrow> time option" where
  "set_deadline now ex px old =
     (case ex of Some n \<Rightarrow> Some (now + n * NS_PER_S)
      | None \<Rightarrow> (case px of Some n \<Rightarrow> Some (now + n * NS_PER_MS) | None \<Rightarrow> old))"

lemma get_reply:
  assumes "db_inv s" "plain s x" "store s key = Some (STRING v)"
  shows "\<exists>t d. perform e x (GetCommand key) s = Some (t, d) \<and>
    buffer_of t x = buffer_of s x @ (if alive_at (expiration s key) (steady_now e) then bulk v else ''$-1'' @ CRLF) \<and>
    store t key = (if alive_at (expiration s key) (steady_now e) then Some (STRING v) else None)"
proof -
  let ?c = "ctx_of s x (GetCommand key)"
  have ok: "deadlines_ok s" using assms(1) by (simp add: db_inv_def)
  have c: "clients s (client ?c) \<noteq> None" using plain_client [OF assms(2)] by simp
  have run: "perform e x (GetCommand key) s = handle_get_or_type e s ?c False key"
    using assms(2) by (subst perform_data) (simp_all add: data_command_def control_command_def call_other_def)
  obtain t d where td: "handle_get_or_type e s ?c False key = Some (t, d)"
    using handle_get_total [OF ok] by fastforce
  show ?thesis
  proof (cases "alive_at (expiration s key) (steady_now e)")
    case True
    then show ?thesis using handle_get_reply [OF td c assms(3)] td run assms(3) by (auto simp: alive_at_def)
  next
    case False
    then obtain u where "expiration s key = Some u" "u \<le> steady_now e"
      by (auto simp: alive_at_def split: option.splits)
    from handle_get_expired [OF ok c this] td run False show ?thesis by auto
  qed
qed

text \<open>
  C12. After a \<open>SET\<close>, a \<open>GET\<close> of any client at any time answers the value as long as the
  deadline lies ahead, the new one or, without \<open>EX\<close> and \<open>PX\<close>, the one the key had before; from
  the deadline on it answers the null bulk string and the key is gone.
\<close>

lemma set_then_get:
  assumes "db_inv s" "plain s x" "plain s y" "perform e x (SetCommand key v ex px) s = Some (s1, c1)"
  shows "\<exists>s2 c2. perform e' y (GetCommand key) s1 = Some (s2, c2) \<and>
    (let up = alive_at (set_deadline (steady_now e) (map_option sint ex) (map_option sint px) (expiration s key)) (steady_now e')
     in buffer_of s2 y = buffer_of s1 y @ (if up then bulk v else ''$-1'' @ CRLF) \<and>
        store s2 key = (if up then Some (STRING v) else None))"
proof -
  have d: "data_command (SetCommand key v ex px)" by (simp add: data_command_def control_command_def)
  have "handle_set e s (ctx_of s x (SetCommand key v ex px)) key v ex px = Some (s1, c1)"
    using assms(4) perform_data [OF assms(2) d] by (simp add: call_other_def)
  from handle_set_Some(1,3) [OF this]
  have st: "store s1 key = Some (STRING v)"
    "expiration s1 key = set_deadline (steady_now e) (map_option sint ex) (map_option sint px) (expiration s key)"
    by (auto simp: set_deadline_def split: option.splits)
  have "db_inv s1" "plain s1 y"
    using perform_inv [OF assms(1,4)] perform_plain [OF assms(2) d assms(4)] assms(3) by auto
  from get_reply [OF this st(1), of e'] show ?thesis by (simp add: st(2) Let_def)
qed


section \<open>Counting\<close>

text \<open>Several requests of one client.\<close>

primrec performs :: "env \<Rightarrow> cid \<Rightarrow> Command list \<Rightarrow> state \<Rightarrow> state option" where
  "performs e x [] s = Some s"
| "performs e x (cmd # cmds) s = Option.bind (perform e x cmd s) (\<lambda>r. performs e x cmds (fst r))"

definition int_reply :: "int \<Rightarrow> string" where
  "int_reply n = '':'' @ int_to_string n @ CRLF"

lemma incr_reply:
  assumes "plain s x" "case store s key of None \<Rightarrow> n = 0 | Some v \<Rightarrow> v = STRING (int_to_string n)"
    "int64_range n" "n < int INT64_MAX"
  shows "\<exists>t d. perform e x (IncrCommand key) s = Some (t, d) \<and>
    store t = (store s)(key \<mapsto> STRING (int_to_string (n + 1))) \<and> plain t x \<and>
    buffer_of t x = buffer_of s x @ int_reply (n + 1)"
proof -
  let ?c = "ctx_of s x (IncrCommand key)"
  have d: "data_command (IncrCommand key)" by (simp add: data_command_def control_command_def)
  have run: "perform e x (IncrCommand key) s = handle_incr s ?c key"
    using perform_data [OF assms(1) d] by (simp add: call_other_def)
  have c: "clients s (client ?c) \<noteq> None" using plain_client [OF assms(1)] by simp
  have "\<exists>t. handle_incr s ?c key = Some (t, ?c) \<and> store t = (store s)(key \<mapsto> STRING (int_to_string (n + 1))) \<and>
      buffer_of t x = buffer_of s x @ int_reply (n + 1)"
  proof (cases "store s key")
    case None
    have "int_to_string 1 = ''1''" by code_simp
    then show ?thesis using None assms(2) c
      by (auto simp: handle_incr_def Let_def resp_simps int_reply_def clients_mark_dirty)
  next
    case (Some v)
    then show ?thesis using handle_incr_number [of s key n ?c] assms(2-4) c by (auto simp: int_reply_def)
  qed
  then obtain t where t: "handle_incr s ?c key = Some (t, ?c)" "store t = (store s)(key \<mapsto> STRING (int_to_string (n + 1)))"
    "buffer_of t x = buffer_of s x @ int_reply (n + 1)" by blast
  have "plain t x" using perform_plain [OF assms(1) d, of e t ?c x] run t(1) assms(1) by simp
  then show ?thesis using t run by auto
qed

text \<open>
  \<open>n\<close> times \<open>INCR\<close> on a key without a value stores the number \<open>n\<close> and answers the numbers
  from one to \<open>n\<close>, up to the largest 64-bit integer.
\<close>

lemma incr_counts:
  assumes "plain s x" "store s key = None" "n \<le> INT64_MAX"
  shows "\<exists>t. performs e x (replicate n (IncrCommand key)) s = Some t \<and>
    (0 < n \<longrightarrow> store t = (store s)(key \<mapsto> STRING (int_to_string (int n)))) \<and>
    buffer_of t x = buffer_of s x @ concat (map (\<lambda>i. int_reply (int i)) [1..<Suc n])"
proof -
  have *: "\<exists>t. performs e x (replicate k (IncrCommand key)) s = Some t \<and>
      (0 < k \<longrightarrow> store t = (store s)(key \<mapsto> STRING (int_to_string (m + int k)))) \<and>
      buffer_of t x = buffer_of s x @ concat (map (\<lambda>i. int_reply (m + int i)) [1..<Suc k])"
    if "plain s x" "case store s key of None \<Rightarrow> m = 0 | Some v \<Rightarrow> v = STRING (int_to_string m)"
      "0 \<le> m" "m + int k \<le> int INT64_MAX" for k m s
    using that
  proof (induction k arbitrary: m s)
    case (Suc k)
    have "int64_range m" "m < int INT64_MAX" using Suc.prems(3,4) by (simp_all add: int64_range_def)
    from incr_reply [OF Suc.prems(1,2) this]
    obtain t d where t: "perform e x (IncrCommand key) s = Some (t, d)"
      "store t = (store s)(key \<mapsto> STRING (int_to_string (m + 1)))" "plain t x"
      "buffer_of t x = buffer_of s x @ int_reply (m + 1)" by blast
    have "[1..<Suc (Suc k)] = 1 # map Suc [1..<Suc k]" by (simp add: upt_conv_Cons map_Suc_upt del: upt_Suc)
    then have up: "concat (map (\<lambda>i. int_reply (m + int i)) [1..<Suc (Suc k)]) =
        int_reply (m + 1) @ concat (map (\<lambda>i. int_reply (m + 1 + int i)) [1..<Suc k])"
      by (simp only: list.map(2) map_map comp_def concat.simps) (simp add: add.assoc del: upt_Suc)
    have "\<exists>u. performs e x (replicate k (IncrCommand key)) t = Some u \<and>
      (0 < k \<longrightarrow> store u = (store t)(key \<mapsto> STRING (int_to_string (m + 1 + int k)))) \<and>
      buffer_of u x = buffer_of t x @ concat (map (\<lambda>i. int_reply (m + 1 + int i)) [1..<Suc k])"
      by (intro Suc.IH t(3)) (use Suc.prems(3,4) t(2) in simp_all)
    then obtain u where u: "performs e x (replicate k (IncrCommand key)) t = Some u"
      "0 < k \<longrightarrow> store u = (store t)(key \<mapsto> STRING (int_to_string (m + 1 + int k)))"
      "buffer_of u x = buffer_of t x @ concat (map (\<lambda>i. int_reply (m + 1 + int i)) [1..<Suc k])" by blast
    have "store u = (store s)(key \<mapsto> STRING (int_to_string (m + int (Suc k))))"
    proof (cases "k = 0")
      case False
      have "m + 1 + int k = m + int (Suc k)" by simp
      then show ?thesis using u(2) t(2) False by (simp only: fun_upd_upd)
    qed (use u(1) t(2) in simp)
    then show ?case unfolding up using t(1,4) u(1,3) by (intro exI [of _ u] conjI impI) simp_all
  qed simp
  show ?thesis using *[of s 0 n] assms by simp
qed

section \<open>Lists\<close>

lemma length_strings_size: "length xs \<le> strings_size xs"
proof -
  have "length es \<le> length (entries_bytes es)" for es
  proof (induction es)
    case (Cons x es)
    then show ?case using entry_bytes_pos [of x] by (simp del: length_greater_0_conv)
  qed simp
  from this [of "map entry_of_string xs"] show ?thesis by (simp add: strings_size_def lp_size_def)
qed


text \<open>
  C14. A client that \<open>BLPOP\<close> blocks on an empty or missing list gets no reply until another
  client pushes: then it is answered the key and the first value, its connection is the one
  to flush, it waits no longer, and only the other values are stored.
\<close>

lemma blpop_then_push:
  assumes "plain s x" "plain s y" "x \<noteq> y" "list_at s key []" "blocked_keys s key = None"
    "deadline (steady_now e) timeout (timeout * 1000) = Some t" "lp_fits (alloc e') vs"
  shows "\<exists>s1 c1 s2 c2. perform e y (BlpopCommand (key # ks) timeout) s = Some (s1, c1) \<and>
    isBlocked c1 \<and> buffer_of s1 y = buffer_of s y \<and>
    perform e' x (RpushCommand key (v # vs)) s1 = Some (s2, c2) \<and>
    unblocked_client_fd c2 = client_fd c1 \<and> blocked_keys s2 key = None \<and>
    buffer_of s2 y = encode_bulk_string_array (buffer_of s1 y) [key, v] \<and> list_at s2 key vs"
proof -
  let ?b = "BlpopCommand (key # ks) timeout" and ?r = "RpushCommand key (v # vs)"
  let ?w = "\<lparr>blocked_cid = y, blocked_fd = client_fd (ctx_of s y ?b), timeout_at = t\<rparr>"
  have d: "data_command ?r" "data_command ?b" by (simp_all add: data_command_def control_command_def)
  let ?s1 = "s\<lparr>blocked_keys := (blocked_keys s)(key \<mapsto> [?w])\<rparr>"
  have p1: "perform e y ?b s = Some (?s1, (ctx_of s y ?b)\<lparr>isBlocked := True\<rparr>)"
    using perform_data [OF assms(2) d(2)] handle_blpop_blocks [OF assms(4,6), of "ctx_of s y ?b" ks] assms(5)
    by (simp add: call_other_def)
  have x: "plain ?s1 x" "plain ?s1 y" using assms(1,2) by (simp_all add: plain_def)
  have l: "list_at ?s1 key []" "lp_fits (alloc e') (pushed False [] vs)" using assms(4,7) by (simp_all add: list_at_def pushed_def)
  have "\<exists>s2. handle_push e' ?s1 (ctx_of ?s1 x ?r) False key (v # vs) =
      Some (s2, (ctx_of ?s1 x ?r)\<lparr>unblocked_client_fd := blocked_fd ?w\<rparr>) \<and> list_at s2 key (pushed False [] vs) \<and>
      blocked_keys s2 key = None \<and>
      buffer_of s2 y = encode_bulk_string_array (buffer_of ?s1 y) [key, v]"
    using handle_push_blocked [OF l, of ?w "[]" "ctx_of ?s1 x ?r" v] plain_client [OF x(2)] assms(3) by simp
  then show ?thesis
    using p1 perform_data [OF x(1) d(1), of e'] by (auto simp: call_other_def pushed_def buffer_of_def)
qed

section \<open>Streams\<close>

lemma stream_id_extremes: "StreamID 0 0 \<le> i" "i \<le> StreamID (- 1) (- 1)"
proof -
  obtain a b where i: "i = StreamID a b" by (cases i)
  have "a = - 1 \<or> a < - 1" "b = - 1 \<or> b < - 1" by (metis order.order_iff_strict word_order.extremum)+
  then show "i \<le> StreamID (- 1) (- 1)" by (auto simp: i less_eq_StreamID_def isGreater_def)
  have "a = 0 \<or> 0 < a" "b = 0 \<or> 0 < b" by (auto simp: word_gt_0)
  then show "StreamID 0 0 \<le> i" by (auto simp: i less_eq_StreamID_def isGreater_def)
qed

text \<open>
  C15. An entry that \<open>XADD\<close> accepts has an identifier above all others, which is the reply, and
  \<open>XRANGE - +\<close> of any client then lists all earlier entries and this one, in order.
\<close>

lemma xadd_then_xrange:
  assumes "plain s x" "plain s y" "stream_at s key es" "blocked_xread_keys s key = None"
    "insert_stream (epoch_ms e) (stream_of s key) sid (raw_value fvs) = (OK, p, st)"
    "list_all (\<lambda>fs. length (bulks fs) < 18446744073709551616) (flat_fields fvs # map snd es)"
  shows "\<exists>s1 c1 i s2 c2. perform e x (XaddCommand key sid fvs) s = Some (s1, c1) \<and>
    list_all (\<lambda>x. fst x < i) es \<and> buffer_of s1 x = buffer_of s x @ bulk (toString i) \<and>
    stream_at s1 key (es @ [(i, flat_fields fvs)]) \<and>
    perform e' y (XrangeCommand key ''-'' ''+'') s1 = Some (s2, c2) \<and>
    buffer_of s2 y = buffer_of s1 y @ ''*'' @ nat_to_string (Suc (length es)) @ CRLF @
      concat (map entry_text (es @ [(i, flat_fields fvs)]))"
proof -
  let ?a = "XaddCommand key sid fvs" and ?r = "XrangeCommand key ''-'' ''+''"
  have d: "data_command ?a" "data_command ?r" by (simp_all add: data_command_def control_command_def)
  obtain s1 i where s1: "handle_xadd e s (ctx_of s x ?a) key sid fvs = Some (s1, ctx_of s x ?a)"
    "list_all (\<lambda>x. fst x < i) es" "stream_at s1 key (es @ [(i, flat_fields fvs)])"
    "buffer_of s1 x = buffer_of s x @ bulk (toString i)"
    using handle_xadd_append [OF assms(3) _ assms(4,5), of "ctx_of s x ?a"] plain_client [OF assms(1)] by auto
  let ?es = "es @ [(i, flat_fields fvs)]"
  have p1: "perform e x ?a s = Some (s1, ctx_of s x ?a)"
    using perform_data [OF assms(1) d(1)] s1(1) by (simp add: call_other_def)
  have y: "plain s1 y" using perform_plain [OF assms(1) d(1) p1] assms(2) by simp
  have bounds: "fromStringForSearch ''-'' False = Some (StreamID 0 0)"
    "fromStringForSearch ''+'' True = Some (StreamID (- 1) (- 1))" by (simp_all add: fromStringForSearch_def)
  have len: "list_all (\<lambda>(i, fs). length (bulks fs) < 18446744073709551616) ?es"
    using assms(6) by (auto simp: list_all_iff)
  have all: "filter (\<lambda>(i, fs). StreamID 0 0 \<le> i \<and> i \<le> StreamID (- 1) (- 1)) ?es = ?es"
    by (auto simp: stream_id_extremes filter_id_conv)
  obtain s2 where "handle_xrange s1 (ctx_of s1 y ?r) key ''-'' ''+'' = Some (s2, ctx_of s1 y ?r)"
    "buffer_of s2 y = buffer_of s1 y @ ''*'' @ nat_to_string (length ?es) @ CRLF @ concat (map entry_text ?es)"
    using handle_xrange_rep [OF s1(3) _ _ bounds len, of "ctx_of s1 y ?r"] plain_client [OF y] unfolding all by auto
  then show ?thesis using p1 s1(2-4) perform_data [OF y d(2)] by (auto simp: call_other_def)
qed

section \<open>Sorted sets and places\<close>

text \<open>
  C17. \<open>ZADD\<close> sets the scores and counts the members that are new; \<open>ZRANK\<close> of any client then
  answers the rank of a member in the resulting set, ordered by score and name, and the null
  bulk string for one that is not in it.
\<close>

lemma zadd_then_zrank:
  assumes "plain s x" "plain s y" "zset_at s key m"
  shows "\<exists>s1 c1 s2 c2. perform e x (ZaddCommand key sms) s = Some (s1, c1) \<and>
    zset_at s1 key (add_scores sms m) \<and>
    buffer_of s1 x = encode_integer (buffer_of s x) (int (card (snd ` set sms - dom m))) \<and>
    perform e' y (ZrankCommand key mem) s1 = Some (s2, c2) \<and>
    buffer_of s2 y = (case rank_in (add_scores sms m) mem of
        None \<Rightarrow> encode_null_bulk_string (buffer_of s1 y)
      | Some r \<Rightarrow> encode_integer (buffer_of s1 y) (int r))"
proof -
  let ?a = "ZaddCommand key sms" and ?r = "ZrankCommand key mem"
  have d: "data_command ?a" "data_command ?r" by (simp_all add: data_command_def control_command_def)
  obtain s1 where s1: "handle_zadd s (ctx_of s x ?a) = Some (s1, ctx_of s x ?a)" "zset_at s1 key (add_scores sms m)"
    "buffer_of s1 x = encode_integer (buffer_of s x) (int (card (snd ` set sms - dom m)))"
    using handle_zadd_rep [OF assms(3), of "ctx_of s x ?a" sms] plain_client [OF assms(1)] by auto
  have p1: "perform e x ?a s = Some (s1, ctx_of s x ?a)"
    using perform_data [OF assms(1) d(1)] s1(1) by (simp add: call_other_def)
  have y: "plain s1 y" using perform_plain [OF assms(1) d(1) p1] assms(2) by simp
  show ?thesis
    using handle_zrank_rep [OF s1(2), of "ctx_of s1 y ?r" mem] plain_client [OF y] p1 s1(2,3) perform_data [OF y d(2)]
    by (auto simp: call_other_def split: option.split)
qed


section \<open>Channels and users\<close>

lemma perform_call:
  assumes "plain s x" "cmd_type cmd \<notin> {EXEC, GETCONFIG, ACL_SETUSER, AUTH, ACL_WHOAMI}"
  shows "perform e x cmd s = call_other e s (ctx_of s x cmd) cmd"
  using assms by (auto simp: perform_def execute_def plain_def call_simple)


text \<open>
  C23. After \<open>ACL SETUSER\<close> with a password, \<open>AUTH\<close> of any client logs in exactly with a password
  of the same hash; with another one the authentication of the client stays as it was. An
  earlier password of the user is no longer accepted. The hash is a parameter.
\<close>

lemma setuser_then_auth:
  assumes "plain s x" "plain s y" "sha256 e p \<noteq> []" "\<And>u. users s name = Some u \<Longrightarrow> is_enabled u"
  shows "\<exists>s1 c1. perform e x (ACLSetUserCommand name (Some p) fs) s = Some (s1, c1) \<and>
    (\<exists>s2 c2. perform e y (AuthCommand name q) s1 = Some (s2, c2) \<and>
      (if hash_sha256 (sha256 e) q = hash_sha256 (sha256 e) p
       then (\<exists>cl. clients s2 y = Some cl \<and> is_authenticated cl \<and> user cl = Some name) \<and>
         buffer_of s2 y = encode_simple_string (buffer_of s1 y) ''OK''
       else map_option is_authenticated (clients s2 y) = map_option is_authenticated (clients s1 y) \<and>
         map_option user (clients s2 y) = map_option user (clients s1 y)))"
proof -
  let ?s = "ACLSetUserCommand name (Some p) fs" and ?a = "AuthCommand name q"
  obtain s1 where s1: "handle_acl_setuser e s (ctx_of s x ?s) = Some (s1, ctx_of s x ?s)"
    "may_log_in e (users s1) name q \<longleftrightarrow> hash_sha256 (sha256 e) q = hash_sha256 (sha256 e) p"
    using handle_acl_setuser_auth [of "ctx_of s x ?s" name p fs e s] assms(3,4) by auto
  have p1: "perform e x ?s s = Some (s1, ctx_of s x ?s)"
    using assms(1) s1(1) by (auto simp: perform_def execute_def plain_def)
  have "plain s1 y"
    using s1(1) assms(2) by (auto simp: handle_acl_setuser_def Let_def plain_def isClientOnTransaction_def isClientOnPubSub_def)
  then obtain cl where cl: "clients s1 y = Some cl" "\<not> isClientOnTransaction cl" "\<not> isClientOnPubSub cl"
    by (auto simp: plain_def)
  have "perform e y ?a s1 = handle_auth e s1 (ctx_of s1 y ?a)"
    using cl by (simp add: perform_def execute_def)
  then have p2: "perform e y ?a s1 =
      Some (if hash_sha256 (sha256 e) q = hash_sha256 (sha256 e) p then log_in (ctx_of s1 y ?a) name s1
            else wrong_pass (ctx_of s1 y ?a) s1, ctx_of s1 y ?a)"
    using handle_auth_iff [of "ctx_of s1 y ?a" name q s1 cl e] cl(1) s1(2) by simp
  show ?thesis
  proof (intro exI conjI, rule p1, rule p2)
    show "if hash_sha256 (sha256 e) q = hash_sha256 (sha256 e) p
       then (\<exists>cl. clients (if hash_sha256 (sha256 e) q = hash_sha256 (sha256 e) p then log_in (ctx_of s1 y ?a) name s1
            else wrong_pass (ctx_of s1 y ?a) s1) y = Some cl \<and> is_authenticated cl \<and> user cl = Some name) \<and>
         buffer_of (if hash_sha256 (sha256 e) q = hash_sha256 (sha256 e) p then log_in (ctx_of s1 y ?a) name s1
            else wrong_pass (ctx_of s1 y ?a) s1) y = encode_simple_string (buffer_of s1 y) ''OK''
       else map_option is_authenticated (clients (if hash_sha256 (sha256 e) q = hash_sha256 (sha256 e) p then log_in (ctx_of s1 y ?a) name s1
            else wrong_pass (ctx_of s1 y ?a) s1) y) = map_option is_authenticated (clients s1 y) \<and>
         map_option user (clients (if hash_sha256 (sha256 e) q = hash_sha256 (sha256 e) p then log_in (ctx_of s1 y ?a) name s1
            else wrong_pass (ctx_of s1 y ?a) s1) y) = map_option user (clients s1 y)"
      using cl(1) by (auto simp: buffer_of_def wrong_pass_def)
  qed
qed

end
