(* ===== verification/Convergence.thy ===== *)
theory Convergence
  imports Master_Link Db_Sessions
begin

text \<open>
  A master and a replica, end to end. The store after a write command depends on the store
  before it and not on the client that sends it, so a replica that gets the text of the
  commands a master has executed, in any pieces, ends up with the store of the master. Two
  conditions are needed where the code reads a clock or serves waiting clients: no deadline
  and no automatic identifier is set by the commands, and no client of the master waits for
  a key.
\<close>

section \<open>The data of two databases\<close>

definition same_data :: "state \<Rightarrow> state \<Rightarrow> bool" where
  "same_data s t \<longleftrightarrow> store t = store s \<and> expiration t = expiration s"

definition nobody_waits :: "state \<Rightarrow> bool" where
  "nobody_waits s \<longleftrightarrow> blocked_keys s = Map.empty \<and> blocked_xread_keys s = Map.empty"

text \<open>Commands whose effect is the same at any time and on any machine.\<close>

definition portable :: "Command \<Rightarrow> bool" where
  "portable cmd \<longleftrightarrow> is_write_command cmd \<and>
     (case cmd of
        SetCommand _ _ ex px \<Rightarrow> ex = None \<and> px = None
      | XaddCommand _ sid _ \<Rightarrow> sid \<noteq> ''*''
      | ACLSetUserCommand _ _ _ \<Rightarrow> False
      | _ \<Rightarrow> True)"

lemma portable_data: "portable cmd \<Longrightarrow> data_command cmd"
  by (cases cmd) (simp_all add: portable_def is_write_command_def data_command_def control_command_def)

text \<open>The outcome on one database is reproduced on another one.\<close>

definition reproduced :: "step \<Rightarrow> step \<Rightarrow> bool" where
  "reproduced r q \<longleftrightarrow> (\<forall>s c. r = Some (s, c) \<longrightarrow>
     (\<exists>t d. q = Some (t, d) \<and> same_data s t \<and> nobody_waits s \<and> nobody_waits t \<and> ctx_command d \<noteq> None))"

lemma reproduced_simps [simp]:
  "reproduced None q"
  "reproduced (Some (s, c)) (Some (t, d)) \<longleftrightarrow>
     same_data s t \<and> nobody_waits s \<and> nobody_waits t \<and> ctx_command d \<noteq> None"
  by (simp_all add: reproduced_def)

lemma same_data_writes [simp]:
  "same_data (write_to x f s) t = same_data s t" "same_data s (write_to y g t) = same_data s t"
  "same_data (update_client x h s) t = same_data s t" "same_data s (update_client y k t) = same_data s t"
  "same_data (mark_watching_clients_dirty key s) t = same_data s t"
  "same_data s (mark_watching_clients_dirty key t) = same_data s t"
  "same_data s t \<Longrightarrow> same_data (s\<lparr>store := m\<rparr>) (t\<lparr>store := m\<rparr>)"
  "same_data s t \<Longrightarrow> same_data (set_zset key z s) (set_zset key z t)"
  by (simp_all add: same_data_def set_zset_def)

lemma nobody_waits_writes [simp]:
  "nobody_waits (write_to x f s) = nobody_waits s" "nobody_waits (update_client x h s) = nobody_waits s"
  "nobody_waits (mark_watching_clients_dirty key s) = nobody_waits s"
  "nobody_waits (s\<lparr>store := m\<rparr>) = nobody_waits s" "nobody_waits (set_zset key z s) = nobody_waits s"
  by (simp_all add: nobody_waits_def set_zset_def)

section \<open>Each write command\<close>

lemma push_value_reproduced:
  assumes "push_value_to_list e s key v p = Some (n, s')" "store t = store s" "alloc e' = alloc e"
  shows "\<exists>m. s' = s\<lparr>store := m\<rparr> \<and> push_value_to_list e' t key v p = Some (n, t\<lparr>store := m\<rparr>)"
proof (cases "store s key")
  case None
  then show ?thesis using assms
    by (auto simp: push_value_to_list_def create_new_list_def Option.bind_eq_Some_conv)
next
  case (Some obj)
  then obtain obj' where "append_to_existing_list e obj v p = Some (n, obj')" "s' = s\<lparr>store := (store s)(key \<mapsto> obj')\<rparr>"
    using assms(1) by (auto simp: push_value_to_list_def Option.bind_eq_Some_conv)
  moreover have "append_to_existing_list e' obj v p = append_to_existing_list e obj v p"
    unfolding append_to_existing_list_def assms(3) by (rule refl)
  ultimately show ?thesis using Some assms(2) by (auto simp: push_value_to_list_def)
qed

lemma push_values_reproduced:
  assumes "push_values e s key p vs m = Some (n, s')" "store t = store s" "alloc e' = alloc e"
  shows "\<exists>st. s' = s\<lparr>store := st\<rparr> \<and> push_values e' t key p vs m = Some (n, t\<lparr>store := st\<rparr>)"
  using assms
proof (induction vs arbitrary: s t m)
  case (Cons v vs)
  then obtain k s1 where s1: "push_value_to_list e s key v p = Some (k, s1)" "push_values e s1 key p vs k = Some (n, s')"
    by (auto simp: Option.bind_eq_Some_conv)
  obtain m1 where m1: "s1 = s\<lparr>store := m1\<rparr>" "push_value_to_list e' t key v p = Some (k, t\<lparr>store := m1\<rparr>)"
    using push_value_reproduced [OF s1(1) Cons.prems(2,3)] by blast
  have "\<exists>st. s' = s1\<lparr>store := st\<rparr> \<and> push_values e' (t\<lparr>store := m1\<rparr>) key p vs k = Some (n, t\<lparr>store := m1\<rparr>\<lparr>store := st\<rparr>)"
    by (rule Cons.IH [OF s1(2)]) (use m1(1) Cons.prems(3) in simp_all)
  then show ?case using m1 by auto
qed (auto intro: exI [of _ "store s'"])

lemma push_reproduced:
  assumes "same_data s t" "nobody_waits s" "nobody_waits t" "alloc e' = alloc e" "ctx_command d \<noteq> None"
  shows "reproduced (handle_push e s c p key vs) (handle_push e' t d p key vs)"
proof (cases "push_values e s key p vs 0")
  case (Some r)
  obtain n s' where r: "r = (n, s')" by force
  have "store t = store s" using assms(1) by (simp add: same_data_def)
  from push_values_reproduced [OF Some [unfolded r] this assms(4)]
  obtain m where "s' = s\<lparr>store := m\<rparr>" "push_values e' t key p vs 0 = Some (n, t\<lparr>store := m\<rparr>)" by blast
  then show ?thesis
    using Some r assms by (simp add: handle_push_def nobody_waits_def same_data_def)
qed (use assms(2) in \<open>simp add: handle_push_def nobody_waits_def\<close>)

lemma xadd_reproduced:
  assumes "same_data s t" "nobody_waits s" "nobody_waits t" "ctx_command d \<noteq> None" "sid \<noteq> ''*''"
  shows "reproduced (handle_xadd e s c key sid fvs) (handle_xadd e' t d key sid fvs)"
proof -
  have i: "insert_stream (epoch_ms e') st sid v = insert_stream (epoch_ms e) st sid v" for st v
    using assms(5) by (simp add: insert_stream_def fromString_def)
  have st: "store t = store s" using assms(1) by (simp add: same_data_def)
  have w: "handle_blocked_xread_clients u b key = Some (u, b)" if "nobody_waits u" for u b
    using that by (simp add: handle_blocked_xread_clients_def nobody_waits_def)
  show ?thesis
    using assms(1-4) by (auto simp: handle_xadd_def i st w Let_def split: option.split RedisObject.split prod.split)
qed

lemma write_reproduced:
  assumes "portable cmd" "same_data s t" "nobody_waits s" "nobody_waits t" "alloc e' = alloc e"
    and "ctx_command c = Some cmd" "ctx_command d = Some cmd"
  shows "reproduced (call_other e s c cmd) (call_other e' t d cmd)"
proof -
  have st: "store t = store s" "expiration t = expiration s" using assms(2) by (simp_all add: same_data_def)
  note sd = assms(2-4)
  show ?thesis
  proof (cases cmd)
    case (SetCommand key v ex px)
    then show ?thesis using assms(1) sd assms(7) st
      by (auto simp: portable_def call_other_def handle_set_def Let_def same_data_def nobody_waits_def)
  next
    case (XaddCommand key sid fvs)
    then show ?thesis using assms(1,7) xadd_reproduced [OF sd] by (simp add: portable_def call_other_def)
  next
    case (LpopCommand key count)
    then show ?thesis using sd assms(5,7) st
      by (auto simp: call_other_def handle_lpop_def Let_def split: option.split RedisObject.split Option.bind_split)
  next
    case (IncrCommand key)
    then show ?thesis using sd assms(7) st
      by (auto simp: call_other_def handle_incr_def Let_def split: option.split RedisObject.split Option.bind_split)
  next
    case (ZaddCommand key sms)
    then show ?thesis using sd assms(6,7) st
      by (auto simp: call_other_def handle_zadd_def open_zset_def wrong_type_def Let_def
          split: option.split RedisObject.split prod.split)
  next
    case (ZremCommand key ms)
    then show ?thesis using sd assms(6,7) st
      by (auto simp: call_other_def handle_zrem_def wrong_type_def Let_def split: option.split RedisObject.split prod.split)
  next
    case (GeoAddCommand key lon lat score m bad)
    then show ?thesis using sd assms(6,7) st
      by (auto simp: call_other_def handle_geoadd_def open_zset_def wrong_type_def Let_def
          split: option.split RedisObject.split prod.split)
  qed (use assms push_reproduced [OF sd assms(5)] in
    \<open>auto simp: portable_def is_write_command_def call_other_def\<close>)
qed

section \<open>A stream of commands\<close>

lemma perform_reproduced:
  assumes "portable cmd" "same_data s t" "nobody_waits s" "nobody_waits t" "alloc e' = alloc e"
    and "plain s x" "plain t y" "perform e x cmd s = Some (s', c')"
  shows "\<exists>t' d'. perform e' y cmd t = Some (t', d') \<and> ctx_command d' \<noteq> None \<and> same_data s' t' \<and>
    nobody_waits s' \<and> nobody_waits t' \<and> plain s' x \<and> plain t' y"
proof -
  note d = portable_data [OF assms(1)]
  have "reproduced (call_other e s (ctx_of s x cmd) cmd) (call_other e' t (ctx_of t y cmd) cmd)"
    by (rule write_reproduced [OF assms(1-5)]) simp_all
  then obtain t' d' where t': "perform e' y cmd t = Some (t', d')" "ctx_command d' \<noteq> None" "same_data s' t'"
    "nobody_waits s'" "nobody_waits t'"
    using assms(8) perform_data [OF assms(6) d] perform_data [OF assms(7) d] by (auto simp: reproduced_def)
  then show ?thesis
    using perform_plain [OF assms(6) d assms(8)] perform_plain [OF assms(7) d t'(1)] assms(6,7) by blast
qed

lemma buffers_data [simp]:
  "same_data s (set_read_buffer y b t) = same_data s t" "same_data s (clear_write_buffer y t) = same_data s t"
  "nobody_waits (set_read_buffer y b t) = nobody_waits t" "nobody_waits (clear_write_buffer y t) = nobody_waits t"
  by (simp_all add: set_read_buffer_def clear_write_buffer_def)

lemma buffers_plain [simp]:
  "plain (set_read_buffer y b t) x = plain t x" "plain (clear_write_buffer y t) x = plain t x"
  by (auto simp: plain_def isClientOnTransaction_def isClientOnPubSub_def)

lemma portable_not_getack: "portable cmd \<Longrightarrow> \<not> is_getack cmd"
  by (cases cmd) (simp_all add: portable_def is_write_command_def is_getack_def)

lemma replay_reproduced:
  assumes "performs e x cmds s = Some s'" "list_all portable cmds" "same_data s t" "nobody_waits s" "nobody_waits t"
    and "alloc e' = alloc e" "plain s x" "plain t y" "buffer_of t y = []"
  shows "\<exists>t'. replay e' dtos y cmds n t = Some (n + int (length (concat (map (to_resp dtos) cmds))), t') \<and>
    same_data s' t' \<and> buffer_of t' y = []"
  using assms
proof (induction cmds arbitrary: s t n)
  case (Cons cmd cmds)
  let ?t = "set_read_buffer y (concat (map (to_resp dtos) cmds)) t"
  obtain s1 c1 where s1: "perform e x cmd s = Some (s1, c1)" "performs e x cmds s1 = Some s'"
    using Cons.prems(1) by (auto simp: Option.bind_eq_Some_conv)
  have p: "portable cmd" "list_all portable cmds" using Cons.prems(2) by simp_all
  have "same_data s ?t" "nobody_waits ?t" "plain ?t y" using Cons.prems by simp_all
  from perform_reproduced [OF p(1) this(1) Cons.prems(4) this(2) Cons.prems(6,7) this(3) s1(1)]
  obtain t1 d1 where t1: "perform e' y cmd ?t = Some (t1, d1)" "ctx_command d1 \<noteq> None" "same_data s1 t1"
    "nobody_waits s1" "nobody_waits t1" "plain s1 x" "plain t1 y" by blast
  let ?u = "clear_write_buffer y t1"
  have "buffer_of ?u y = []" by (simp add: buffer_of_def split: option.split)
  with Cons.IH [OF s1(2) p(2), of ?u "n + int (length (to_resp dtos cmd))"] t1 Cons.prems(6)
  obtain t' where t': "replay e' dtos y cmds (n + int (length (to_resp dtos cmd))) ?u =
      Some (n + int (length (to_resp dtos cmd)) + int (length (concat (map (to_resp dtos) cmds))), t')"
    "same_data s' t'" "buffer_of t' y = []" by auto
  obtain cl where cl: "clients ?t y = Some cl" using plain_client [OF Cons.prems(8)] by (auto simp: plain_def)
  then have "ctx_of ?t y cmd = (new_context y (fd cl))\<lparr>ctx_command := Some cmd\<rparr>" by (auto simp: ctx_of_def)
  then have "execute e' ?t ((new_context y (fd cl))\<lparr>ctx_command := Some cmd\<rparr>) = Some (t1, d1)"
    using t1(1) by (simp add: perform_def)
  then show ?case
    using t' cl t1(2) portable_not_getack [OF p(1)] by (auto simp: Let_def add.assoc simp del: clients_set_buffers)
qed simp

lemma portable_known: "portable cmd \<Longrightarrow> cmd_type cmd \<noteq> UNKNOWN"
  by (cases cmd) (simp_all add: portable_def is_write_command_def)


end
