(* ===== verification/Parse_Progress.thy ===== *)
theory Parse_Progress
  imports CommandParser
begin

text \<open>
  Every parser of \<open>src/src/parser/command-parser.cpp\<close> moves the read position forward only,
  so a command that is understood takes at least one byte off the read buffer, whatever the
  bytes are. The loops that parse one command after the other end because of this.
\<close>

lemma calculate_length_moves: "calculate_length buf pos n = (ok, m, p) \<Longrightarrow> pos \<le> p"
proof (induction buf pos n rule: calculate_length.induct)
  case (1 buf pos n)
  then show ?case by (subst (asm) (2) calculate_length.simps) (auto split: if_splits)
qed

lemma skip_to_CR_moves: "pos \<le> skip_to_CR buf pos"
proof (induction buf pos rule: skip_to_CR.induct)
  case (1 buf pos)
  then show ?case by (subst skip_to_CR.simps) auto
qed

lemma Parse_moves:
  assumes "Parse buf pos = (t, p)"
  shows "pos \<le> p" "ttype t \<noteq> UNKNOWN_TOKEN \<Longrightarrow> pos < p \<and> pos < length buf"
proof -
  have "pos \<le> p \<and> (ttype t \<noteq> UNKNOWN_TOKEN \<longrightarrow> pos < p \<and> pos < length buf)"
  proof (cases "calculate_length buf (pos + 1) 0")
    case (fields ok m q)
    moreover note calculate_length_moves [OF fields] skip_to_CR_moves [of q buf]
    ultimately show ?thesis using assms by (cases ok) (auto simp: Parse_def Let_def split: if_splits)
  qed
  then show "pos \<le> p" "ttype t \<noteq> UNKNOWN_TOKEN \<Longrightarrow> pos < p \<and> pos < length buf" by blast+
qed

named_theorems moves \<open>positions that only grow\<close>

lemma Parse_le [moves]: "q \<le> pos \<Longrightarrow> q \<le> snd (Parse buf pos)"
  using Parse_moves(1) [of buf pos] by (metis le_trans prod.collapse)

lemma Parse_tuple_le: "Parse buf pos = (t, p) \<Longrightarrow> q \<le> pos \<Longrightarrow> q \<le> p"
  using Parse_moves(1) le_trans by blast

lemma next_bulk_le: "next_bulk buf pos = (v, p) \<Longrightarrow> q \<le> pos \<Longrightarrow> q \<le> p"
  using Parse_moves(1) [of buf pos] by (fastforce simp: next_bulk_def split: prod.splits if_splits)

lemma next_text_le: "next_text buf pos = (v, p) \<Longrightarrow> q \<le> pos \<Longrightarrow> q \<le> p"
  using Parse_moves(1) [of buf pos] by (fastforce simp: next_text_def split: prod.splits)

lemma with_bulk_le [moves]:
  "(\<And>s p. q \<le> p \<Longrightarrow> q \<le> snd (f s p)) \<Longrightarrow> q \<le> pos \<Longrightarrow> q \<le> snd (with_bulk buf pos f)"
  using next_bulk_le [of buf pos] by (auto simp: with_bulk_def split: prod.split option.split)

text \<open>The loops over arguments.\<close>

lemma parse_values_le: "parse_values n buf pos = (vs, p) \<Longrightarrow> q \<le> pos \<Longrightarrow> q \<le> p"
  by (induction n arbitrary: pos vs p) (auto split: prod.splits dest: next_bulk_le)

lemma parse_all_le: "parse_all n buf pos = (r, p) \<Longrightarrow> q \<le> pos \<Longrightarrow> q \<le> p"
  by (induction n arbitrary: pos r p) (auto split: prod.splits option.splits dest: next_bulk_le)

lemma parse_pairs_le: "parse_pairs n buf pos = (ps, p) \<Longrightarrow> q \<le> pos \<Longrightarrow> q \<le> p"
  by (induction n arbitrary: pos ps p) (auto split: prod.splits dest!: next_bulk_le)

lemma parse_scores_le: "parse_scores stod n buf pos = (r, p) \<Longrightarrow> q \<le> pos \<Longrightarrow> q \<le> p"
proof (induction n arbitrary: pos r p)
  case (Suc n)
  obtain a p1 b p2 where p: "next_bulk buf pos = (a, p1)" "next_bulk buf p1 = (b, p2)" by fastforce
  have "q \<le> p2" using next_bulk_le p Suc.prems(2) by blast
  then show ?case using Suc p by (auto split: option.splits prod.splits)
qed simp

lemma parse_geoadd_le [moves]: "q \<le> pos \<Longrightarrow> q \<le> snd (parse_geoadd stod n buf pos cmd)"
proof (induction n arbitrary: pos cmd)
  case (Suc n)
  obtain a p1 b p2 d p3 where p: "next_bulk buf pos = (a, p1)" "next_bulk buf p1 = (b, p2)" "next_bulk buf p2 = (d, p3)"
    by fastforce
  have "q \<le> p3" using next_bulk_le p Suc.prems by blast
  then show ?case using Suc.IH p by (auto split: option.splits)
qed simp

lemma parse_acl_rules_le: "parse_acl_rules n buf pos pw fs = (a, b, p) \<Longrightarrow> q \<le> pos \<Longrightarrow> q \<le> p"
  by (induction n arbitrary: pos pw fs) (auto split: prod.splits option.splits if_splits dest: next_bulk_le)

lemma parse_set_flags_le: "parse_set_flags n buf pos ex px = (a, b, p) \<Longrightarrow> q \<le> pos \<Longrightarrow> q \<le> p"
proof (induction n buf pos ex px rule: parse_set_flags.induct)
  case (1 n buf pos ex px)
  obtain v p1 w p2 where p: "next_bulk buf pos = (v, p1)" "next_bulk buf p1 = (w, p2)" by fastforce
  have le: "q \<le> p1" "q \<le> p2" using next_bulk_le p 1(7) by blast+
  show ?case
    using 1(6,7) p le 1(1-5)
    by (subst (asm) parse_set_flags.simps) (auto split: option.splits if_splits prod.splits)
qed

lemmas loops_le = Parse_tuple_le next_bulk_le next_text_le parse_values_le parse_all_le parse_pairs_le parse_scores_le
  parse_acl_rules_le parse_set_flags_le

section \<open>The parsers\<close>

lemma parse_xread_streams_le [moves]: "q \<le> pos \<Longrightarrow> q \<le> snd (parse_xread_streams block buf pos n)"
  by (auto simp: parse_xread_streams_def Let_def split: prod.split dest!: loops_le [where q = q])

lemmas parser_defs =
  parseEchoCommand_def parseSetCommand_def parseGetCommand_def parseTypeCommand_def parseIncrCommand_def parseRpushCommand_def parseLpushCommand_def parseLrangeCommand_def parseLlenCommand_def parseLpopCommand_def parseBlpopCommand_def parseXaddCommand_def
  parseXrangeCommand_def parseXreadCommand_def parseInfoCommand_def parseReplConfCommand_def parsePsyncCommand_def parseWaitCommand_def parseGetConfigCommand_def parseKeysCommand_def parseSubScribeCommand_def parsePublishCommand_def parseUnsubscribeCommand_def parseZaddCommand_def
  parseZrankCommand_def parseZrangeCommand_def parseZcardCommand_def parseZscoreCommand_def parseZremCommand_def parseGeoAddCommand_def parseGeoPosCommand_def parseGeoDistCommand_def parseGeoSearchCommand_def parseACLCommand_def parseAuthCommand_def

lemma parsers_le [moves]:
  "q \<le> pos \<Longrightarrow> q \<le> snd (parseEchoCommand buf pos)"
  "q \<le> pos \<Longrightarrow> q \<le> snd (parseSetCommand buf pos n)"
  "q \<le> pos \<Longrightarrow> q \<le> snd (parseGetCommand buf pos)"
  "q \<le> pos \<Longrightarrow> q \<le> snd (parseTypeCommand buf pos)"
  "q \<le> pos \<Longrightarrow> q \<le> snd (parseIncrCommand buf pos)"
  "q \<le> pos \<Longrightarrow> q \<le> snd (parseRpushCommand buf pos n)"
  "q \<le> pos \<Longrightarrow> q \<le> snd (parseLpushCommand buf pos n)"
  "q \<le> pos \<Longrightarrow> q \<le> snd (parseLrangeCommand buf pos)"
  "q \<le> pos \<Longrightarrow> q \<le> snd (parseLlenCommand buf pos)"
  "q \<le> pos \<Longrightarrow> q \<le> snd (parseLpopCommand buf pos n)"
  "q \<le> pos \<Longrightarrow> q \<le> snd (parseBlpopCommand stod buf pos n)"
  "q \<le> pos \<Longrightarrow> q \<le> snd (parseXaddCommand buf pos n)"
  "q \<le> pos \<Longrightarrow> q \<le> snd (parseXrangeCommand buf pos)"
  "q \<le> pos \<Longrightarrow> q \<le> snd (parseXreadCommand stod buf pos n)"
  "q \<le> pos \<Longrightarrow> q \<le> snd (parseInfoCommand buf pos)"
  "q \<le> pos \<Longrightarrow> q \<le> snd (parseReplConfCommand buf pos)"
  "q \<le> pos \<Longrightarrow> q \<le> snd (parsePsyncCommand buf pos n)"
  "q \<le> pos \<Longrightarrow> q \<le> snd (parseWaitCommand buf pos)"
  "q \<le> pos \<Longrightarrow> q \<le> snd (parseGetConfigCommand buf pos n)"
  "q \<le> pos \<Longrightarrow> q \<le> snd (parseKeysCommand buf pos)"
  "q \<le> pos \<Longrightarrow> q \<le> snd (parseSubScribeCommand buf pos)"
  "q \<le> pos \<Longrightarrow> q \<le> snd (parsePublishCommand buf pos)"
  "q \<le> pos \<Longrightarrow> q \<le> snd (parseUnsubscribeCommand buf pos)"
  "q \<le> pos \<Longrightarrow> q \<le> snd (parseZaddCommand stod buf pos n)"
  "q \<le> pos \<Longrightarrow> q \<le> snd (parseZrankCommand buf pos)"
  "q \<le> pos \<Longrightarrow> q \<le> snd (parseZrangeCommand buf pos)"
  "q \<le> pos \<Longrightarrow> q \<le> snd (parseZcardCommand buf pos)"
  "q \<le> pos \<Longrightarrow> q \<le> snd (parseZscoreCommand buf pos)"
  "q \<le> pos \<Longrightarrow> q \<le> snd (parseZremCommand buf pos n)"
  "q \<le> pos \<Longrightarrow> q \<le> snd (parseGeoAddCommand stod buf pos n)"
  "q \<le> pos \<Longrightarrow> q \<le> snd (parseGeoPosCommand buf pos n)"
  "q \<le> pos \<Longrightarrow> q \<le> snd (parseGeoDistCommand buf pos)"
  "q \<le> pos \<Longrightarrow> q \<le> snd (parseGeoSearchCommand stod buf pos)"
  "q \<le> pos \<Longrightarrow> q \<le> snd (parseACLCommand buf pos n)"
  "q \<le> pos \<Longrightarrow> q \<le> snd (parseAuthCommand buf pos)"
  unfolding parser_defs
  by (auto simp: Let_def intro!: moves split: prod.split option.split dest!: loops_le [where q = q])

lemma parse_named_le: "parse_named stod name buf pos n = Some r \<Longrightarrow> pos \<le> snd r"
  by (auto simp: parse_named_def intro!: moves split: if_splits)

text \<open>A command that is understood is taken off the buffer.\<close>

lemma parse_progress:
  "cmd_type (command (parseCommand stod buf pos)) \<noteq> UNKNOWN \<Longrightarrow>
   length (buffer (parseCommand stod buf pos)) < length buf"
proof (induction stod buf pos rule: parseCommand.induct)
  case (1 stod buf pos)
  obtain t pos1 where t: "Parse buf pos = (t, pos1)" by fastforce
  obtain name pos2 where name: "Parse buf pos1 = (name, pos2)" by fastforce
  show ?case
  proof (cases "ttype t")
    case ARRAY
    have "pos < pos2" "pos < length buf" using Parse_moves [OF t] Parse_moves(1) [OF name] ARRAY by auto
    then show ?thesis
      using 1(2) ARRAY t name parse_named_le [of stod "token_text buf name" buf pos2]
      by (subst parseCommand.simps, subst (asm) parseCommand.simps) (fastforce simp: Let_def split: option.splits)
  next
    case BULK_STRING
    let ?b = "drop (end_pos t + 1) buf"
    have "parseCommand stod buf pos = parseCommand stod ?b 0"
      using t BULK_STRING by (subst parseCommand.simps) simp
    then show ?thesis
      using 1 t BULK_STRING Parse_bulk_shrinks [OF t BULK_STRING] by fastforce
  next
    case UNKNOWN_TOKEN
    then have "command (parseCommand stod buf pos) = UnknowCommand"
      using t by (subst parseCommand.simps) simp
    then show ?thesis using 1(2) by simp
  qed
qed

end
