(* ===== verification/Slave_Loop.thy ===== *)
theory Slave_Loop
  imports Slave Parse_Progress
begin

text \<open>
  The loop \<open>while (!read_buffer.empty() && db && config)\<close> of
  \<open>SlaveReplicationClient::process_commands\<close> has no counter, and its body gives the replica
  object to the database. The theorem: whatever the master has sent, the loop ends after at
  most one round per byte, in a return or in a fault of a command.
\<close>

text \<open>
  One evaluation of the loop: \<open>Inl\<close> is the end of the loop, \<open>Inr\<close> the state for the next
  round, \<open>None\<close> a fault.
\<close>

definition command_round ::
  "env \<Rightarrow> (string \<Rightarrow> real option) \<Rightarrow> SlaveReplicationClient \<Rightarrow> state \<Rightarrow>
     (SlaveReplicationClient \<times> state + SlaveReplicationClient \<times> state) option" where
  "command_round e stod sl s = do {
     cl \<leftarrow> clients s (self sl);
     if read_buffer cl = [] then Some (Inl (sl, s))
     else
       let r = parseCommand stod (read_buffer cl) 0;
           s = set_read_buffer (self sl) (buffer r) s;
           sl' = sl\<lparr>bytes_processed := bytes_processed sl + (case bytes r of None \<Rightarrow> 0 | Some k \<Rightarrow> int k)\<rparr>
       in if cmd_type (command r) = UNKNOWN then Some (Inl (sl, s))
          else if is_getack (command r) then
            Some (Inr (sl', write_to (self sl) (\<lambda>_. ack_reply (bytes_processed sl)) s))
          else do {
            (s, c) \<leftarrow> execute e s ((new_context (self sl) (fd cl))\<lparr>ctx_command := Some (command r)\<rparr>);
            if ctx_command c = None then None
            else Some (Inr (sl', clear_write_buffer (self sl) s)) } }"

text \<open>At most \<open>n\<close> rounds; the outer \<open>None\<close> says that they were not enough.\<close>

fun command_rounds ::
  "nat \<Rightarrow> env \<Rightarrow> (string \<Rightarrow> real option) \<Rightarrow> SlaveReplicationClient \<Rightarrow> state \<Rightarrow>
     (SlaveReplicationClient \<times> state) option option" where
  "command_rounds 0 e stod sl s = None"
| "command_rounds (Suc n) e stod sl s =
     (case command_round e stod sl s of
        None \<Rightarrow> Some None
      | Some (Inl r) \<Rightarrow> Some (Some r)
      | Some (Inr (sl, s)) \<Rightarrow> command_rounds n e stod sl s)"

lemma process_commands_round:
  "process_commands e stod sl s =
     (case command_round e stod sl s of
        None \<Rightarrow> None
      | Some (Inl r) \<Rightarrow> Some r
      | Some (Inr (sl, s)) \<Rightarrow> process_commands e stod sl s)"
  by (subst process_commands.simps)
    (auto simp: command_round_def Let_def split: option.split Option.bind_split)

text \<open>A round that goes on leaves fewer bytes in the read buffer.\<close>

lemma command_round_shrinks:
  assumes "command_round e stod sl s = Some (Inr (sl', s'))" "db_inv s"
  shows "length (received s' (self sl')) < length (received s (self sl)) \<and> db_inv s'"
proof -
  obtain cl where cl: "clients s (self sl) = Some cl"
    using assms(1) by (auto simp: command_round_def Option.bind_eq_Some_conv)
  define r where "r = parseCommand stod (read_buffer cl) 0"
  let ?s = "set_read_buffer (self sl) (buffer r) s"
  have inv: "db_inv ?s" using assms(2) by simp
  have known: "cmd_type (command r) \<noteq> UNKNOWN" and sl': "self sl' = self sl"
    using assms(1) cl by (auto simp: command_round_def Let_def r_def Option.bind_eq_Some_conv split: if_splits)
  have less: "length (buffer r) < length (received s (self sl))"
    using parse_progress known cl by (simp add: r_def received_def)
  show ?thesis
  proof (cases "is_getack (command r)")
    case True
    then have "s' = write_to (self sl) (\<lambda>_. ack_reply (bytes_processed sl)) ?s"
      using assms(1) cl by (auto simp: command_round_def Let_def simp flip: r_def split: if_splits)
    then show ?thesis using less cl inv sl' by (simp add: received_def db_inv_write)
  next
    case False
    then obtain t c where ex: "execute e ?s ((new_context (self sl) (fd cl))\<lparr>ctx_command := Some (command r)\<rparr>) = Some (t, c)"
      and s': "s' = clear_write_buffer (self sl) t"
      using assms(1) cl known
      by (auto simp: command_round_def Let_def Option.bind_eq_Some_conv simp flip: r_def split: if_splits)
    have "inputs_kept ?s t" "db_inv t" using execute_inputs [OF inv ex] execute_inv [OF inv ex] .
    moreover from this(1) have "map_option (\<lambda>cl. (fd cl, read_buffer cl)) (clients t (self sl)) =
        map_option (\<lambda>cl. (fd cl, read_buffer cl)) (clients ?s (self sl))"
      unfolding inputs_kept_def by blast
    ultimately show ?thesis using less cl sl' by (auto simp: s' received_def)
  qed
qed

lemma command_rounds_end:
  assumes "db_inv s" "length (received s (self sl)) < n"
  shows "command_rounds n e stod sl s = Some (process_commands e stod sl s)"
  using assms
proof (induction n arbitrary: sl s)
  case (Suc n)
  have "command_rounds n e stod sl' s' = Some (process_commands e stod sl' s')"
    if "command_round e stod sl s = Some (Inr (sl', s'))" for sl' s'
    using Suc.IH command_round_shrinks [OF that Suc.prems(1)] Suc.prems(2) by simp
  then show ?case
    by (subst process_commands_round) (auto split: option.split sum.split)
qed simp

text \<open>
  C18. The loop of a replica over its read buffer ends for every input: after at most one round
  per byte, it returns or a command of the stream faults. Every command that is understood
  takes bytes off the buffer, and executing it puts none back.
\<close>

lemma process_commands_ends:
  assumes "db_inv s"
  shows "\<exists>r. command_rounds (Suc (length (received s (self sl)))) e stod sl s = Some r \<and>
    process_commands e stod sl s = r"
  using command_rounds_end [OF assms] by blast

end
