(* ===== verification/Witnesses.thy ===== *)
theory Witnesses
  imports Server Server_Config Convergence Slave_Loop
begin

text \<open>
  Concrete states for the theorems of the library: an allocator that always serves, an
  environment, a database with two clients, a server with a registered replica. Each
  \<open>_witness\<close> applies the theorem of that name to them.
\<close>

section \<open>Lists\<close>

definition calloc_ok :: allocator where
  "calloc_ok n = Some (replicate n 0)"

lemma calloc_ok_fits: "strings_size vs \<le> UINT32_MAX \<Longrightarrow> list_all narrow_string vs \<Longrightarrow> lp_fits calloc_ok vs"
  by (simp add: lp_fits_def allocator_ok_def calloc_ok_def)

lemma entry_examples: "entry_of_string ''a'' = EStr [97]" "entry_of_string ''7'' = EInt 7"
  by (simp_all add: entry_of_string_def lpStringToInt64_def isdigit_def digit_val_def
      bytes_of_string_def byte_of_char_def)

lemma bytes_examples: "entry_bytes (EStr [97]) = [129, 97, 2]" "entry_bytes (EInt 7) = [7, 1]"
  by (simp_all add: entry_bytes_def str_header_def backlen_bytes_def lpEncodeBacklen_def
      lpEncodeIntegerGetType_def)

lemma small_strings:
  "strings_size [''a'', ''7''] \<le> UINT32_MAX" "list_all narrow_string [''a'', ''7'']"
  "strings_size [''7'', ''a''] \<le> UINT32_MAX" "list_all narrow_string [''7'', ''a'']"
  "strings_size [] \<le> UINT32_MAX" "strings_size [''a''] \<le> UINT32_MAX" "list_all narrow_string [''a'']"
  by (simp_all add: strings_size_def lp_size_def narrow_string_def entry_examples bytes_examples)

lemma calloc_simps: "allocator_ok calloc_ok" "calloc_ok n \<noteq> None"
  by (simp_all add: allocator_ok_def calloc_ok_def)

section \<open>A database with two clients\<close>

definition env0 :: env where
  "env0 = \<lparr>steady_now = 0, system_now = 0, epoch_ms = 5, alloc = calloc_ok, fixed = (\<lambda>_ _. ''0''),
     key_order = (\<lambda>_. []), member_order = (\<lambda>_. []), sha256 = (\<lambda>s. 1 # bytes_of_string s), config_dir = []\<rparr>"

definition two_clients :: state where
  "two_clients = init_state\<lparr>clients := [1 \<mapsto> new_client 7, 2 \<mapsto> new_client 8]\<rparr>"

lemma no_flags: "\<not> isClientOnTransaction (new_client n)" "\<not> isClientOnPubSub (new_client n)"
  by (simp_all add: isClientOnTransaction_def isClientOnPubSub_def new_client_def)

lemma two_clients_simps [simp]:
  "clients two_clients 1 = Some (new_client 7)" "clients two_clients (Suc 0) = Some (new_client 7)"
  "clients two_clients 2 = Some (new_client 8)"
  "store two_clients = Map.empty" "expiration two_clients = Map.empty" "blocked_keys two_clients = Map.empty"
  "blocked_xread_keys two_clients = Map.empty" "watching_keys two_clients = Map.empty"
  "pubsub_clients two_clients = Map.empty" "users two_clients = ACLManager"
  by (simp_all add: two_clients_def init_state_def)

lemma two_clients_plain: "plain two_clients 1" "plain two_clients 2"
  by (simp_all add: plain_def no_flags)

lemma two_clients_inv: "db_inv two_clients"
proof -
  have "counters_ok two_clients"
    by (auto simp: counters_ok_def subscriptions_def two_clients_def init_state_def new_client_def split: if_splits)
  moreover have "fds_ok two_clients"
    by (auto simp: fds_ok_def two_clients_def new_client_def split: if_splits)
  moreover have "queues_ok two_clients"
    by (auto simp: queues_ok_def queue_ok_def ran_def two_clients_def new_client_def split: if_splits)
  ultimately show ?thesis
    by (simp add: db_inv_def deadlines_ok_def objects_ok_def)
qed

lemma two_clients_data [simp]:
  "list_at two_clients k []" "zset_at two_clients k Map.empty" "stream_at two_clients k []"
  "stream_of two_clients k = new_stream" "buffer_of two_clients 1 = []" "buffer_of two_clients 2 = []"
  by (simp_all add: list_at_def zset_at_def stream_at_def stream_of_def buffer_of_def new_client_def)

theorem set_then_get_witness:
  "\<exists>s1 c1 s2 c2. perform env0 1 (SetCommand ''k'' ''v'' (Some 1) None) two_clients = Some (s1, c1) \<and>
    perform (env0\<lparr>steady_now := 2000000000\<rparr>) 2 (GetCommand ''k'') s1 = Some (s2, c2) \<and> store s2 ''k'' = None"
proof -
  let ?c = "SetCommand ''k'' ''v'' (Some 1) None"
  have "perform env0 1 ?c two_clients \<noteq> None"
    by (subst perform_data [OF two_clients_plain(1)])
      (simp_all add: data_command_def control_command_def call_other_def handle_set_def env0_def later_def chk64_def
        int64_range_def Let_def)
  then obtain s1 c1 where p: "perform env0 1 ?c two_clients = Some (s1, c1)" by auto
  from set_then_get [OF two_clients_inv two_clients_plain p, of "env0\<lparr>steady_now := 2000000000\<rparr>"] p
  show ?thesis by (auto simp: Let_def set_deadline_def alive_at_def env0_def)
qed

theorem incr_counts_witness:
  "\<exists>t. performs env0 1 [IncrCommand ''n'', IncrCommand ''n''] two_clients = Some t \<and> store t ''n'' = Some (STRING ''2'')"
proof -
  have "int_to_string 2 = ''2''" by code_simp
  then show ?thesis
    using incr_counts [OF two_clients_plain(1), of "''n''" 2 env0] by (auto simp: numeral_2_eq_2)
qed


theorem blpop_then_push_witness:
  "\<exists>s1 c1 s2 c2. perform env0 2 (BlpopCommand [''l''] 0) two_clients = Some (s1, c1) \<and> isBlocked c1 \<and>
    perform env0 1 (RpushCommand ''l'' [''a'']) s1 = Some (s2, c2) \<and> unblocked_client_fd c2 = client_fd c1"
proof -
  have "lp_fits (alloc env0) []" using calloc_ok_fits [of "[]"] small_strings(5) by (simp add: env0_def)
  moreover have "deadline (steady_now env0) 0 (0 * 1000) = Some None" by (simp add: deadline_def)
  ultimately show ?thesis
    using blpop_then_push [OF two_clients_plain _ two_clients_data(1), where e = env0 and timeout = 0 and t = None and e' = env0 and vs = "[]"
      and ks = "[]" and v = "''a''" and key = "''l''"]
    by auto
qed


lemma no_waiters: "blocked_xread_keys two_clients k = None" "blocked_keys two_clients k = None"
  by simp_all

theorem xadd_then_xrange_witness:
  "\<exists>s1 c1 i s2 c2. perform env0 1 (XaddCommand ''s'' ''1-1'' [(''f'', ''v'')]) two_clients = Some (s1, c1) \<and>
    stream_at s1 ''s'' [(i, [''f'', ''v''])] \<and> perform env0 2 (XrangeCommand ''s'' ''-'' ''+'') s1 = Some (s2, c2)"
proof -
  have i: "fromString (epoch_ms env0) new_stream ''1-1'' = Some (StreamID 1 1)"
    by (simp add: fromString_def convert_positive_string_to_number_def isdigit_def digit_val_def)
  have "fst (insert_stream (epoch_ms env0) new_stream ''1-1'' (raw_value [(''f'', ''v'')])) = OK"
    by (simp add: insert_stream_def i Let_def) (simp add: new_stream_def)
  then obtain p st where "insert_stream (epoch_ms env0) (stream_of two_clients ''s'') ''1-1'' (raw_value [(''f'', ''v'')]) = (OK, p, st)"
    by (metis prod.collapse two_clients_data(4))
  moreover have "list_all (\<lambda>fs. length (bulks fs) < 18446744073709551616) (flat_fields [(''f'', ''v'')] # map snd [])"
    by (simp add: flat_fields_def bulk_def nat_to_string_small)
  ultimately have "\<exists>s1 c1 i s2 c2. perform env0 1 (XaddCommand ''s'' ''1-1'' [(''f'', ''v'')]) two_clients = Some (s1, c1) \<and>
      stream_at s1 ''s'' ([] @ [(i, flat_fields [(''f'', ''v'')])]) \<and>
      perform env0 2 (XrangeCommand ''s'' ''-'' ''+'') s1 = Some (s2, c2)"
    using xadd_then_xrange [OF two_clients_plain two_clients_data(3) no_waiters(1), where e' = env0] by blast
  then show ?thesis by (simp add: flat_fields_def)
qed

theorem zadd_then_zrank_witness:
  "\<exists>s1 c1 s2 c2. perform env0 1 (ZaddCommand ''z'' [(2, ''m'')]) two_clients = Some (s1, c1) \<and>
    perform env0 2 (ZrankCommand ''z'' ''m'') s1 = Some (s2, c2)"
  using zadd_then_zrank [OF two_clients_plain two_clients_data(2), where e = env0 and e' = env0] by blast


text \<open>The second client has subscribed.\<close>

definition subscribed :: state where
  "subscribed = two_clients\<lparr>pubsub_clients := [''ch'' \<mapsto> [2]]\<rparr>"


theorem setuser_then_auth_witness:
  "\<exists>s1 c1 s2 c2 cl. perform env0 1 (ACLSetUserCommand ''bob'' (Some ''pw'') []) two_clients = Some (s1, c1) \<and>
    perform env0 2 (AuthCommand ''bob'' ''pw'') s1 = Some (s2, c2) \<and> clients s2 2 = Some cl \<and> user cl = Some ''bob''"
proof -
  have "sha256 env0 ''pw'' \<noteq> []" by (simp add: env0_def)
  moreover have "users two_clients ''bob'' = None" by (simp add: ACLManager_def)
  ultimately show ?thesis
    using setuser_then_auth [OF two_clients_plain, where e = env0 and p = "''pw''" and name = "''bob''"
        and q = "''pw''" and fs = "[]"] by auto
qed


text \<open>The first client waits without a limit, the second until second one.\<close>

definition waiting :: state where
  "waiting = two_clients\<lparr>blocked_keys := [''l'' \<mapsto>
     [\<lparr>blocked_cid = 1, blocked_fd = 7, timeout_at = None\<rparr>,
      \<lparr>blocked_cid = 2, blocked_fd = 8, timeout_at = Some 1000000000\<rparr>]]\<rparr>"

theorem timeouts_answered_witness:
  "\<exists>s' fds. check_and_expire_blocked_clients 2000000000 [''l''] [] waiting = (s', fds) \<and>
    blocked_keys s' ''l'' = Some [\<lparr>blocked_cid = 1, blocked_fd = 7, timeout_at = None\<rparr>] \<and>
    buffer_of s' 2 = ''*-1'' @ CRLF"
proof -
  obtain s' fds where r: "check_and_expire_blocked_clients 2000000000 [''l''] [] waiting = (s', fds)" by fastforce
  have w: "clients waiting 2 \<noteq> None" "buffer_of waiting 2 = []" by (simp_all add: waiting_def)
  from timeouts_answered [OF _ _ _ _ r] w have "blocked_keys s' ''l'' = unexpired 2000000000 (blocked_keys waiting ''l'')"
    "buffer_of s' 2 = null_arrays (expired_entries 2000000000 (blocked_keys waiting) 2 [''l''] +
      expired_entries 2000000000 (blocked_xread_keys waiting) 2 [])"
    by (auto simp: waiting_def)
  with r show ?thesis
    by (auto simp: waiting_def unexpired_def is_expired_def expired_entries_def queue_of_def null_arrays_def)
qed

theorem later_waiter_ignored_witness:
  "get_next_timeout_ms 0 [''l''] [] waiting = - 1"
  by (rule later_waiter_ignored, simp add: waiting_def, simp)


section \<open>A server with a replica\<close>

text \<open>The first client waits for one replica at offset ten, the second is a replica.\<close>

definition one_waits :: server where
  "one_waits = (init_server default_config)\<lparr>sdb := two_clients, slave_connections := [(8, 2)],
     blocked_wait_clients := [\<lparr>blocked_cid = 1, blocked_fd = 7, timeout_at = None,
       num_replicas_needed = 1, master_offset = 10\<rparr>]\<rparr>"

theorem wait_answered_witness:
  "\<exists>v' c'. handle_replconf one_waits (new_context 2 8) ACK 10 = (v', c') \<and> blocked_wait_clients v' = [] \<and>
    buffer_of (sdb v') 1 = '':1'' @ CRLF"
proof -
  obtain v' c' where h: "handle_replconf one_waits (new_context 2 8) ACK 10 = (v', c')" by fastforce
  let ?b = "\<lparr>blocked_cid = 1, blocked_fd = 7, timeout_at = None, num_replicas_needed = 1, master_offset = 10\<rparr>"
  have f: "filter (\<lambda>b'. blocked_cid b' = blocked_cid ?b) (blocked_wait_clients one_waits) = [?b]"
    by (simp add: one_waits_def)
  have one: "clients (sdb one_waits) (blocked_cid ?b) \<noteq> None" "client (new_context 2 8) \<noteq> blocked_cid ?b"
    by (simp_all add: one_waits_def new_context_def)
  have acked: "acked (update_client (client (new_context 2 8)) (\<lambda>cl. cl\<lparr>replica_offset := 10\<rparr>) (sdb one_waits))
      (slave_connections one_waits) (master_offset ?b) = 1"
    by (simp add: acked_def one_waits_def new_context_def)
  have d: "nat_to_string (Suc 0) = ''1''" by code_simp
  have buffer_one: "buffer_of two_clients (Suc 0) = []" using two_clients_data(5) by simp
  have "?b \<notin> set (blocked_wait_clients v') \<and> buffer_of (sdb v') 1 = '':1'' @ CRLF"
    using wait_answered [OF f one h] unfolding acked by (simp add: one_waits_def buffer_one d)
  moreover have "blocked_wait_clients v' \<noteq> [] \<Longrightarrow> ?b \<in> set (blocked_wait_clients v')"
    using handle_replconf_ack [OF h] f by (cases "blocked_wait_clients v'") (auto simp: one_waits_def)
  ultimately show ?thesis using h by blast
qed

text \<open>A client that has connected and asked for replication.\<close>

definition psync :: Command where
  "psync = PsyncCommand ''?'' (- 1)"

lemma psync_parsed: "parsed_back stod dtos psync"
  by (rule wire_ok_parsed_back) (simp add: wire_ok_def psync_def int64_range_def)

lemma replica_reachable: "\<exists>v. reachable default_config v \<and> slave_connections v = [(7, 1)]"
proof -
  let ?v0 = "init_server default_config"
  define cl where "cl = (new_client 7)\<lparr>user := Some ''default'', is_authenticated := True\<rparr>"
  define v1 where "v1 = ?v0\<lparr>sdb := init_state\<lparr>clients := [1 \<mapsto> cl]\<rparr>, active_connections := [7 \<mapsto> 1]\<rparr>"
  have "onNewConnection 1 7 ?v0 = Some v1"
    by (simp add: onNewConnection_def init_server_def init_state_def ACLManager_def v1_def cl_def)
  then have r1: "reachable default_config v1"
    by (intro reachable.step [OF reachable.start] server_step.accept)
      (simp_all add: init_server_def init_state_def channel_def)
  define dtos :: "real \<Rightarrow> string" where "dtos = (\<lambda>_. [])"
  define stod :: "string \<Rightarrow> real option" where "stod = (\<lambda>_. None)"
  let ?t = "to_resp dtos psync"
  have rd: "handleRead [Got ?t, Would_block] cl = Some (cl\<lparr>read_buffer := ?t\<rparr>, Unchanged, True)"
    by (simp add: cl_def new_client_def)
  let ?v = "on_db (update_client 1 (\<lambda>_. cl\<lparr>read_buffer := ?t\<rparr>)) v1"
  have p: "parseCommand stod ?t 0 = \<lparr>command = psync, bytes = Some (length ?t), buffer = [], position = 0\<rparr>"
    using psync_parsed [of stod dtos] unfolding parsed_back_def by (metis append_Nil2)
  have "\<exists>v2. processClientRequest env0 Map.empty stod 7 ?v = Some v2 \<and> slave_connections v2 = [(7, 1)]"
    using p unfolding psync_def
    by (simp add: processClientRequest_def v1_def init_server_def init_state_def handle_def handle_psync_def
        new_context_def Let_def addSlaveConnection_def notify_clients_def cl_def new_client_def)
  then obtain v2 where v2: "processClientRequest env0 Map.empty stod 7 ?v = Some v2" "slave_connections v2 = [(7, 1)]"
    by blast
  have "server_step v1 v2"
    by (rule server_step.message [OF _ _ rd v2(1)]) (simp_all add: v1_def)
  then show ?thesis using reachable.step [OF r1] v2(2) by blast
qed


section \<open>A replica\<close>

theorem handshake_runs_witness:
  "\<exists>p0 p1 p2 p3 p4. prepare_handshake_write (new_slave 1 6380) two_clients = p0 \<and>
    handshake_round p0 (''+PONG'' @ CRLF) = Some p1 \<and> handshake_round p1 (''+OK'' @ CRLF) = Some p2 \<and>
    handshake_round p2 (''+OK'' @ CRLF) = Some p3 \<and>
    handshake_round p3 (''+FULLRESYNC '' @ ''id'' @ '' 0'' @ CRLF @
      ''$'' @ nat_to_string (length ''REDIS'') @ CRLF @ ''REDIS'' @ []) = Some p4 \<and>
    is_handshake_completed (fst p4) \<and> received (snd p4) 1 = []"
proof -
  have c: "clients two_clients 1 = Some (new_client 7)" "write_buffer (new_client 7) = []"
    by (simp_all add: new_client_def)
  from handshake_runs [OF c, of "''id''" "''REDIS''" 6380 "[]"]
  obtain p1 p2 p3 s' where "handshake_round (prepare_handshake_write (new_slave 1 6380) two_clients) (''+PONG'' @ CRLF) = Some p1"
    "handshake_round p1 (''+OK'' @ CRLF) = Some p2" "handshake_round p2 (''+OK'' @ CRLF) = Some p3"
    "handshake_round p3 (''+FULLRESYNC '' @ ''id'' @ '' 0'' @ CRLF @
      ''$'' @ nat_to_string (length ''REDIS'') @ CRLF @ ''REDIS'' @ []) =
      Some ((new_slave 1 6380)\<lparr>replication_status := HANDSHAKE_SUCCESS, is_handshake_completed := True\<rparr>, s')"
    "received s' 1 = []"
    by auto
  then show ?thesis by fastforce
qed

theorem handshake_part_witness:
  "\<exists>s'. handshake_round ((new_slave 1 6380)\<lparr>replication_status := PSYNC_SENT\<rparr>, two_clients)
      (''+FULLRESYNC '' @ ''id'' @ '' 0'' @ CRLF @ ''$'' @ nat_to_string (length ''REDIS'') @ CRLF @ take 3 ''REDIS'') =
    Some ((new_slave 1 6380)\<lparr>replication_status := PSYNC_SENT\<rparr>, s')"
  using handshake_part [of two_clients "(new_slave 1 6380)\<lparr>replication_status := PSYNC_SENT\<rparr>" "''id''" "''REDIS''" 3]
  by (auto simp: new_slave_def)


section \<open>A snapshot\<close>

theorem handleWrite_sent_witness:
  "\<exists>cl'. handleWrite [Wrote 1, Write_would_block] ((new_client 7)\<lparr>write_buffer := ''abc''\<rparr>) = Some (cl', Unchanged, ''a'') \<and>
    ''a'' @ write_buffer cl' = ''abc''"
proof -
  let ?cl = "(new_client 7)\<lparr>write_buffer := ''abc''\<rparr>"
  obtain cl' where h: "handleWrite [Wrote 1, Write_would_block] ?cl = Some (cl', Unchanged, ''a'')"
    by (simp add: handleWrite_def write_loop.simps)
  then show ?thesis using handleWrite_sent [OF h] by simp
qed

section \<open>A master and a replica\<close>


theorem process_commands_ends_witness:
  "\<exists>r. command_rounds 1 env0 (\<lambda>_. None) (new_slave 1 6380) two_clients = Some r \<and>
    process_commands env0 (\<lambda>_. None) (new_slave 1 6380) two_clients = r"
proof -
  have "received two_clients (self (new_slave 1 6380)) = []" by (simp add: received_def new_slave_def new_client_def)
  then show ?thesis
    using process_commands_ends [OF two_clients_inv, of "new_slave 1 6380" env0 "\<lambda>_. None"] by simp
qed

end
