(* ===== verification/Spec2Isabelle.thy ===== *)
theory Spec2Isabelle
  imports Witnesses
begin

text \<open>
  carrotdb is a server for the wire protocol of Redis in C++ (the sources are under
  \<open>src/src\<close>): strings with deadlines, lists, streams, sorted sets with places,
  transactions, blocking commands, channels, users, replication from a master to replicas
  and the loading of a snapshot. One thread runs an event loop; every callback works on
  the shared \<open>DB\<close>, on the client of its connection and, through the tables of blocked
  clients, subscribers and replicas, on the clients of others. This library models the
  program from the bytes of a read buffer to the bytes of the write buffers, and the files
  and peers it talks to as arguments.

  \<^bold>\<open>The parts and where they are modelled.\<close> Each function of the code is a
  definition of the same name in the theory of its part (a suffix avoids a name of HOL:
  \<open>insert_zset\<close>, \<open>parse\<close> is \<open>Rdb::parse\<close>, \<open>call_all\<close> the loop of \<open>handle_exec\<close>).

  \<^item> \<open>Prelude\<close>: names of the C++ types, \<open>option\<close> as the result of code that can
    fault (an access out of bounds, a failed \<open>assert\<close>, undefined behaviour of signed
    arithmetic), lemmas on lists. \<open>Utils\<close>: \<open>utils/utils.h\<close>, the readers of numbers and the
    encoders of replies.
  \<^item> \<open>Listpack\<close>: \<open>listpack.h\<close>, \<open>listpack.cpp\<close>, on byte lists with every access
    checked. \<open>Listpack_Codec\<close> relates entries to their bytes, \<open>Listpack_Nav\<close> positions to
    indices, \<open>Listpack_Edit\<close> insertion and deletion to the abstract list. \<open>List_Store\<close>:
    the interface (a locale) of the list commands, interpreted on the listpack; the radix
    tree and the sorted set have theirs in their theories.
  \<^item> \<open>Std_Map\<close>: \<open>std::map\<close> as a sorted association list. \<open>RadixTree\<close>:
    \<open>radix-tree.cpp\<close>, the index of a stream. \<open>Stream_Db\<close>: \<open>stream.cpp\<close>, identifiers and
    the append-only log.
  \<^item> \<open>SortedSet\<close>: \<open>sortedset.cpp\<close>. \<open>Geohash\<close>: \<open>geohash.cpp\<close>.
  \<^item> \<open>Resp_Parser\<close>: \<open>parser/parser.cpp\<close>. \<open>Command\<close>: \<open>parser/command.h\<close>.
    \<open>CommandParser\<close>: \<open>parser/command-parser.cpp\<close>.
  \<^item> \<open>Db_State\<close>: \<open>models/client.h\<close>, \<open>models/user.h\<close>, \<open>models/redisObject.h\<close>,
    \<open>db/db.h\<close>, \<open>acl.cpp\<close>. Clients are shared by several tables, so they are objects of a
    heap, a map from names to records, and a weak pointer is a name that may have no
    client. \<open>Db_Strings\<close>, \<open>Db_Lists\<close>, \<open>Db_Streams\<close>, \<open>Db_Zsets\<close>, \<open>Db_Clients\<close>: the handlers
    under \<open>db\<close>, each a function from a state and a context to a state and a context, or a
    fault. \<open>Db\<close>: \<open>db/db.cpp\<close>, the dispatcher \<open>execute\<close> and \<open>call\<close>, with \<open>MULTI\<close>, \<open>EXEC\<close>,
    \<open>DISCARD\<close>.
  \<^item> \<open>Replication\<close>: \<open>replication.cpp\<close>, the side of the master, on the record
    \<open>server\<close>. \<open>Connection\<close>: \<open>connection.cpp\<close>. \<open>Rdb\<close>: \<open>rdb.cpp\<close>, \<open>io.cpp\<close>. \<open>Server\<close>:
    \<open>server.cpp\<close>; \<open>server_step\<close> has one rule per callback of the event loop and
    \<open>reachable\<close> its states. \<open>Server_Config\<close>: \<open>server-config.cpp\<close>.
  \<^item> \<open>Slave\<close>: \<open>slave-replication.cpp\<close>, the handshake and the command stream of a
    replica. \<open>Master_Link\<close>: \<open>master-connection.cpp\<close>.

  \<^bold>\<open>What is shown.\<close> The lemmas of a theory on one component say that its operations
  do to an abstract value what they should (\<open>lp_rep\<close>: a list; \<open>tree_inv\<close> and \<open>stream_rep\<close>:
  a map and a log; \<open>zset_inv\<close>: a map of scores), errors included. \<open>Db\<close> and \<open>Db_Inv\<close> show
  that every command keeps the invariant \<open>db_inv\<close> and that a transaction runs its commands
  in order. \<open>Db_Sessions\<close> follows a value through the requests of several clients, from
  \<open>execute\<close> to the bytes of the replies. \<open>CommandParser\<close> shows that every command with
  \<open>wire_ok\<close> (no carriage return in a string, say) is parsed back from its text, \<open>Server\<close>
  that in all reachable states it reaches every replica, \<open>Slave\<close> and \<open>Master_Link\<close> that a
  replica that gets the text in any pieces executes the same commands, \<open>Convergence\<close> that
  it ends up with the store of the master, and \<open>Slave_Loop\<close>, on \<open>Parse_Progress\<close>, that its
  loop ends on every input. Where the code falls short of this, a theorem states what it
  does instead (\<open>lpFirst_wide_int\<close>, \<open>xadd_star_rejected\<close>, \<open>handshake_part\<close>,
  \<open>partial_command\<close>, \<open>replay_last\<close>, \<open>later_waiter_ignored\<close>, \<open>initialize_odd\<close>). \<open>Witnesses\<close>
  holds concrete states at which the theorems are applied. This theory states the
  properties that span components or rest on several lemmas; those of one component stand
  in its theory. The numbers C1 to C40 give their order of importance.

  \<^bold>\<open>Termination and bounds.\<close> All functions are total except three: the loops of the
  listpack run on a measure of the bytes left, those of \<open>Rdb\<close> on the bytes the reader can
  still deliver, those of \<open>Connection\<close> on the results of the kernel. The loop of \<open>EXEC\<close>
  (\<open>call_all\<close>, which can call itself), \<open>parse_bulk_string_sequence\<close> and \<open>process_commands\<close>
  of a replica are \<open>partial_function\<close>s, where not returning is \<open>None\<close>; \<open>transaction_exec\<close>
  shows what the first does on the queues that can arise,
  \<open>parse_bulk_string_sequence_bulks\<close> that the second returns on what \<open>XADD\<close> stores,
  \<open>process_commands_ends\<close> that the third ends on any input.
  Integers have the width of the code where the width is seen: words in the
  listpack, the geohash, the stream identifiers, the snapshot and the readers of numbers;
  signed 64-bit arithmetic that overflows is a fault.

  \<^bold>\<open>Parameters.\<close> The allocator, the clocks, the printing and reading of \<open>double\<close>
  (\<open>fixed\<close>, \<open>stod\<close>), SHA-256, the iteration order of unordered maps and the contents of
  files are arguments. What is asked of them is a hypothesis (\<open>allocator_ok\<close>: a block has
  the size asked for; \<open>wire_ok\<close>: a number that is printed is read back), and holds for the
  instances of \<open>Witnesses\<close>.

  \<^bold>\<open>Not modelled.\<close> \<open>eventloop.cpp\<close>, \<open>acceptor.cpp\<close>, \<open>networking.cpp\<close> and \<open>main.cpp\<close>
  only call the operating system: what they deliver are the events of \<open>server_step\<close>. Left
  out of modelled files are log output, the setting up of sockets, the members of \<open>RIO\<close>
  that write (they have no caller) and rounding: scores and coordinates are real numbers,
  so NaN, infinities and rounding errors are outside the model.
\<close>

section \<open>Lists\<close>

text \<open>The listpack with the one value \<open>a\<close>, byte by byte.\<close>

definition lp_example :: "byte list" where
  "lp_example = [10, 0, 0, 0, 1, 0, 129, 97, 2, 255]"

lemma lp_example_rep: "lp_rep lp_example [EStr [97]]"
  by (simp add: lp_rep_def lp_layout_def lp_example_def lp_header_def lp_size_def bytes_examples
      exI [of _ 1])



text \<open>
  A list key filled by \<open>LPUSH\<close> is a stack: the values popped from the head are the
  pushed ones in reverse order.
\<close>

theorem lpush_lpop_stack:
  assumes "lp_fits new (rev vs)"
  shows "\<exists>l l' l''. lpNew new 20 = Some (Some l) \<and>
    push_loop (lp_push True new) (Some l) vs = Some (Some l') \<and>
    pop_loop (lp_pop new) (length vs) (Some l') [] = Some (rev vs, Some l'') \<and> lp_strings l'' []"
  using lpNew_rep [of new 20] lp.stack [of _ new vs] assms unfolding lp_fits_def by fastforce

theorem lpush_lpop_stack_witness:
  "lp_fits calloc_ok (rev [''a'', ''7'']) \<and>
   (\<exists>l l' l''. lpNew calloc_ok 20 = Some (Some l) \<and>
      push_loop (lp_push True calloc_ok) (Some l) [''a'', ''7''] = Some (Some l') \<and>
      pop_loop (lp_pop calloc_ok) 2 (Some l') [] = Some ([''7'', ''a''], Some l'') \<and> lp_strings l'' [])"
  using lpush_lpop_stack [of calloc_ok "[''a'', ''7'']"] calloc_ok_fits [OF small_strings(3,4)]
  by (simp add: numeral_2_eq_2)



text \<open>
  C7. Inserting before position \<open>i\<close> refines insertion into the abstract list: whenever the
  grown list fits and the allocator serves, every access of \<open>lpInsert\<close> stays inside its
  block, the result is a well-formed listpack of the list with the new element at \<open>i\<close>, and
  the returned pointer is the position of the new element.
\<close>

theorem lpInsert_refines:
  assumes "lp_rep lp es" "i \<le> length es" "lp_arg elestr eleint sz e" "valid_entry e"
    and "allocator_ok new" "new (lp_size (insert_nth i e es)) \<noteq> None"
    and "lp_size (insert_nth i e es) \<le> UINT32_MAX"
  shows "\<exists>lp'. lpInsert new lp elestr eleint sz (lp_off es i) LP_BEFORE =
      Some (Some (lp', Some (lp_off es i))) \<and> lp_rep lp' (insert_nth i e es)"
  using assms by (rule lpInsert_before)

theorem lpInsert_refines_witness:
  "\<exists>lp'. lpInsert calloc_ok lp_example (Some (bytes_of_string ''7'')) None 1 6 LP_BEFORE =
      Some (Some (lp', Some 6)) \<and> lp_rep lp' [EInt 7, EStr [97]]"
  using lpInsert_refines [OF lp_example_rep, of 0 "Some (bytes_of_string ''7'')" None 1 "EInt 7" calloc_ok]
    lp_arg_string [of "''7''"]
  by (simp add: entry_examples calloc_simps insert_nth_0 lp_size_def bytes_examples int64_range_def)

text \<open>
  C35. The error path of \<open>lpInsert\<close>: when the result would exceed 32 bits of size or the
  allocation fails, it returns the null pointer.
\<close>

theorem lpInsert_too_big:
  assumes "lp_rep lp es" "i \<le> length es" "lp_arg elestr eleint sz e" "valid_entry e"
    and "UINT32_MAX < lp_size (insert_nth i e es) \<or> new (lp_size (insert_nth i e es)) = None"
  shows "lpInsert new lp elestr eleint sz p LP_BEFORE = Some None"
  using assms by (rule lpInsert_before_fail)

theorem lpInsert_too_big_witness:
  "lpInsert (\<lambda>n. None) lp_example (Some (bytes_of_string ''7'')) None 1 6 LP_BEFORE = Some None"
  by (rule lpInsert_too_big [OF lp_example_rep, of 0 _ _ _ "EInt 7"])
    (use lp_arg_string [of "''7''"] in \<open>simp_all add: entry_examples int64_range_def\<close>)

text \<open>
  C8. \<open>lpDelete\<close> of the element at \<open>i\<close> refines deletion from the abstract list; the returned
  pointer is the next element, or null when the last one was deleted.
\<close>

theorem lpDelete_refines:
  assumes "lp_rep lp es" "i < length es"
    and "allocator_ok new" "new (lp_size (delete_nth i es)) \<noteq> None"
  shows "\<exists>lp'. lpDelete new lp (lp_off es i) =
      Some (Some (lp', if Suc i = length es then None else Some (lp_off es i))) \<and>
      lp_rep lp' (delete_nth i es)"
  using assms by (rule lpDelete_rep)

theorem lpDelete_refines_witness:
  "\<exists>lp'. lpDelete calloc_ok lp_example 6 = Some (Some (lp', None)) \<and> lp_rep lp' []"
  using lpDelete_refines [OF lp_example_rep, of 0 calloc_ok] by (simp add: calloc_simps delete_nth_def)



text \<open>
  C39. A value outside 32 bits at the head of a list makes \<open>lpFirst\<close> fail its assertion: the
  function that measures an entry knows no 64-bit integers, although the encoder produces
  them.
\<close>

theorem lpFirst_wide_int:
  assumes "lp_strings lp (s # xs)" "\<not> narrow_string s"
  shows "lpFirst lp = None"
  using assms lpFirst_wide [of lp "map entry_of_string (s # xs)"]
  by (simp add: lp_strings_def narrow_string_def)

theorem lpFirst_wide_int_witness:
  "\<exists>lp. lpAppend calloc_ok [7, 0, 0, 0, 0, 0, 255] (bytes_of_string ''4294967296'') (length ''4294967296'') = Some (Some lp) \<and>
     lpFirst lp = None"
proof -
  have e: "entry_of_string ''4294967296'' = EInt 4294967296"
    by (simp add: entry_of_string_def lpStringToInt64_def isdigit_def digit_val_def)
  have "lp_strings [7, 0, 0, 0, 0, 0, 255] []"
    by (simp add: lp_strings_def lp_rep_def lp_layout_def lp_header_def lp_size_def exI [of _ 0])
  from lpAppend_strings [OF this, of "''4294967296''" calloc_ok]
  obtain lp where "lpAppend calloc_ok [7, 0, 0, 0, 0, 0, 255] (bytes_of_string ''4294967296'') (length ''4294967296'') = Some (Some lp)"
    "lp_strings lp [''4294967296'']"
    by (auto simp: calloc_simps strings_size_def lp_size_def e entry_bytes_def lpEncodeIntegerGetType_def
        lpEncodeBacklenBytes_def split: if_splits)
  then show ?thesis using lpFirst_wide_int [of lp "''4294967296''" "[]"] by (simp add: narrow_string_def e)
qed

text \<open>
  Whatever encoding \<open>lpEncodeGetType\<close> picks for a pushed string, the string is read back
  unchanged: an integer encoding is chosen only for the canonical decimal form.
\<close>

theorem push_string_roundtrip: "string_of_entry (entry_of_string s) = s"
  by simp

text \<open>
  The entry length written backwards behind an entry is read back by \<open>lpDecodeBacklen\<close> from
  its last byte, for every length of up to 35 bits, wherever the entry stands.
\<close>

theorem backlen_roundtrip:
  assumes "n < 34359738368"
  shows "lpDecodeBacklen (pre @ fst (lpEncodeBacklen n) @ post)
    (length pre + snd (lpEncodeBacklen n) - 1) = Some n"
  using decode_backlen [OF assms, of pre post] by (simp add: lpEncodeBacklen_eq)

theorem backlen_roundtrip_witness:
  "lpDecodeBacklen (fst (lpEncodeBacklen 300)) (snd (lpEncodeBacklen 300) - 1) = Some 300"
  using backlen_roundtrip [of 300 "[]" "[]"] by simp

section \<open>Streams\<close>

text \<open>
  C6. The radix tree is a map: after an insertion the search finds the new value under the new
  key and the old answer under every other key, and the tree stays well formed (edges
  non-empty and sorted by distinct first characters).
\<close>

theorem radix_insert_search:
  assumes "tree_inv t"
  shows "tree_inv (insert_tree t k v) \<and> search_tree (insert_tree t k v) q = (if q = k then v else search_tree t q)"
  using radix.ins_inv [OF assms] radix.get_ins [OF assms] by blast

theorem radix_insert_search_witness:
  "search_tree (insert_tree (insert_tree None ''abc'' ''1'') ''abd'' ''2'') ''abc'' = ''1''"
  using radix_insert_search [of None "''abc''" "''1''" "''abc''"]
    radix_insert_search [of "insert_tree None ''abc'' ''1''" "''abd''" "''2''" "''abc''"]
  by (simp add: tree_inv_def)

text \<open>
  C27. The pruned range search returns exactly the entries between the two keys (the lower one
  excluded on demand), each once, in ascending key order, behind what the result vector
  already held.
\<close>

theorem radix_range:
  assumes "tree_inv t"
  shows "rangeSearch t s e res ex =
      res @ filter (\<lambda>x. s \<le> fst x \<and> fst x \<le> e \<and> \<not> (ex \<and> fst x = s)) (tree_entries t) \<and>
    sorted_wrt (<) (map fst (tree_entries t))"
  using radix.range_filter [OF assms] radix.bindings_ok [OF assms] by simp

theorem radix_range_witness:
  "rangeSearch (insert_tree None ''ab'' ''1'') ''aa'' ''b'' [] False = [(''ab'', ''1'')]"
proof -
  have "tree_inv (insert_tree None ''ab'' ''1'')" by (rule radix.ins_inv) (simp add: tree_inv_def)
  from radix_range [OF this, of "''aa''" "''b''" "[]" False]
  show ?thesis using radix.bindings_ins [of None "''ab''" "''1''"]
    by (simp add: tree_inv_def tree_entries_def)
qed

text \<open>
  C32. The 16-byte key of a stream entry orders as the identifiers do, and decodes back to it.
\<close>

theorem stream_id_order:
  "(toBinary a < toBinary b \<longleftrightarrow> isGreater b a) \<and> fromBinary (toBinary a) = Some a"
  by (simp add: fromBinary_toBinary less_StreamID_def)

text \<open>
  C5. \<open>Stream::insert\<close> refines appending to a log with strictly ascending identifiers: an
  identifier that is malformed, zero or not above the last one is refused with its error
  and leaves the stream as it was; any other is appended at the end and its printed form is
  returned.
\<close>

theorem xadd_append_only:
  assumes "stream_rep st es"
  shows "case insert_stream now st sid v of
      (OK, printed, st') \<Rightarrow> \<exists>i. fromString now st sid = Some i \<and> printed = toString i \<and>
        list_all (\<lambda>e. fst e < i) es \<and> stream_rep st' (es @ [(i, v)])
    | (INVALID_ID_FORMAT, printed, st') \<Rightarrow> st' = st \<and> fromString now st sid = None
    | (NOT_GREATER_THAN_ZERO, printed, st') \<Rightarrow> st' = st \<and> fromString now st sid = Some (StreamID 0 0)
    | (ID_NOT_GREATER_THAN_LAST, printed, st') \<Rightarrow>
        st' = st \<and> (\<exists>i. fromString now st sid = Some i \<and> i \<le> lastInsertStreamID st)"
proof -
  have "list_all (\<lambda>e. fst e < i) es" if "lastInsertStreamID st < i" for i
    using stream_rep_last(1) [OF assms] that by (auto simp: list_all_iff)
  then show ?thesis
    using insert_stream_append [OF assms]
    by (auto simp: insert_stream_cases [OF assms] not_le split: option.split)
qed

lemma one_entry_stream:
  "stream_rep (new_stream\<lparr>radixTreePtr := Some (insert_tree (stream_tree new_stream) (toBinary (StreamID 1 1)) ''x''),
     lastInsertStreamID := StreamID 1 1\<rparr>) [(StreamID 1 1, ''x'')]"
  using insert_stream_append [OF new_stream_rep, of "StreamID 1 1" "''x''"]
  by (simp add: new_stream_def less_StreamID_iff)

theorem xadd_append_only_witness:
  "\<exists>st. insert_stream 5 new_stream ''1-1'' ''x'' = (OK, ''1-1'', st) \<and> stream_rep st [(StreamID 1 1, ''x'')]"
proof -
  have i: "fromString 5 new_stream ''1-1'' = Some (StreamID 1 1)"
    by (simp add: fromString_def convert_positive_string_to_number_def isdigit_def digit_val_def)
  have "fst (insert_stream 5 new_stream ''1-1'' ''x'') = OK"
    by (simp add: insert_stream_def i Let_def) (simp add: new_stream_def)
  moreover have "toString (StreamID 1 1) = ''1-1''" by code_simp
  ultimately show ?thesis using xadd_append_only [OF new_stream_rep, of 5 "''1-1''" "''x''"]
    by (auto simp: i split: prod.splits StreamErrorType.splits)
qed

text \<open>
  C28. \<open>xrangeData\<close> returns exactly the entries of the log whose identifiers lie between the
  two bounds, in order; a bound that names only the milliseconds stands for the whole
  millisecond.
\<close>

theorem xrange_filter:
  assumes "stream_rep st es" "es \<noteq> []"
    and "fromStringForSearch s False = Some start" "fromStringForSearch e True = Some stop"
  shows "xrangeData st s e ex =
    Some (key_entries (filter (\<lambda>(i, v). start \<le> i \<and> i \<le> stop \<and> \<not> (ex \<and> i = start)) es))"
  using assms by (intro xrangeData_rep)

theorem xrange_filter_witness:
  "\<exists>st. xrangeData st ''-'' ''+'' False = Some [(toBinary (StreamID 1 1), ''x'')]"
proof -
  have "StreamID 0 0 \<le> StreamID 1 1" "StreamID 1 1 \<le> StreamID (- 1) (- 1)"
    by code_simp+
  with xrange_filter [OF one_entry_stream, of "''-''" "StreamID 0 0" "''+''" "StreamID (- 1) (- 1)" False]
  show ?thesis by (intro exI) (simp add: fromStringForSearch_def key_entries_def)
qed

text \<open>
  The printed form of an identifier is read back, by \<open>XADD\<close> and by the range commands.
\<close>

theorem stream_id_parse:
  "fromString now st (toString i) = Some i \<and> fromStringForSearch (toString i) isEndKey = Some i"
  by (simp add: fromString_toString fromStringForSearch_toString)

text \<open>
  C40. An automatic identifier in the millisecond of the last entry is refused as soon as that
  entry has a sequence number other than zero: the code restarts at 1 instead of counting on.
\<close>

theorem xadd_star_rejected:
  assumes "stream_rep st es" "lastInsertStreamID st = StreamID now k" "k \<noteq> 0"
  shows "insert_stream now st ''*'' v = (ID_NOT_GREATER_THAN_LAST, [], st)"
  using assms by (rule insert_stream_star_rejected)

theorem xadd_star_rejected_witness:
  "\<exists>st. insert_stream 1 st ''*'' ''y'' = (ID_NOT_GREATER_THAN_LAST, [], st)"
  using xadd_star_rejected [OF one_entry_stream, of 1 1] by auto

section \<open>Sorted sets and places\<close>

text \<open>
  C16. Insertion and removal keep the two indices of a sorted set and its length in step, and
  act on the scores as a map update and a deletion; the returned flag says whether the
  member was there.
\<close>

theorem zset_operations:
  assumes "zset_inv z"
  shows "zset_inv (snd (insert_zset z m s)) \<and> hashMap (snd (insert_zset z m s)) = (hashMap z)(m \<mapsto> s) \<and>
    (fst (insert_zset z m s) \<longleftrightarrow> hashMap z m \<noteq> None) \<and>
    zset_inv (snd (remove_zset z m)) \<and> hashMap (snd (remove_zset z m)) = (hashMap z)(m := None) \<and>
    (fst (remove_zset z m) \<longleftrightarrow> hashMap z m \<noteq> None)"
  using zset.add_inv [OF assms] zset.add_map [OF assms] zset.add_flag [OF assms]
    zset.del_inv [OF assms] zset.del_map [OF assms] zset.del_flag [OF assms] by blast

theorem zset_operations_witness:
  "zset_inv (snd (insert_zset (new_sorted_set :: int SortedSet) ''m'' 3))"
  using zset_operations [OF zset.emp_inv, of "''m''" "3 :: int"] by blast

text \<open>
  The rank of a member is the number of members before it in the order by score and, for
  equal scores, by name; members that are not in the set have none.
\<close>

theorem zset_rank:
  assumes "zset_inv z"
  shows "rank_zset z m =
    map_option (\<lambda>s. card {(s', m'). hashMap z m' = Some s' \<and> (s', m') < (s, m)}) (hashMap z m)"
  using zset.rank_card [OF assms] zset.rank_None [OF assms] by (cases "hashMap z m") auto

theorem zset_rank_witness:
  "rank_zset (snd (insert_zset (new_sorted_set :: int SortedSet) ''m'' 3)) ''m'' = Some 0"
proof -
  let ?z = "snd (insert_zset (new_sorted_set :: int SortedSet) ''m'' 3)"
  have h: "hashMap ?z = [''m'' \<mapsto> 3]" by (simp add: zset.add_map [OF zset.emp_inv] zset.emp_map)
  have "{(s', m'). hashMap ?z m' = Some s' \<and> (s', m') < (3, ''m'')} = {}" "hashMap ?z ''m'' = Some 3"
    by (auto simp: h split: if_splits)
  then show ?thesis using zset_rank [OF zset.add_inv [OF zset.emp_inv, of "''m''" "3 :: int"], of "''m''"]
    by (simp only: option.map card.empty)
qed

text \<open>
  \<open>ZRANGE\<close> returns the members at the ranks from the first to the second index, negative
  indices counted from the end and both clamped to the set.
\<close>

theorem zset_range:
  "range_zset z start stop = map (\<lambda>i. snd (sets z ! i))
     (filter (\<lambda>i. (if start < 0 then int (length (sets z)) + start else start) \<le> int i \<and>
                  int i \<le> (if stop < 0 then int (length (sets z)) + stop else stop)) [0..<length (sets z)])"
  by (simp add: range_zset_clamp clamp_range_def)

text \<open>
  \<open>ZCARD\<close> is the number of members.
\<close>

theorem zset_size:
  assumes "zset_inv z"
  shows "size_zset z = of_nat (card (dom (hashMap z)))"
  using assms by (rule size_zset_card)

theorem zset_size_witness: "size_zset (new_sorted_set :: int SortedSet) = 0"
  using zset_size [OF zset.emp_inv, where 'a = int] by (simp add: zset.emp_map)

text \<open>
  C34. The mask-and-shift interleaving puts bit \<open>i\<close> of the first number at \<open>2 * i\<close> and of the
  second at \<open>2 * i + 1\<close>, and de-interleaving returns both numbers.
\<close>

theorem interleave_bits:
  "bit (interleave64 x y) k = (k < 64 \<and> (if even k then bit x (k div 2) else bit y (k div 2))) \<and>
   deinterleave64 (interleave64 x y) = ucast x OR push_bit 32 (ucast y)"
  by (simp add: interleave64_bit deinterleave64_interleave64)



section \<open>The wire protocol\<close>





text \<open>
  \<open>convert_string_to_number\<close> accepts the decimal form of exactly the 64-bit integers and
  returns their value: what it accepts is in range, and every integer in range is read back
  from its printed form.
\<close>

theorem number_reader:
  "(convert_string_to_number s = Some v \<longrightarrow> int64_range v) \<and>
   (int64_range v \<longrightarrow> convert_string_to_number (int_to_string v) = Some v)"
  using convert_string_to_number_SomeD [of s v] convert_string_to_number_int_to_string [of v] by blast

theorem number_reader_witness:
  "convert_string_to_number (int_to_string (- 9223372036854775808)) = Some (- 9223372036854775808)"
  using number_reader [of "[]" "- 9223372036854775808"] by (simp add: int64_range_def)

section \<open>Snapshots\<close>

text \<open>A file with one key and no metadata.\<close>

definition snapshot_example :: "byte list" where
  "snapshot_example = enc_snapshot (bytes_of_string ''0011'') []
     [\<lparr>db_num = 0, hash_size = 1, expire_size = 0, entries = [(Raw ''k'', Raw ''v'', None)]\<rparr>] []"

text \<open>
  C19. Loading a snapshot file: a file that is the encoding of metadata and databases is read to its end
  mark without a fault, whatever of the three length forms and four string encodings it uses and with or without
  expiries; the store gets, for each key of the file, the text of its last value, and keeps its other keys.
\<close>

theorem snapshot_loads:
  assumes "length version = 4" "list_all (\<lambda>(k, v). string_ok k \<and> string_ok v) aux" "list_all database_ok ds"
    and "store_entries e (concat (map entries ds)) s = Some s'"
  shows "parse e (Some (enc_snapshot version aux ds checksum)) s = (Inr True, s') \<and>
    store s' = store s ++ map_of (rev (map (\<lambda>(k, v, x). (string_text k, STRING (string_text v))) (concat (map entries ds))))"
  using parse_snapshot [OF assms] store_entries_store [OF assms(4)] by blast

theorem snapshot_loads_witness:
  "\<exists>s'. parse env0 (Some snapshot_example) two_clients = (Inr True, s') \<and> store s' = [''k'' \<mapsto> STRING ''v'']"
proof -
  obtain s' where s': "store_entries env0 [(Raw ''k'', Raw ''v'', None)] two_clients = Some s'"
    by (simp add: store_entry_def)
  from snapshot_loads [of "bytes_of_string ''0011''" "[]"
      "[\<lparr>db_num = 0, hash_size = 1, expire_size = 0, entries = [(Raw ''k'', Raw ''v'', None)]\<rparr>]" env0 two_clients s' "[]"]
    s'
  show ?thesis by (simp add: snapshot_example_def database_ok_def bytes_of_string_def)
qed



section \<open>The server\<close>



end
